(* ===== verification/Prelude.thy ===== *)
theory Prelude
  imports Main "HOL-Library.AList" "HOL-Library.Word" "HOL-Library.Multiset"
    "HOL-Library.List_Lexorder" "HOL-Library.Char_ord" "HOL-Library.Sublist"
begin

text \<open>
  Shared vocabulary of the development.
  \<^item> Go strings and byte slices are byte sequences, hence \<open>string\<close> (a list of 8-bit
    characters); their order is the byte-wise lexicographic one of \<open>sort.Strings\<close>.
  \<^item> Go errors are represented by their text (what \<open>err.Error()\<close> returns); a result
    \<open>(T, error)\<close> is \<open>'a res = go_error + 'a\<close> and a bare \<open>error\<close> is \<open>go_error option\<close>.
  \<^item> Go maps are association lists with distinct keys (\<open>gomap\<close>). Their order stands for
    nothing: where the code ranges over a map the operation takes the order the runtime
    chose as an argument (\<open>'a permuter\<close>), and the theorems hold for every choice.
  \<^item> \<open>time.Time\<close> is an integer number of nanoseconds, \<open>uint64\<close> is \<open>64 word\<close>.
\<close>

section \<open>Types\<close>

type_synonym go_error = string

type_synonym 'a res = "go_error + 'a"

type_synonym ('k, 'v) gomap = "('k \<times> 'v) list"

type_synonym time = int

type_synonym uint64 = "64 word"

text \<open>The order in which the runtime yields the elements of a map (and breaks the ties of an
  unstable sort).\<close>

type_synonym 'a permuter = "'a list \<Rightarrow> 'a list"

definition is_permuter :: "'a permuter \<Rightarrow> bool" where
  "is_permuter p \<longleftrightarrow> (\<forall>xs. mset (p xs) = mset xs)"

text \<open>Collections the component theories add to: facts that compute a component's
  operations, and facts that an operation keeps an invariant.\<close>

named_theorems op_simps
named_theorems inv_intros

section \<open>Results\<close>

definition bind_res :: "'a res \<Rightarrow> ('a \<Rightarrow> 'b res) \<Rightarrow> 'b res" where
  "bind_res r f = (case r of Inl e \<Rightarrow> Inl e | Inr x \<Rightarrow> f x)"

lemma bind_res_simps [simp]:
  "bind_res (Inl e) f = Inl e" "bind_res (Inr x) f = f x"
  by (simp_all add: bind_res_def)

lemma bind_res_eq_Inr:
  "bind_res r f = Inr y \<longleftrightarrow> (\<exists>x. r = Inr x \<and> f x = Inr y)"
  by (cases r) auto

lemma bind_res_eq_Inl:
  "bind_res r f = Inl e \<longleftrightarrow> r = Inl e \<or> (\<exists>x. r = Inr x \<and> f x = Inl e)"
  by (cases r) auto

section \<open>Permuters\<close>

lemma permuter_mset: "is_permuter p \<Longrightarrow> mset (p xs) = mset xs"
  by (simp add: is_permuter_def)

lemma permuter_set: "is_permuter p \<Longrightarrow> set (p xs) = set xs"
  by (metis permuter_mset set_mset_mset)

lemma permuter_length: "is_permuter p \<Longrightarrow> length (p xs) = length xs"
  by (metis permuter_mset size_mset)

lemma permuter_distinct: "is_permuter p \<Longrightarrow> distinct (p xs) = distinct xs"
  by (metis permuter_mset mset_eq_imp_distinct_iff)

lemma permuter_distinct_map: "is_permuter p \<Longrightarrow> distinct (map f (p xs)) = distinct (map f xs)"
  by (metis permuter_mset mset_map mset_eq_imp_distinct_iff)

lemma permuter_Nil [simp]: "is_permuter p \<Longrightarrow> p [] = []"
  using permuter_length [of p "[]"] by simp

lemma permuter_sing: "is_permuter p \<Longrightarrow> p [x] = [x]"
  using permuter_length [of p "[x]"] permuter_set [of p "[x]"]
  by (cases "p [x]") auto

lemma permuter_id: "is_permuter (\<lambda>xs. xs)"
  by (simp add: is_permuter_def)

lemma permuter_rev: "is_permuter rev"
  by (simp add: is_permuter_def)

section \<open>Maps as association lists\<close>

definition wf_gomap :: "('k, 'v) gomap \<Rightarrow> bool" where
  "wf_gomap m \<longleftrightarrow> distinct (map fst m)"

lemma wf_gomap_Nil [simp, inv_intros]: "wf_gomap []"
  by (simp add: wf_gomap_def)

lemma wf_gomap_update [inv_intros]: "wf_gomap m \<Longrightarrow> wf_gomap (AList.update k v m)"
  by (simp add: wf_gomap_def distinct_update)

lemma map_of_update [simp]: "map_of (AList.update k v m) = (map_of m)(k \<mapsto> v)"
  by (rule update_conv')

lemma wf_gomap_map_of_iff: "wf_gomap m \<Longrightarrow> map_of m k = Some v \<longleftrightarrow> (k, v) \<in> set m"
  by (simp add: wf_gomap_def)

text \<open>The values of a map, as a loop \<open>for _, v := range m\<close> sees them (in some order).\<close>

lemma map_of_ran_set: "wf_gomap m \<Longrightarrow> set (map snd m) = ran (map_of m)"
  by (auto simp: wf_gomap_def ran_distinct)

lemma wf_gomap_mset_eq:
  assumes "wf_gomap m" "wf_gomap n" "map_of m = map_of n"
  shows "mset m = mset n"
proof -
  have "set m = set n"
    using assms by (auto simp flip: wf_gomap_map_of_iff)
  moreover have "distinct m" "distinct n"
    using assms(1,2) by (auto simp: wf_gomap_def distinct_map)
  ultimately show ?thesis
    by (simp add: set_eq_iff_mset_eq_distinct)
qed

lemma map_of_eqI_mset:
  assumes "wf_gomap m" "mset m = mset n"
  shows "map_of m = map_of n"
proof -
  have "wf_gomap n"
    using assms unfolding wf_gomap_def by (metis mset_map mset_eq_imp_distinct_iff)
  moreover have "set m = set n"
    using assms(2) by (metis set_mset_mset)
  ultimately show ?thesis
    using assms(1) by (intro ext) (metis map_of_eq_None_iff not_None_eq wf_gomap_map_of_iff
        image_iff fst_conv)
qed

section \<open>Sorting\<close>

lemma sort_mset_eq: "mset xs = mset ys \<Longrightarrow> sort xs = sort ys"
  by (metis mset_sort properties_for_sort sorted_sort)

lemma set_take_sort_key_subset: "set (take n (sort_key f xs)) \<subseteq> set xs"
  by (metis set_sort set_take_subset)

text \<open>A prefix of a list sorted by \<open>f\<close> lies below everything that was cut off.\<close>

lemma take_sort_key_le:
  assumes "x \<in> set (take n (sort_key f xs))" "y \<in> set xs" "y \<notin> set (take n (sort_key f xs))"
  shows "f x \<le> f y"
proof -
  let ?s = "sort_key f xs"
  have "y \<in> set (drop n ?s)"
    using assms(2,3) by (metis UnE append_take_drop_id set_append set_sort)
  moreover have "sorted (map f (take n ?s) @ map f (drop n ?s))"
    by (metis append_take_drop_id map_append sorted_sort_key)
  ultimately show ?thesis
    using assms(1) by (auto simp: sorted_append)
qed

section \<open>Integers\<close>

text \<open>\<open>limit\<close> as the prefix operations of the stores use it: Go's \<open>out[:limit]\<close>.\<close>

lemma nat_le_length_take: "0 < limit \<Longrightarrow> limit \<le> int (length xs) \<Longrightarrow>
    length (take (nat limit) xs) = nat limit"
  by simp

lemma sort_key_map:
  assumes "\<And>x. h x = g (f x)"
  shows "map f (sort_key h xs) = sort_key g (map f xs)"
proof (induction xs)
  case (Cons x xs)
  have "map f (insort_key h x ys) = insort_key g (f x) (map f ys)" for ys
    by (induction ys) (auto simp: assms)
  with Cons show ?case by simp
qed simp

lemma map_eq_list_all2: "map f xs = map g ys \<longleftrightarrow> list_all2 (\<lambda>x y. f x = g y) xs ys"
  by (induction xs ys rule: list_induct2') auto

end
