(* ===== verification/Go_Text.thy ===== *)
theory Go_Text
  imports Prelude
begin

text \<open>
  The parts of Go's \<open>strings\<close>, \<open>bytes\<close>, \<open>unicode/utf8\<close>, \<open>unicode\<close>, \<open>strconv\<close> and
  \<open>encoding/hex\<close> packages that the program calls, on byte sequences: UTF-8 decoding with
  the replacement rune for invalid input, Unicode white space and lower case, decimal
  parsing with its range checks, and hexadecimal encoding.
\<close>

section \<open>UTF-8\<close>

abbreviation byte :: "char \<Rightarrow> nat" where
  "byte c \<equiv> of_char c"

definition RuneError :: nat where
  "RuneError = 65533"

definition in_range :: "nat \<Rightarrow> nat \<Rightarrow> char \<Rightarrow> bool" where
  "in_range lo hi c \<longleftrightarrow> lo \<le> byte c \<and> byte c \<le> hi"

text \<open>\<open>utf8.DecodeRune\<close>: the rune at the front of a non-empty sequence and its width;
  an invalid encoding is \<open>(RuneError, 1)\<close>.\<close>

definition second_range :: "nat \<Rightarrow> nat \<times> nat" where
  "second_range b0 =
     (if b0 = 224 then (160, 191) else if b0 = 237 then (128, 159)
      else if b0 = 240 then (144, 191) else if b0 = 244 then (128, 143) else (128, 191))"

definition decode_rune :: "string \<Rightarrow> nat \<times> nat" where
  "decode_rune s =
     (case s of
        [] \<Rightarrow> (RuneError, 0)
      | c0 # cs \<Rightarrow>
          (let b0 = byte c0; (lo, hi) = second_range b0 in
           if b0 < 128 then (b0, 1)
           else if b0 < 194 \<or> 244 < b0 then (RuneError, 1)
           else case cs of
             [] \<Rightarrow> (RuneError, 1)
           | c1 # cs1 \<Rightarrow>
               if \<not> in_range lo hi c1 then (RuneError, 1)
               else if b0 < 224 then ((b0 - 192) * 64 + (byte c1 - 128), 2)
               else case cs1 of
                 [] \<Rightarrow> (RuneError, 1)
               | c2 # cs2 \<Rightarrow>
                   if \<not> in_range 128 191 c2 then (RuneError, 1)
                   else if b0 < 240 then
                     ((b0 - 224) * 4096 + (byte c1 - 128) * 64 + (byte c2 - 128), 3)
                   else case cs2 of
                     [] \<Rightarrow> (RuneError, 1)
                   | c3 # _ \<Rightarrow>
                       if \<not> in_range 128 191 c3 then (RuneError, 1)
                       else ((b0 - 240) * 262144 + (byte c1 - 128) * 4096
                             + (byte c2 - 128) * 64 + (byte c3 - 128), 4)))"

lemma decode_rune_width_pos: "s \<noteq> [] \<Longrightarrow> 0 < snd (decode_rune s)"
  by (auto simp: decode_rune_def Let_def split: list.splits prod.splits)

text \<open>The runes a \<open>for _, r := range s\<close> loop visits.\<close>

function runes :: "string \<Rightarrow> nat list" where
  "runes [] = []"
| "runes (c # cs) =
     (let (r, w) = decode_rune (c # cs) in r # runes (drop w (c # cs)))"
  by pat_completeness auto
termination
proof (relation "measure length", simp)
  fix c cs r w x
  assume "x = decode_rune (c # cs)" "(r, w) = x"
  then have "0 < w" using decode_rune_width_pos [of "c # cs"] by (metis list.distinct(1) snd_conv)
  then show "(drop w (c # cs), c # cs) \<in> measure length" by (simp add: diff_less)
qed

declare runes.simps [simp del]

text \<open>\<open>utf8.EncodeRune\<close>; runes outside the Unicode scalar values encode as \<open>RuneError\<close>.\<close>

definition encode_rune :: "nat \<Rightarrow> string" where
  "encode_rune r =
     (if r < 128 then [char_of r]
      else if r < 2048 then [char_of (192 + r div 64), char_of (128 + r mod 64)]
      else if 55296 \<le> r \<and> r \<le> 57343 \<or> 1114111 < r
        then [char_of (239::nat), char_of (191::nat), char_of (189::nat)]
      else if r < 65536
        then [char_of (224 + r div 4096), char_of (128 + r div 64 mod 64), char_of (128 + r mod 64)]
      else [char_of (240 + r div 262144), char_of (128 + r div 4096 mod 64),
            char_of (128 + r div 64 mod 64), char_of (128 + r mod 64)])"

definition ascii :: "string \<Rightarrow> bool" where
  "ascii s \<longleftrightarrow> (\<forall>c \<in> set s. byte c < 128)"

lemma ascii_simps [simp]:
  "ascii []" "ascii (c # s) \<longleftrightarrow> byte c < 128 \<and> ascii s" "ascii (s @ t) \<longleftrightarrow> ascii s \<and> ascii t"
  by (auto simp: ascii_def)

lemma runes_ascii: "ascii s \<Longrightarrow> runes s = map byte s"
proof (induction s)
  case Nil
  then show ?case by (simp add: runes.simps)
next
  case (Cons c s)
  then have "decode_rune (c # s) = (byte c, 1)"
    by (simp add: decode_rune_def Let_def split: prod.splits)
  with Cons show ?case by (simp add: runes.simps)
qed

lemma second_range_low: "128 \<le> fst (second_range b)" "fst (second_range 224) = 160" "fst (second_range 240) = 144"
  by (simp_all add: second_range_def)

lemma rune3_bound:
  assumes "224 \<le> b" "fst (second_range b) \<le> y"
  shows "128 \<le> (b - 224) * 4096 + (y - 128) * 64"
proof (cases "b = 224")
  case True
  then have "32 \<le> y - 128" using assms(2) second_range_low(2) by simp
  then have "32 * 64 \<le> (y - 128) * 64" by (rule mult_le_mono1)
  then show ?thesis by simp
next
  case False
  then have "1 * 4096 \<le> (b - 224) * 4096" using assms(1) by (intro mult_le_mono1) simp
  then show ?thesis by simp
qed

lemma rune4_bound:
  assumes "240 \<le> b" "fst (second_range b) \<le> y"
  shows "128 \<le> (b - 240) * 262144 + (y - 128) * 4096"
proof (cases "b = 240")
  case True
  then have "16 \<le> y - 128" using assms(2) second_range_low(3) by simp
  then have "16 * 4096 \<le> (y - 128) * 4096" by (rule mult_le_mono1)
  then show ?thesis by simp
next
  case False
  then have "1 * 262144 \<le> (b - 240) * 262144" using assms(1) by (intro mult_le_mono1) simp
  then show ?thesis by simp
qed

lemma decode_rune_non_ascii: "128 \<le> byte c \<Longrightarrow> 128 \<le> fst (decode_rune (c # s))"
proof -
  assume c: "128 \<le> byte c"
  have two: "128 \<le> (byte c - 192) * 64 + x" if "\<not> byte c < 194" for x
  proof -
    have "2 * 64 \<le> (byte c - 192) * 64" using that by (intro mult_le_mono1) simp
    then show ?thesis by simp
  qed
  have three: "128 \<le> (byte c - 224) * 4096 + (byte c1 - 128) * 64 + x"
    if "\<not> byte c < 224" "fst (second_range (byte c)) \<le> byte c1" for c1 x
    using rune3_bound [of "byte c" "byte c1"] that by linarith
  have four: "128 \<le> (byte c - 240) * 262144 + (byte c1 - 128) * 4096 + y + x"
    if "\<not> byte c < 240" "fst (second_range (byte c)) \<le> byte c1" for c1 x y
    using rune4_bound [of "byte c" "byte c1"] that by linarith
  have err: "128 \<le> RuneError" by (simp add: RuneError_def)
  have branch: "n \<le> fst (if P then x else y)" if "P \<Longrightarrow> n \<le> fst x" "\<not> P \<Longrightarrow> n \<le> fst y"
    for n :: nat and P and x y :: "nat \<times> nat"
    using that by simp
  note leaf = two three four err c in_range_def
  show ?thesis
  proof (cases s)
    case Nil
    then show ?thesis using c err by (simp add: decode_rune_def Let_def case_prod_beta)
  next
    case (Cons c1 s1)
    show ?thesis
      unfolding Cons decode_rune_def Let_def case_prod_beta list.case
    proof (intro branch; (simp only: fst_conv; use leaf in blast)?)
      assume h: "\<not> (byte c < 194 \<or> 244 < byte c)" "\<not> \<not> in_range (fst (second_range (byte c))) (snd (second_range (byte c))) c1"
        "\<not> byte c < 224"
      then have r: "fst (second_range (byte c)) \<le> byte c1" by (simp add: in_range_def)
      show "128 \<le> fst (case s1 of [] \<Rightarrow> (RuneError, 1 :: nat) | c2 # cs2 \<Rightarrow>
          if \<not> in_range 128 191 c2 then (RuneError, 1)
          else if byte c < 240 then ((byte c - 224) * 4096 + (byte c1 - 128) * 64 + (byte c2 - 128), 3)
          else case cs2 of [] \<Rightarrow> (RuneError, 1) | c3 # _ \<Rightarrow>
            if \<not> in_range 128 191 c3 then (RuneError, 1)
            else ((byte c - 240) * 262144 + (byte c1 - 128) * 4096 + (byte c2 - 128) * 64 + (byte c3 - 128), 4))"
      proof (cases s1)
        case (Cons c2 s2)
        show ?thesis
          unfolding Cons list.case
          by (cases s2; simp only: list.case; intro branch; simp only: fst_conv;
              use three [OF h(3) r] four [OF _ r] err in blast)
      qed (use err in simp)
    qed
  qed
qed

lemma runes_non_ascii: "\<not> ascii s \<Longrightarrow> \<exists>r \<in> set (runes s). 128 \<le> r"
proof (induction s rule: runes.induct)
  case (2 c cs)
  obtain r w where d: "decode_rune (c # cs) = (r, w)" by (cases "decode_rune (c # cs)")
  show ?case
  proof (cases "byte c < 128")
    case True
    then have "decode_rune (c # cs) = (byte c, 1)"
      by (simp add: decode_rune_def Let_def split: prod.splits)
    then have "w = 1" using d by simp
    then show ?thesis using "2.IH" [OF refl d [symmetric]] "2.prems" True d by (simp add: runes.simps)
  next
    case False
    with decode_rune_non_ascii [of c cs] d show ?thesis by (simp add: runes.simps)
  qed
qed simp

lemma byte_dot: "byte c = 46 \<longleftrightarrow> c = CHR ''.''"
proof -
  have "byte CHR ''.'' = (46::nat)" by simp
  then show ?thesis by (metis of_char_eq_iff)
qed

section \<open>White space: \<open>strings.TrimSpace\<close>, \<open>bytes.TrimSpace\<close>\<close>

text \<open>The UTF-8 encodings of the runes with the \<open>White_Space\<close> property
  (\<open>unicode.IsSpace\<close>). No encoding is a suffix of another one, and each starts with the
  only lead byte it holds, so that a rune at either end of a string is white space just
  when one of these encodings stands there.\<close>

definition space_runes :: "nat list" where
  "space_runes = [9, 10, 11, 12, 13, 32, 133, 160, 5760] @ [8192..<8203] @ [8232, 8233, 8239, 8287, 12288]"

definition spaces :: "string list" where
  "spaces = map encode_rune space_runes"

text \<open>Remove leading occurrences of the given non-empty strings.\<close>

function strip :: "string list \<Rightarrow> string \<Rightarrow> string" where
  "strip es s =
     (case find (\<lambda>e. e \<noteq> [] \<and> prefix e s) es of
        None \<Rightarrow> s
      | Some e \<Rightarrow> strip es (drop (length e) s))"
  by pat_completeness auto
termination
proof (relation "measure (\<lambda>(es, s). length s)", simp)
  fix es :: "string list" and s e
  assume "find (\<lambda>e. e \<noteq> [] \<and> prefix e s) es = Some e"
  then have "e \<noteq> []" "prefix e s" by (auto simp: find_Some_iff)
  then have "0 < length e" "length e \<le> length s" by (auto dest: prefix_length_le)
  then have "length s - length e < length s" by linarith
  then show "((es, drop (length e) s), (es, s)) \<in> measure (\<lambda>(es, s). length s)" by simp
qed

declare strip.simps [simp del]

definition TrimLeftSpace :: "string \<Rightarrow> string" where
  "TrimLeftSpace s = strip spaces s"

definition TrimRightSpace :: "string \<Rightarrow> string" where
  "TrimRightSpace s = rev (strip (map rev spaces) (rev s))"

definition TrimSpace :: "string \<Rightarrow> string" where
  "TrimSpace s = TrimRightSpace (TrimLeftSpace s)"

lemma strip_Nil [simp]: "strip es [] = []"
proof -
  have "find (\<lambda>e. e \<noteq> [] \<and> prefix e []) es = None"
    by (auto simp: find_None_iff)
  then show ?thesis by (subst strip.simps) simp
qed

lemma strip_id_iff: "strip es s = s \<longleftrightarrow> (\<forall>e \<in> set es. e \<noteq> [] \<longrightarrow> \<not> prefix e s)"
  (is "?L \<longleftrightarrow> ?R")
proof
  assume ?R
  then have "find (\<lambda>e. e \<noteq> [] \<and> prefix e s) es = None"
    by (auto simp: find_None_iff)
  then show ?L by (subst strip.simps) simp
next
  assume L: ?L
  show ?R
  proof (rule ccontr)
    assume "\<not> ?R"
    then obtain e where e: "find (\<lambda>e. e \<noteq> [] \<and> prefix e s) es = Some e"
      by (cases "find (\<lambda>e. e \<noteq> [] \<and> prefix e s) es") (auto simp: find_None_iff)
    then have ne: "e \<noteq> []" "prefix e s" by (auto simp: find_Some_iff)
    have le: "length (strip es t) \<le> length t" for t
    proof (induction es t rule: strip.induct)
      case (1 es s)
      show ?case
        by (subst strip.simps) (auto split: option.split dest!: "1.IH")
    qed
    have "strip es s = strip es (drop (length e) s)"
      using e by (subst strip.simps) simp
    moreover have "length s - length e < length s"
      using ne by (metis diff_less le_zero_eq length_0_conv length_greater_0_conv prefix_Nil)
    ultimately show False
      using le [of "drop (length e) s"] L by simp
  qed
qed

lemma strip_idem: "strip es (strip es s) = strip es s"
proof (induction es s rule: strip.induct)
  case (1 es s)
  show ?case
  proof (cases "find (\<lambda>e. e \<noteq> [] \<and> prefix e s) es")
    case None
    then have "strip es s = s" by (subst strip.simps) simp
    then show ?thesis by simp
  next
    case (Some e)
    then have "strip es s = strip es (drop (length e) s)"
      by (subst strip.simps) simp
    with "1.IH" [OF Some] show ?thesis by simp
  qed
qed

lemma strip_suffix: "suffix (strip es s) s"
proof (induction es s rule: strip.induct)
  case (1 es s)
  show ?case
  proof (cases "find (\<lambda>e. e \<noteq> [] \<and> prefix e s) es")
    case None
    then show ?thesis by (subst strip.simps) simp
  next
    case (Some e)
    then have "strip es s = strip es (drop (length e) s)"
      by (subst strip.simps) simp
    with "1.IH" [OF Some] show ?thesis
      by (metis suffix_drop suffix_order.trans)
  qed
qed

lemma TrimSpace_Nil [simp]: "TrimSpace [] = []"
  by (simp add: TrimSpace_def TrimLeftSpace_def TrimRightSpace_def)

text \<open>A string whose first and last byte are printable ASCII is left alone: this computes
  \<^const>\<open>TrimSpace\<close> on the names the program compares.\<close>

lemma space_first_byte: "e \<in> set spaces \<Longrightarrow> \<exists>c cs. e = c # cs \<and> \<not> (32 < byte c \<and> byte c < 128)"
proof -
  have "\<forall>r \<in> set space_runes. \<exists>c cs. encode_rune r = c # cs \<and> \<not> (32 < byte c \<and> byte c < 128)"
    by (simp add: space_runes_def upt_rec encode_rune_def of_char_of)
  then show "e \<in> set spaces \<Longrightarrow> ?thesis" by (auto simp: spaces_def)
qed

lemma space_last_byte: "e \<in> set spaces \<Longrightarrow> \<exists>c cs. rev e = c # cs \<and> \<not> (32 < byte c \<and> byte c < 128)"
proof -
  have "\<forall>r \<in> set space_runes. rev (encode_rune r) \<noteq> [] \<and>
      \<not> (32 < byte (hd (rev (encode_rune r))) \<and> byte (hd (rev (encode_rune r))) < 128)"
    by (simp add: space_runes_def upt_rec encode_rune_def of_char_of)
  then show "e \<in> set spaces \<Longrightarrow> ?thesis"
    unfolding spaces_def by (metis (no_types, lifting) imageE list.exhaust_sel list.set_map)
qed

lemma TrimSpace_id:
  assumes "32 < byte (hd s)" "byte (hd s) < 128" "32 < byte (last s)" "byte (last s) < 128"
  shows "TrimSpace s = s"
proof (cases s)
  case (Cons c cs)
  have "strip spaces s = s"
    unfolding strip_id_iff
  proof (intro ballI impI notI)
    fix e assume "e \<in> set spaces" "prefix e s"
    then show False
      using space_first_byte [of e] assms(1,2) Cons by auto
  qed
  moreover have "strip (map rev spaces) (rev s) = rev s"
    unfolding strip_id_iff
  proof (intro ballI impI notI)
    fix e assume "e \<in> set (map rev spaces)" and p: "prefix e (rev s)"
    then obtain e' where e': "e' \<in> set spaces" "e = rev e'" by auto
    obtain c' cs' where "e = c' # cs'" "\<not> (32 < byte c' \<and> byte c' < 128)"
      using space_last_byte [OF e'(1)] e'(2) by auto
    moreover have "hd (rev s) = last s" by (simp add: hd_rev)
    ultimately show False
      using p assms(3,4) Cons by (metis hd_append2 list.distinct(1) list.sel(1) prefix_def)
  qed
  ultimately show ?thesis
    by (simp add: TrimSpace_def TrimLeftSpace_def TrimRightSpace_def)
qed simp

end
