(* ===== verification/Go_Unicode.thy ===== *)
theory Go_Unicode
  imports Go_Text
begin

text \<open>
  Lower case as Go's \<open>unicode\<close> tables define it (Unicode 15, the tables of Go 1.22), and the
  \<open>strings\<close> functions built on it. The table lists the runes outside ASCII whose simple
  lower-case mapping differs from themselves, as ranges \<open>(first, last, stride, delta)\<close>.
\<close>

definition lower_ranges :: "(nat \<times> nat \<times> nat \<times> int) list" where
  "lower_ranges = [
    (192, 214, 1, 32), (216, 222, 1, 32), (256, 302, 2, 1), (304, 304, 1, -199),
    (306, 310, 2, 1), (313, 327, 2, 1), (330, 374, 2, 1), (376, 376, 1, -121), (377, 381, 2, 1),
    (385, 385, 1, 210), (386, 388, 2, 1), (390, 390, 1, 206), (391, 391, 1, 1),
    (393, 394, 1, 205), (395, 395, 1, 1), (398, 398, 1, 79), (399, 399, 1, 202),
    (400, 400, 1, 203), (401, 401, 1, 1), (403, 403, 1, 205), (404, 404, 1, 207),
    (406, 406, 1, 211), (407, 407, 1, 209), (408, 408, 1, 1), (412, 412, 1, 211),
    (413, 413, 1, 213), (415, 415, 1, 214), (416, 420, 2, 1), (422, 422, 1, 218),
    (423, 423, 1, 1), (425, 425, 1, 218), (428, 428, 1, 1), (430, 430, 1, 218), (431, 431, 1, 1),
    (433, 434, 1, 217), (435, 437, 2, 1), (439, 439, 1, 219), (440, 440, 1, 1), (444, 444, 1, 1),
    (452, 452, 1, 2), (453, 453, 1, 1), (455, 455, 1, 2), (456, 456, 1, 1), (458, 458, 1, 2),
    (459, 475, 2, 1), (478, 494, 2, 1), (497, 497, 1, 2), (498, 500, 2, 1), (502, 502, 1, -97),
    (503, 503, 1, -56), (504, 542, 2, 1), (544, 544, 1, -130), (546, 562, 2, 1),
    (570, 570, 1, 10795), (571, 571, 1, 1), (573, 573, 1, -163), (574, 574, 1, 10792),
    (577, 577, 1, 1), (579, 579, 1, -195), (580, 580, 1, 69), (581, 581, 1, 71),
    (582, 590, 2, 1), (880, 882, 2, 1), (886, 886, 1, 1), (895, 895, 1, 116), (902, 902, 1, 38),
    (904, 906, 1, 37), (908, 908, 1, 64), (910, 911, 1, 63), (913, 929, 1, 32),
    (931, 939, 1, 32), (975, 975, 1, 8), (984, 1006, 2, 1), (1012, 1012, 1, -60),
    (1015, 1015, 1, 1), (1017, 1017, 1, -7), (1018, 1018, 1, 1), (1021, 1023, 1, -130),
    (1024, 1039, 1, 80), (1040, 1071, 1, 32), (1120, 1152, 2, 1), (1162, 1214, 2, 1),
    (1216, 1216, 1, 15), (1217, 1229, 2, 1), (1232, 1326, 2, 1), (1329, 1366, 1, 48),
    (4256, 4293, 1, 7264), (4295, 4295, 1, 7264), (4301, 4301, 1, 7264), (5024, 5103, 1, 38864),
    (5104, 5109, 1, 8), (7312, 7354, 1, -3008), (7357, 7359, 1, -3008), (7680, 7828, 2, 1),
    (7838, 7838, 1, -7615), (7840, 7934, 2, 1), (7944, 7951, 1, -8), (7960, 7965, 1, -8),
    (7976, 7983, 1, -8), (7992, 7999, 1, -8), (8008, 8013, 1, -8), (8025, 8031, 2, -8),
    (8040, 8047, 1, -8), (8072, 8079, 1, -8), (8088, 8095, 1, -8), (8104, 8111, 1, -8),
    (8120, 8121, 1, -8), (8122, 8123, 1, -74), (8124, 8124, 1, -9), (8136, 8139, 1, -86),
    (8140, 8140, 1, -9), (8152, 8153, 1, -8), (8154, 8155, 1, -100), (8168, 8169, 1, -8),
    (8170, 8171, 1, -112), (8172, 8172, 1, -7), (8184, 8185, 1, -128), (8186, 8187, 1, -126),
    (8188, 8188, 1, -9), (8486, 8486, 1, -7517), (8490, 8490, 1, -8383), (8491, 8491, 1, -8262),
    (8498, 8498, 1, 28), (8544, 8559, 1, 16), (8579, 8579, 1, 1), (9398, 9423, 1, 26),
    (11264, 11311, 1, 48), (11360, 11360, 1, 1), (11362, 11362, 1, -10743),
    (11363, 11363, 1, -3814), (11364, 11364, 1, -10727), (11367, 11371, 2, 1),
    (11373, 11373, 1, -10780), (11374, 11374, 1, -10749), (11375, 11375, 1, -10783),
    (11376, 11376, 1, -10782), (11378, 11378, 1, 1), (11381, 11381, 1, 1),
    (11390, 11391, 1, -10815), (11392, 11490, 2, 1), (11499, 11501, 2, 1), (11506, 11506, 1, 1),
    (42560, 42604, 2, 1), (42624, 42650, 2, 1), (42786, 42798, 2, 1), (42802, 42862, 2, 1),
    (42873, 42875, 2, 1), (42877, 42877, 1, -35332), (42878, 42886, 2, 1), (42891, 42891, 1, 1),
    (42893, 42893, 1, -42280), (42896, 42898, 2, 1), (42902, 42920, 2, 1),
    (42922, 42922, 1, -42308), (42923, 42923, 1, -42319), (42924, 42924, 1, -42315),
    (42925, 42925, 1, -42305), (42926, 42926, 1, -42308), (42928, 42928, 1, -42258),
    (42929, 42929, 1, -42282), (42930, 42930, 1, -42261), (42931, 42931, 1, 928),
    (42932, 42946, 2, 1), (42948, 42948, 1, -48), (42949, 42949, 1, -42307),
    (42950, 42950, 1, -35384), (42951, 42953, 2, 1), (42960, 42960, 1, 1), (42966, 42968, 2, 1),
    (42997, 42997, 1, 1), (65313, 65338, 1, 32), (66560, 66599, 1, 40), (66736, 66771, 1, 40),
    (66928, 66938, 1, 39), (66940, 66954, 1, 39), (66956, 66962, 1, 39), (66964, 66965, 1, 39),
    (68736, 68786, 1, 64), (71840, 71871, 1, 32), (93760, 93791, 1, 32), (125184, 125217, 1, 34)]"

definition rune_to_lower :: "nat \<Rightarrow> nat" where
  "rune_to_lower r =
     (if r < 128 then (if 65 \<le> r \<and> r \<le> 90 then r + 32 else r)
      else case find (\<lambda>(lo, hi, st, d). lo \<le> r \<and> r \<le> hi \<and> (r - lo) mod st = 0) lower_ranges of
             None \<Rightarrow> r
           | Some (lo, hi, st, d) \<Rightarrow> nat (int r + d))"

definition char_to_lower :: "char \<Rightarrow> char" where
  "char_to_lower c = (if 65 \<le> byte c \<and> byte c \<le> 90 then char_of (byte c + 32) else c)"

text \<open>\<open>strings.ToLower\<close>: the ASCII fast path, else \<open>strings.Map(unicode.ToLower, s)\<close>, which
  re-encodes every rune (an invalid byte becomes the replacement rune).\<close>

definition ToLower :: "string \<Rightarrow> string" where
  "ToLower s =
     (if ascii s then map char_to_lower s
      else concat (map (\<lambda>r. encode_rune (rune_to_lower r)) (runes s)))"

text \<open>\<open>strings.EqualFold(s, t)\<close> for an ASCII \<open>t\<close>, the only way the program uses it: the
  runes outside ASCII that fold to an ASCII letter are the long s and the Kelvin sign.\<close>

definition fold_rune :: "nat \<Rightarrow> nat" where
  "fold_rune r = (if r = 383 then 115 else if r = 8490 then 107 else if r < 128 then rune_to_lower r else r)"

definition EqualFold :: "string \<Rightarrow> string \<Rightarrow> bool" where
  "EqualFold s t \<longleftrightarrow> map fold_rune (runes s) = map fold_rune (runes t)"

section \<open>Prefixes and suffixes\<close>

definition HasPrefix :: "string \<Rightarrow> string \<Rightarrow> bool" where
  "HasPrefix s p \<longleftrightarrow> prefix p s"

definition HasSuffix :: "string \<Rightarrow> string \<Rightarrow> bool" where
  "HasSuffix s p \<longleftrightarrow> suffix p s"

definition TrimPrefix :: "string \<Rightarrow> string \<Rightarrow> string" where
  "TrimPrefix s p = (if prefix p s then drop (length p) s else s)"

text \<open>\<open>strings.ReplaceAll(s, old, new)\<close> for a non-empty \<open>old\<close>: left to right, without overlaps.\<close>

fun replace_from :: "nat \<Rightarrow> string \<Rightarrow> string \<Rightarrow> string \<Rightarrow> string" where
  "replace_from skip old new [] = []"
| "replace_from (Suc skip) old new (c # s) = replace_from skip old new s"
| "replace_from 0 old new (c # s) =
     (if prefix old (c # s) then new @ replace_from (length old - 1) old new s
      else c # replace_from 0 old new s)"

definition ReplaceAll :: "string \<Rightarrow> string \<Rightarrow> string \<Rightarrow> string" where
  "ReplaceAll s old new = replace_from 0 old new s"

section \<open>Decimal numbers: \<open>strconv\<close>\<close>

definition is_digit :: "char \<Rightarrow> bool" where
  "is_digit c \<longleftrightarrow> 48 \<le> byte c \<and> byte c \<le> 57"

definition digit_val :: "char \<Rightarrow> nat" where
  "digit_val c = byte c - 48"

definition digits_val :: "string \<Rightarrow> nat" where
  "digits_val s = foldl (\<lambda>n c. 10 * n + digit_val c) 0 s"

text \<open>\<open>strconv.ParseUint(s, 10, 64)\<close>; \<open>None\<close> is the syntax or range error.\<close>

definition ParseUint :: "string \<Rightarrow> uint64 option" where
  "ParseUint s =
     (if s \<noteq> [] \<and> list_all is_digit s \<and> digits_val s < 2 ^ 64
      then Some (word_of_nat (digits_val s)) else None)"

text \<open>\<open>strconv.Atoi(s)\<close> on a 64-bit platform: an optional sign and decimal digits in range.\<close>

definition Atoi :: "string \<Rightarrow> int option" where
  "Atoi s =
     (let (neg, ds) = (case s of [] \<Rightarrow> (False, [])
                       | c # cs \<Rightarrow> if c = CHR ''-'' then (True, cs)
                                  else if c = CHR ''+'' then (False, cs) else (False, s));
          n = int (digits_val ds); v = (if neg then - n else n)
      in if ds \<noteq> [] \<and> list_all is_digit ds \<and> - (2 ^ 63) \<le> v \<and> v < 2 ^ 63 then Some v else None)"

lemma Atoi_range: "Atoi s = Some v \<Longrightarrow> - (2 ^ 63) \<le> v \<and> v < 2 ^ 63"
  by (auto simp: Atoi_def Let_def split: if_splits prod.splits)

fun nat_to_digits :: "nat \<Rightarrow> string" where
  "nat_to_digits n = (if n < 10 then [char_of (48 + n)]
     else nat_to_digits (n div 10) @ [char_of (48 + n mod 10)])"

declare nat_to_digits.simps [simp del]

text \<open>\<open>strconv.Itoa\<close>\<close>

definition Itoa :: "int \<Rightarrow> string" where
  "Itoa i = (if i < 0 then ''-'' @ nat_to_digits (nat (- i)) else nat_to_digits (nat i))"

lemma digits_val_snoc: "digits_val (s @ [c]) = 10 * digits_val s + digit_val c"
  by (simp add: digits_val_def)

lemma nat_to_digits_props:
  "nat_to_digits n \<noteq> [] \<and> list_all is_digit (nat_to_digits n) \<and> digits_val (nat_to_digits n) = n"
proof (induction n rule: nat_to_digits.induct)
  case (1 n)
  show ?case
  proof (cases "n < 10")
    case True
    then show ?thesis
      by (simp add: nat_to_digits.simps [of n] is_digit_def digits_val_def digit_val_def of_char_of)
  next
    case False
    with "1.IH" [OF False] show ?thesis
      by (simp add: nat_to_digits.simps [of n] digits_val_snoc is_digit_def digit_val_def of_char_of)
  qed
qed

lemma ParseUint_digits: "n < 2 ^ 64 \<Longrightarrow> ParseUint (nat_to_digits n) = Some (word_of_nat n)"
  using nat_to_digits_props [of n] by (simp add: ParseUint_def)

section \<open>Hexadecimal: \<open>hex.EncodeToString\<close>\<close>

definition hex_digit :: "nat \<Rightarrow> char" where
  "hex_digit n = (if n < 10 then char_of (48 + n) else char_of (87 + n))"

definition EncodeToString :: "string \<Rightarrow> string" where
  "EncodeToString s = concat (map (\<lambda>c. [hex_digit (byte c div 16), hex_digit (byte c mod 16)]) s)"

lemma length_EncodeToString [simp]: "length (EncodeToString s) = 2 * length s"
  by (induction s) (auto simp: EncodeToString_def)

lemma byte_less: "byte c < 256"
  by (rule nat_of_char_less_256)

lemma hex_digit_inj: "m < 16 \<Longrightarrow> n < 16 \<Longrightarrow> hex_digit m = hex_digit n \<Longrightarrow> m = n"
proof -
  assume a: "m < 16" "n < 16" "hex_digit m = hex_digit n"
  have "byte (hex_digit k) = (if k < 10 then 48 + k else 87 + k)" if "k < 16" for k
    using that by (simp add: hex_digit_def of_char_of)
  then have "(if m < 10 then 48 + m else 87 + m) = (if n < 10 then 48 + n else 87 + n)"
    using a by metis
  then show "m = n" by (simp split: if_splits)
qed

lemma EncodeToString_inj: "EncodeToString s = EncodeToString t \<Longrightarrow> s = t"
proof (induction s arbitrary: t)
  case Nil
  then show ?case by (cases t) (auto simp: EncodeToString_def)
next
  case (Cons c s)
  then obtain d t' where t: "t = d # t'"
    by (cases t) (auto simp: EncodeToString_def)
  have "byte c div 16 = byte d div 16" "byte c mod 16 = byte d mod 16"
    using Cons.prems t hex_digit_inj [of "byte c div 16" "byte d div 16"]
      hex_digit_inj [of "byte c mod 16" "byte d mod 16"] byte_less [of c] byte_less [of d]
    by (auto simp: EncodeToString_def less_mult_imp_div_less)
  then have "byte c = byte d" by (metis div_mult_mod_eq)
  moreover have "s = t'"
    using Cons t by (auto simp: EncodeToString_def)
  ultimately show ?case using t by simp
qed

section \<open>Computing on ASCII\<close>

lemma ToLower_ascii: "ascii s \<Longrightarrow> ToLower s = map char_to_lower s"
  by (simp add: ToLower_def)

lemma EqualFold_ascii: "ascii s \<Longrightarrow> ascii t \<Longrightarrow>
    EqualFold s t \<longleftrightarrow> map (fold_rune \<circ> byte) s = map (fold_rune \<circ> byte) t"
  by (simp add: EqualFold_def runes_ascii)

end
