(* ===== verification/Go_Float.thy ===== *)
theory Go_Float
  imports Go_Unicode
begin

text \<open>
  \<open>float64\<close> as the program meets it: the numbers of a product's \<open>attributes\<close> are decoded
  by \<open>encoding/json\<close> with \<open>strconv.ParseFloat\<close> (correct rounding to nearest, ties to even,
  a range error on overflow) and encoded again with the shortest decimal that reads back
  as the same number.

  A finite number is \<open>Fin neg m e\<close> with value \<open>\<plusminus> m * 2 ^ e\<close>; the parser yields the canonical
  form with \<open>m < 2 ^ 53\<close> and \<open>-1074 \<le> e \<le> 971\<close>, and \<open>2 ^ 52 \<le> m\<close> unless \<open>e = -1074\<close>.
\<close>

datatype float64 = Fin bool nat int | Inf bool | NaN

fun bit_len :: "nat \<Rightarrow> nat" where
  "bit_len n = (if n = 0 then 0 else Suc (bit_len (n div 2)))"

declare bit_len.simps [simp del]

text \<open>Numerator and denominator scaled by powers of two or ten.\<close>

definition scale :: "nat \<Rightarrow> int \<Rightarrow> nat \<times> nat \<Rightarrow> nat \<times> nat" where
  "scale b k q = (if 0 \<le> k then (fst q * b ^ nat k, snd q) else (fst q, snd q * b ^ nat (- k)))"

text \<open>The largest \<open>k\<close> with \<open>2 ^ k \<le> num / den\<close>, for positive \<open>num\<close> and \<open>den\<close>.\<close>

definition floor_log2 :: "nat \<times> nat \<Rightarrow> int" where
  "floor_log2 q =
     (let k = int (bit_len (fst q)) - int (bit_len (snd q)); (a, b) = scale 2 (- k) q
      in if b \<le> a then k else k - 1)"

text \<open>Round a positive rational to the nearest \<open>float64\<close>, ties to even; \<open>None\<close> on overflow.\<close>

definition round_float :: "bool \<Rightarrow> nat \<times> nat \<Rightarrow> float64 option" where
  "round_float neg q =
     (if fst q = 0 then Some (Fin neg 0 (-1074))
      else let e = max (-1074) (floor_log2 q - 52);
               (a, b) = scale 2 (- e) q;
               m = a div b; r = a mod b;
               m' = (if b < 2 * r \<or> (2 * r = b \<and> odd m) then m + 1 else m);
               (m'', e') = (if m' = 2 ^ 53 then (2 ^ 52, e + 1) else (m', e))
           in if 971 < e' then None else Some (Fin neg m'' e'))"

section \<open>Parsing\<close>

text \<open>The parts of a decimal literal: digits before and after the point and the exponent.\<close>

definition decimal_value :: "string \<Rightarrow> string \<Rightarrow> int \<Rightarrow> nat \<times> nat" where
  "decimal_value ip fp ex = scale 10 (ex - int (length fp)) (digits_val (ip @ fp), 1)"

text \<open>\<open>strconv.ParseFloat\<close> on a literal that the JSON grammar admits.\<close>

definition exponent_value :: "string \<Rightarrow> int" where
  "exponent_value s =
     (case s of [] \<Rightarrow> 0
      | c # cs \<Rightarrow> if c = CHR ''-'' then - int (digits_val cs)
                 else if c = CHR ''+'' then int (digits_val cs) else int (digits_val s))"

definition ParseFloat :: "string \<Rightarrow> float64 option" where
  "ParseFloat s =
     (let neg = prefix ''-'' s; s1 = (if neg then tl s else s);
          ip = takeWhile is_digit s1; s2 = dropWhile is_digit s1;
          fp = (if prefix ''.'' s2 then takeWhile is_digit (tl s2) else []);
          s3 = (if prefix ''.'' s2 then dropWhile is_digit (tl s2) else s2);
          ex = (if prefix ''e'' s3 \<or> prefix ''E'' s3 then exponent_value (tl s3) else 0)
      in round_float neg (decimal_value ip fp ex))"

section \<open>Formatting\<close>

text \<open>The exact value of a finite number as a fraction.\<close>

definition frac_of :: "nat \<Rightarrow> int \<Rightarrow> nat \<times> nat" where
  "frac_of m e = scale 2 e (m, 1)"

text \<open>The decimal exponent: the \<open>p\<close> with \<open>10 ^ (p - 1) \<le> num / den < 10 ^ p\<close>, found from a
  start that is at most the answer.\<close>

fun dec_exp_from :: "nat \<Rightarrow> int \<Rightarrow> nat \<times> nat \<Rightarrow> int" where
  "dec_exp_from 0 p q = p"
| "dec_exp_from (Suc n) p q =
     (let (a, b) = scale 10 (- p) q in if a < b then p else dec_exp_from n (p + 1) q)"

definition dec_exp :: "nat \<times> nat \<Rightarrow> int" where
  "dec_exp q = dec_exp_from 700 (-330) q"

text \<open>The \<open>n\<close>-digit decimal next to \<open>q\<close> that reads back as the same number, if there is one:
  of the two neighbours the closer one, ties to even.\<close>

definition try_digits :: "bool \<Rightarrow> nat \<Rightarrow> int \<Rightarrow> nat \<times> nat \<Rightarrow> int \<Rightarrow> nat \<Rightarrow> nat option" where
  "try_digits neg m e q p n =
     (let (a, b) = scale 10 (int n - p) q; d = a div b; r = a mod b;
          ok = (\<lambda>d. round_float neg (scale 10 (p - int n) (d, 1)) = Some (Fin neg m e));
          up = (b < 2 * r \<or> (2 * r = b \<and> odd d));
          first = (if up then d + 1 else d); second = (if up then d else d + 1)
      in if ok first then Some first else if ok second then Some second else None)"

text \<open>The fewest digits that read back; 17 always do, so the search ends there.\<close>

fun shortest_from :: "nat \<Rightarrow> bool \<Rightarrow> nat \<Rightarrow> int \<Rightarrow> nat \<times> nat \<Rightarrow> int \<Rightarrow> nat \<Rightarrow> nat \<times> nat" where
  "shortest_from 0 neg m e q p n = (fst (scale 10 (int n - p) q) div snd (scale 10 (int n - p) q), n)"
| "shortest_from (Suc k) neg m e q p n =
     (case try_digits neg m e q p n of Some d \<Rightarrow> (d, n) | None \<Rightarrow> shortest_from k neg m e q p (n + 1))"

definition strip_zeros :: "string \<Rightarrow> string" where
  "strip_zeros s = rev (dropWhile (\<lambda>c. c = CHR ''0'') (rev s))"

text \<open>Digits without trailing zeros and the position of the decimal point before them.\<close>

definition shortest_decimal :: "bool \<Rightarrow> nat \<Rightarrow> int \<Rightarrow> string \<times> int" where
  "shortest_decimal neg m e =
     (if m = 0 then ([], 0)
      else let q = frac_of m e; p = dec_exp q; (d, n) = shortest_from 17 neg m e q p 1;
               ds = nat_to_digits d
           in (strip_zeros ds, p + int (length ds) - int n))"

definition format_e :: "string \<Rightarrow> int \<Rightarrow> string" where
  "format_e ds p =
     take 1 ds @ (if length ds > 1 then ''.'' @ drop 1 ds else [])
     @ ''e'' @ (if p - 1 < 0 then ''-'' else ''+'') @ nat_to_digits (nat \<bar>p - 1\<bar>)"

definition format_f :: "string \<Rightarrow> int \<Rightarrow> string" where
  "format_f ds p =
     (if 0 < p then take (nat p) ds @ replicate (nat p - length ds) CHR ''0'' else ''0'')
     @ (if p < int (length ds)
        then ''.'' @ replicate (nat (- p)) CHR ''0'' @ drop (nat p) ds else [])"

text \<open>The encoder of \<open>encoding/json\<close> for \<open>float64\<close>: \<open>'f'\<close> format, but \<open>'e'\<close> format (with the
  exponent's leading zero removed) below the number \<open>1e-6\<close> reads as and from \<open>1e21\<close> on.\<close>

definition less_frac :: "nat \<times> nat \<Rightarrow> nat \<times> nat \<Rightarrow> bool" where
  "less_frac q r \<longleftrightarrow> fst q * snd r < fst r * snd q"

definition format_float :: "float64 \<Rightarrow> string option" where
  "format_float f =
     (case f of
        Fin neg m e \<Rightarrow>
          (let (ds, p) = shortest_decimal neg m e; q = frac_of m e;
               sci = (m \<noteq> 0 \<and> (less_frac q (frac_of 4722366482869645 (-72)) \<or> \<not> less_frac q (10 ^ 21, 1)))
           in Some ((if neg then ''-'' else []) @ (if sci then format_e ds p else format_f ds p)))
      | _ \<Rightarrow> None)"

end
