(* ===== verification/Go_Json.thy ===== *)
theory Go_Json
  imports Go_Float
begin

text \<open>
  \<open>encoding/json\<close> as the program uses it.
  \<^item> Reading: the grammar of the package's scanner, byte by byte, with the scanner's error
    texts (they reach clients as \<open>message\<close>), the nesting limit, and the unquoting of
    strings (escapes, surrogates, replacement of invalid UTF-8). \<open>unmarshal_doc\<close> is the
    whole-input discipline of \<open>json.Unmarshal\<close>, \<open>decode_doc\<close> the first-value discipline of
    \<open>Decoder.Decode\<close>.
  \<^item> A parsed document is a \<open>json\<close> value. A \<open>json.RawMessage\<close> is represented by the value
    its bytes denote: it has passed the scanner as part of the enclosing document.
  \<^item> Writing: \<open>marshal\<close>, with map keys in order and the HTML-safe string escapes.
\<close>

datatype json =
  JNull | JBool bool | JNum string | JStr string | JArr "json list" | JObj "(string \<times> json) list"

section \<open>Errors of the scanner\<close>

datatype json_err = EndOfInput | BadChar char string | OutOfFuel

type_synonym 'a pres = "json_err + ('a \<times> string)"

definition latin1_print :: "nat \<Rightarrow> bool" where
  "latin1_print b \<longleftrightarrow> 32 \<le> b \<and> b < 127 \<or> 161 \<le> b \<and> b \<noteq> 173"

definition quoteChar :: "char \<Rightarrow> string" where
  "quoteChar c =
     (let b = byte c; q = (\<lambda>s. [CHR 0x27] @ s @ [CHR 0x27]) in
      if b = 39 then q [CHR 0x5C, CHR 0x27]
      else if b = 34 then q [CHR 0x22]
      else if b = 92 then q [CHR 0x5C, CHR 0x5C]
      else if latin1_print b then q (encode_rune b)
      else if b = 7 then q (CHR 0x5C # ''a'') else if b = 8 then q (CHR 0x5C # ''b'')
      else if b = 9 then q (CHR 0x5C # ''t'') else if b = 10 then q (CHR 0x5C # ''n'')
      else if b = 11 then q (CHR 0x5C # ''v'') else if b = 12 then q (CHR 0x5C # ''f'')
      else if b = 13 then q (CHR 0x5C # ''r'')
      else if b < 128 then q (CHR 0x5C # ''x'' @ EncodeToString [c])
      else q (CHR 0x5C # ''u00'' @ EncodeToString [c]))"

fun err_text :: "string \<Rightarrow> json_err \<Rightarrow> go_error" where
  "err_text eof EndOfInput = eof"
| "err_text eof (BadChar c ctx) = ''invalid character '' @ quoteChar c @ '' '' @ ctx"
| "err_text eof OutOfFuel = ''''"

section \<open>Tokens\<close>

definition json_space :: "char \<Rightarrow> bool" where
  "json_space c \<longleftrightarrow> c = CHR 0x20 \<or> c = CHR 0x09 \<or> c = CHR 0x0D \<or> c = CHR 0x0A"

definition skip_ws :: "string \<Rightarrow> string" where
  "skip_ws s = dropWhile json_space s"

fun scan_lit :: "string \<Rightarrow> string \<Rightarrow> string \<Rightarrow> json_err + string" where
  "scan_lit nm [] s = Inr s"
| "scan_lit nm (e # es) [] = Inl EndOfInput"
| "scan_lit nm (e # es) (c # s) =
     (if c = e then scan_lit nm es s
      else Inl (BadChar c (''in literal '' @ nm @ '' (expecting '' @ [CHR 0x27, e, CHR 0x27] @ '')'')))"

definition is_hex :: "char \<Rightarrow> bool" where
  "is_hex c \<longleftrightarrow> is_digit c \<or> 97 \<le> byte c \<and> byte c \<le> 102 \<or> 65 \<le> byte c \<and> byte c \<le> 70"

definition hex_val :: "char \<Rightarrow> nat" where
  "hex_val c = (if is_digit c then byte c - 48 else if 97 \<le> byte c then byte c - 87 else byte c - 55)"

text \<open>The raw text of a string literal, up to its closing quote. \<open>k\<close> counts the hexadecimal
  digits still due after a \<open>\u\<close>.\<close>

datatype str_state = SPlain | SEsc | SHex nat

fun scan_str :: "str_state \<Rightarrow> string \<Rightarrow> string pres" where
  "scan_str st [] = Inl EndOfInput"
| "scan_str SPlain (c # s) =
     (if c = CHR 0x22 then Inr ([], s)
      else if byte c < 32 then Inl (BadChar c ''in string literal'')
      else map_sum id (apfst ((#) c)) (scan_str (if c = CHR 0x5C then SEsc else SPlain) s))"
| "scan_str SEsc (c # s) =
     (if c = CHR ''u'' then map_sum id (apfst ((#) c)) (scan_str (SHex 4) s)
      else if c \<in> {CHR ''b'', CHR ''f'', CHR ''n'', CHR ''r'', CHR ''t'', CHR 0x5C, CHR ''/'', CHR 0x22}
        then map_sum id (apfst ((#) c)) (scan_str SPlain s)
      else Inl (BadChar c ''in string escape code''))"
| "scan_str (SHex k) (c # s) =
     (if is_hex c then map_sum id (apfst ((#) c)) (scan_str (if k \<le> 1 then SPlain else SHex (k - 1)) s)
      else Inl (BadChar c (''in '' @ CHR 0x5C # ''u hexadecimal character escape'')))"

definition getu4 :: "string \<Rightarrow> nat" where
  "getu4 s = foldl (\<lambda>n c. 16 * n + hex_val c) 0 (take 4 s)"

definition simple_escape :: "char \<Rightarrow> char" where
  "simple_escape c =
     (if c = CHR ''b'' then CHR 0x08 else if c = CHR ''f'' then CHR 0x0C
      else if c = CHR ''n'' then CHR 0x0A else if c = CHR ''r'' then CHR 0x0D
      else if c = CHR ''t'' then CHR 0x09 else c)"

text \<open>\<open>unquote\<close>: from raw literal text to the bytes of the Go string.\<close>

definition surrogate_pair :: "nat \<Rightarrow> string \<Rightarrow> bool" where
  "surrogate_pair r s \<longleftrightarrow> 55296 \<le> r \<and> r < 56320 \<and> prefix (CHR 0x5C # ''u'') s \<and>
     56320 \<le> getu4 (drop 2 s) \<and> getu4 (drop 2 s) < 57344"

function unquote :: "string \<Rightarrow> string" where
  "unquote [] = []"
| "unquote (c # s) =
     (if c = CHR 0x5C then
        (case s of
           [] \<Rightarrow> []
         | e # s' \<Rightarrow>
             if e = CHR ''u'' then
               (let r = getu4 s'; t = drop 4 s' in
                if surrogate_pair r t then
                  encode_rune ((r - 55296) * 1024 + (getu4 (drop 2 t) - 56320) + 65536)
                  @ unquote (drop 6 t)
                else encode_rune r @ unquote t)
             else simple_escape e # unquote s')
      else let (r, w) = decode_rune (c # s) in encode_rune r @ unquote (drop w (c # s)))"
  by pat_completeness auto
termination
proof (relation "measure length", goal_cases)
  case (5 c s x r w)
  then have "0 < w" using decode_rune_width_pos [of "c # s"] by (metis list.distinct(1) snd_conv)
  then show ?case by (simp add: diff_less)
qed auto

declare unquote.simps [simp del]

text \<open>Number literals: the longest prefix the scanner's states accept.\<close>

definition scan_digits :: "string \<Rightarrow> string \<times> string" where
  "scan_digits s = (takeWhile is_digit s, dropWhile is_digit s)"

definition scan_exp :: "string \<Rightarrow> string pres" where
  "scan_exp s =
     (case s of
        c # s' \<Rightarrow>
          if c = CHR ''e'' \<or> c = CHR ''E'' then
            (let (sg, t) = (case s' of d # t' \<Rightarrow> if d = CHR ''+'' \<or> d = CHR ''-'' then ([d], t') else ([], s')
                            | [] \<Rightarrow> ([], s'))
             in case t of
                  [] \<Rightarrow> Inl EndOfInput
                | d # _ \<Rightarrow> if is_digit d then Inr (c # sg @ fst (scan_digits t), snd (scan_digits t))
                          else Inl (BadChar d ''in exponent of numeric literal''))
          else Inr ([], s)
      | [] \<Rightarrow> Inr ([], s))"

definition scan_frac :: "string \<Rightarrow> string pres" where
  "scan_frac s =
     (case s of
        c # t \<Rightarrow>
          if c = CHR ''.'' then
            (case t of
               [] \<Rightarrow> Inl EndOfInput
             | d # _ \<Rightarrow>
                 if is_digit d then
                   map_sum id (apfst (\<lambda>x. c # fst (scan_digits t) @ x)) (scan_exp (snd (scan_digits t)))
                 else Inl (BadChar d ''after decimal point in numeric literal''))
          else scan_exp s
      | [] \<Rightarrow> scan_exp s)"

definition scan_int :: "string \<Rightarrow> string pres" where
  "scan_int s =
     (case s of
        [] \<Rightarrow> Inl EndOfInput
      | c # t \<Rightarrow>
          if c = CHR ''0'' then map_sum id (apfst ((#) c)) (scan_frac t)
          else if is_digit c then
            map_sum id (apfst (\<lambda>x. fst (scan_digits s) @ x)) (scan_frac (snd (scan_digits s)))
          else Inl (BadChar c ''in numeric literal''))"

definition scan_num :: "string \<Rightarrow> string pres" where
  "scan_num s =
     (case s of
        c # t \<Rightarrow> if c = CHR ''-'' then map_sum id (apfst ((#) c)) (scan_int t) else scan_int s
      | [] \<Rightarrow> Inl EndOfInput)"

section \<open>Documents\<close>

definition max_depth :: nat where
  "max_depth = 10000"

definition scan_lit_value :: "string \<Rightarrow> json \<Rightarrow> string \<Rightarrow> json pres" where
  "scan_lit_value nm v s = map_sum id (\<lambda>r. (v, r)) (scan_lit nm (tl nm) s)"

text \<open>A value that starts with \<open>c\<close> and is neither an object nor an array.\<close>

definition parse_scalar :: "char \<Rightarrow> string \<Rightarrow> json pres" where
  "parse_scalar c cs =
     (if c = CHR 0x22 then map_sum id (apfst (\<lambda>r. JStr (unquote r))) (scan_str SPlain cs)
      else if c = CHR ''t'' then scan_lit_value ''true'' (JBool True) cs
      else if c = CHR ''f'' then scan_lit_value ''false'' (JBool False) cs
      else if c = CHR ''n'' then scan_lit_value ''null'' JNull cs
      else if c = CHR ''-'' \<or> is_digit c then map_sum id (apfst JNum) (scan_num (c # cs))
      else Inl (BadChar c ''looking for beginning of value''))"

fun parse_value :: "nat \<Rightarrow> nat \<Rightarrow> string \<Rightarrow> json pres"
  and parse_elems :: "nat \<Rightarrow> nat \<Rightarrow> string \<Rightarrow> json list pres"
  and parse_members :: "nat \<Rightarrow> nat \<Rightarrow> string \<Rightarrow> (string \<times> json) list pres" where
  "parse_value 0 d s = Inl OutOfFuel"
| "parse_value (Suc n) d s =
     (case skip_ws s of
        [] \<Rightarrow> Inl EndOfInput
      | c # cs \<Rightarrow>
          if c = CHR ''{'' then
            (if max_depth \<le> d then Inl (BadChar c ''exceeded max depth'')
             else case skip_ws cs of
               [] \<Rightarrow> Inl EndOfInput
             | c' # cs' \<Rightarrow> if c' = CHR ''}'' then Inr (JObj [], cs')
                          else map_sum id (apfst JObj) (parse_members n (Suc d) (c' # cs')))
          else if c = CHR ''['' then
            (if max_depth \<le> d then Inl (BadChar c ''exceeded max depth'')
             else case skip_ws cs of
               [] \<Rightarrow> Inl EndOfInput
             | c' # cs' \<Rightarrow> if c' = CHR '']'' then Inr (JArr [], cs')
                          else map_sum id (apfst JArr) (parse_elems n (Suc d) (c' # cs')))
          else parse_scalar c cs)"
| "parse_elems 0 d s = Inl OutOfFuel"
| "parse_elems (Suc n) d s =
     (case parse_value n d s of
        Inl e \<Rightarrow> Inl e
      | Inr (v, r) \<Rightarrow>
          (case skip_ws r of
             [] \<Rightarrow> Inl EndOfInput
           | c # cs \<Rightarrow>
               if c = CHR '','' then map_sum id (apfst ((#) v)) (parse_elems n d cs)
               else if c = CHR '']'' then Inr ([v], cs)
               else Inl (BadChar c ''after array element'')))"
| "parse_members 0 d s = Inl OutOfFuel"
| "parse_members (Suc n) d s =
     (case skip_ws s of
        [] \<Rightarrow> Inl EndOfInput
      | c # cs \<Rightarrow>
          if c \<noteq> CHR 0x22 then Inl (BadChar c ''looking for beginning of object key string'')
          else case scan_str SPlain cs of
            Inl e \<Rightarrow> Inl e
          | Inr (k, r) \<Rightarrow>
              (case skip_ws r of
                 [] \<Rightarrow> Inl EndOfInput
               | c1 # r1 \<Rightarrow>
                   if c1 \<noteq> CHR '':'' then Inl (BadChar c1 ''after object key'')
                   else case parse_value n d r1 of
                     Inl e \<Rightarrow> Inl e
                   | Inr (v, r2) \<Rightarrow>
                       (case skip_ws r2 of
                          [] \<Rightarrow> Inl EndOfInput
                        | c3 # r3 \<Rightarrow>
                            if c3 = CHR '','' then
                              map_sum id (apfst ((#) (unquote k, v))) (parse_members n d r3)
                            else if c3 = CHR ''}'' then Inr ([(unquote k, v)], r3)
                            else Inl (BadChar c3 ''after object key:value pair''))))"

text \<open>Each nesting or element spends fuel, and each consumes input: twice the length is
  enough (lemma \<open>parse_value_fuel\<close> below).\<close>

definition parse_doc :: "string \<Rightarrow> json pres" where
  "parse_doc s = parse_value (2 * length s + 1) 0 s"

text \<open>\<open>checkValid\<close> and \<open>Unmarshal\<close>: the whole input is one value between white space. The
  scanner treats the end of the input as one more space.\<close>

definition unmarshal_doc :: "string \<Rightarrow> json res" where
  "unmarshal_doc s =
     (case parse_doc (s @ '' '') of
        Inl e \<Rightarrow> Inl (err_text ''unexpected end of JSON input'' e)
      | Inr (v, r) \<Rightarrow>
          (case skip_ws r of
             [] \<Rightarrow> Inr v
           | c # _ \<Rightarrow> Inl (err_text '''' (BadChar c ''after top-level value''))))"

text \<open>\<open>Decoder.Decode\<close>: the first value of the input; what follows it is not looked at.\<close>

definition decode_doc :: "string \<Rightarrow> json res" where
  "decode_doc s =
     (case parse_doc s of
        Inl e \<Rightarrow> Inl (err_text (if skip_ws s = [] then ''EOF'' else ''unexpected EOF'') e)
      | Inr (v, _) \<Rightarrow> Inr v)"

text \<open>The name of a value's kind in an \<open>UnmarshalTypeError\<close>.\<close>

fun kind_name :: "json \<Rightarrow> string" where
  "kind_name JNull = ''null''"
| "kind_name (JBool _) = ''bool''"
| "kind_name (JNum _) = ''number''"
| "kind_name (JStr _) = ''string''"
| "kind_name (JArr _) = ''array''"
| "kind_name (JObj _) = ''object''"

definition type_error :: "json \<Rightarrow> string \<Rightarrow> go_error" where
  "type_error v ty = ''json: cannot unmarshal '' @ kind_name v @ '' into Go value of type '' @ ty"

section \<open>The parser consumes input and never runs out of fuel\<close>

lemma length_skip_ws: "length (skip_ws s) \<le> length s"
  by (simp add: skip_ws_def length_dropWhile_le)

lemma skip_ws_Cons_length: "skip_ws s = c # cs \<Longrightarrow> length cs < length s"
  using length_skip_ws [of s] by simp

lemma scan_lit_length: "scan_lit nm es s = Inr r \<Longrightarrow> length r \<le> length s"
  by (induction nm es s rule: scan_lit.induct) (auto split: if_splits)

lemma map_sum_Inr_iff: "map_sum id f x = Inr y \<longleftrightarrow> (\<exists>z. x = Inr z \<and> y = f z)"
  by (cases x) auto

lemma map_sum_Inl_iff: "map_sum id f x = Inl e \<longleftrightarrow> x = Inl e"
  by (cases x) auto

lemma scan_str_length: "scan_str st s = Inr (k, r) \<Longrightarrow> length r < length s"
proof (induction st s arbitrary: k rule: scan_str.induct)
  case (2 c s)
  then show ?case
    by (cases "c = CHR 0x5C") (fastforce simp: map_sum_Inr_iff less_Suc_eq split: if_splits)+
next
  case (3 c s)
  then show ?case
    by (fastforce simp: map_sum_Inr_iff less_Suc_eq split: if_splits)
next
  case (4 j c s)
  then show ?case
    by (cases "j \<le> 1") (fastforce simp: map_sum_Inr_iff less_Suc_eq split: if_splits)+
qed auto

lemma length_snd_scan_digits: "length (snd (scan_digits s)) \<le> length s"
  by (simp add: scan_digits_def length_dropWhile_le)

lemma scan_exp_length: "scan_exp s = Inr (k, r) \<Longrightarrow> length r \<le> length s"
  by (auto simp: scan_exp_def Let_def scan_digits_def split: list.splits if_splits prod.splits
      intro: le_trans [OF length_dropWhile_le] le_SucI)

lemma scan_frac_length: "scan_frac s = Inr (k, r) \<Longrightarrow> length r \<le> length s"
proof (cases s)
  case (Cons c t)
  assume a: "scan_frac s = Inr (k, r)"
  show ?thesis
  proof (cases "c = CHR ''.''")
    case True
    with a Cons obtain k' where "scan_exp (snd (scan_digits t)) = Inr (k', r)"
      by (auto simp: scan_frac_def map_sum_Inr_iff split: list.splits if_splits)
    then show ?thesis
      using scan_exp_length [of "snd (scan_digits t)"] length_snd_scan_digits [of t] Cons by fastforce
  next
    case False
    with a Cons show ?thesis
      using scan_exp_length [of s] by (auto simp: scan_frac_def)
  qed
qed (auto simp: scan_frac_def scan_exp_def)

lemma scan_int_length: "scan_int s = Inr (k, r) \<Longrightarrow> length r < length s"
proof (cases s)
  case (Cons c t)
  assume a: "scan_int s = Inr (k, r)"
  then have d: "is_digit c" and rec: "\<exists>k' u. scan_frac u = Inr (k', r) \<and> length u \<le> length t"
    using Cons length_dropWhile_le [of is_digit t]
    by (auto simp: scan_int_def map_sum_Inr_iff is_digit_def scan_digits_def split: if_splits)
  from rec show ?thesis
    using scan_frac_length Cons by fastforce
qed (simp add: scan_int_def)

lemma scan_num_length: "scan_num s = Inr (k, r) \<Longrightarrow> length r < length s"
  by (cases s) (auto simp: scan_num_def map_sum_Inr_iff dest!: scan_int_length split: if_splits)

lemma scan_lit_value_length: "scan_lit_value nm v s = Inr (x, r) \<Longrightarrow> length r \<le> length s"
  by (auto simp: scan_lit_value_def map_sum_Inr_iff dest: scan_lit_length)

lemma parse_scalar_length: "parse_scalar c cs = Inr (v, r) \<Longrightarrow> length r \<le> length cs"
  unfolding parse_scalar_def
  by (auto simp: map_sum_Inr_iff less_Suc_eq_le less_imp_le split: if_splits
      dest: scan_str_length scan_lit_value_length scan_num_length)

lemma parse_consumes:
  "parse_value n d s = Inr (v, r) \<Longrightarrow> length r < length s"
  "parse_elems n d s = Inr (vs, r) \<Longrightarrow> length r < length s"
  "parse_members n d s = Inr (ms, r) \<Longrightarrow> length r < length s"
proof (induction n d s and n d s and n d s arbitrary: v r and vs r and ms r
    rule: parse_value_parse_elems_parse_members.induct)
  case (2 n d s)
  obtain c cs where s: "skip_ws s = c # cs"
    using "2.prems" by (auto split: list.splits)
  note len = skip_ws_Cons_length [OF s]
  show ?case
  proof (cases "c = CHR ''{'' \<or> c = CHR ''[''")
    case True
    then obtain c' cs' where c': "skip_ws cs = c' # cs'"
      using "2.prems" s by (auto split: list.splits if_splits)
    have "length r \<le> length cs"
      using "2.prems" s c' True skip_ws_Cons_length [OF c'] length_skip_ws [of cs]
        "2.IH"(1) [OF s _ _ c'] "2.IH"(2) [OF s _ _ _ c']
      by (auto simp: map_sum_Inr_iff split: if_splits)
    with len show ?thesis by simp
  next
    case False
    then have "length r \<le> length cs"
      using "2.prems" s parse_scalar_length by simp
    with len show ?thesis by simp
  qed
next
  case (4 n d s)
  then obtain v' r' where v: "parse_value n d s = Inr (v', r')"
    by (auto split: sum.splits)
  with 4 obtain c cs where "skip_ws r' = c # cs"
    by (auto split: list.splits)
  with 4 v "4.IH"(1) [OF v] skip_ws_Cons_length [of r' c cs] show ?case
    by (fastforce simp: map_sum_Inr_iff split: if_splits)
next
  case (6 n d s)
  then obtain cs where s: "skip_ws s = CHR 0x22 # cs"
    by (auto split: list.splits if_splits)
  then obtain k r0 where k: "scan_str SPlain cs = Inr (k, r0)"
    using 6 by (auto split: sum.splits)
  then obtain r1 where r1: "skip_ws r0 = CHR '':'' # r1"
    using 6 s by (auto split: list.splits if_splits)
  then obtain v r2 where v: "parse_value n d r1 = Inr (v, r2)"
    using 6 s k by (auto split: sum.splits)
  then obtain c3 r3 where r3: "skip_ws r2 = c3 # r3"
    using 6 s k r1 by (auto split: list.splits)
  have "length r3 < length s"
    using skip_ws_Cons_length [OF s] scan_str_length [OF k] skip_ws_Cons_length [OF r1]
      "6.IH"(1) [OF s _ k _ r1 _ v] skip_ws_Cons_length [OF r3] by simp
  moreover have "length r \<le> length r3"
    using 6 s k r1 v r3 "6.IH"(2) [OF s _ k _ r1 _ v _ r3]
    by (auto simp: map_sum_Inr_iff less_imp_le split: if_splits)
  ultimately show ?case by simp
qed auto

lemma scan_no_fuel:
  "scan_str st s \<noteq> Inl OutOfFuel" "scan_lit nm es s \<noteq> Inl OutOfFuel"
  "scan_exp s \<noteq> Inl OutOfFuel" "scan_frac s \<noteq> Inl OutOfFuel" "scan_int s \<noteq> Inl OutOfFuel"
  "scan_num s \<noteq> Inl OutOfFuel"
proof -
  show "scan_str st s \<noteq> Inl OutOfFuel"
    by (induction st s rule: scan_str.induct) (auto simp: map_sum_Inl_iff)
  show "scan_lit nm es s \<noteq> Inl OutOfFuel"
    by (induction nm es s rule: scan_lit.induct) auto
  show e: "scan_exp s \<noteq> Inl OutOfFuel" for s
    by (auto simp: scan_exp_def Let_def split: list.splits prod.splits)
  show f: "scan_frac s \<noteq> Inl OutOfFuel" for s
    by (auto simp: scan_frac_def map_sum_Inl_iff e split: list.splits)
  show i: "scan_int s \<noteq> Inl OutOfFuel" for s
    by (auto simp: scan_int_def map_sum_Inl_iff f split: list.splits)
  show "scan_num s \<noteq> Inl OutOfFuel"
    by (auto simp: scan_num_def map_sum_Inl_iff i split: list.splits)
qed

lemma parse_scalar_no_fuel: "parse_scalar c cs \<noteq> Inl OutOfFuel"
  by (simp add: parse_scalar_def scan_lit_value_def map_sum_Inl_iff scan_no_fuel)

lemma parse_fuel:
  "2 * length s < n \<Longrightarrow> parse_value n d s \<noteq> Inl OutOfFuel"
  "2 * length s + 1 < n \<Longrightarrow> parse_elems n d s \<noteq> Inl OutOfFuel"
  "2 * length s + 1 < n \<Longrightarrow> parse_members n d s \<noteq> Inl OutOfFuel"
proof (induction n d s and n d s and n d s rule: parse_value_parse_elems_parse_members.induct)
  case (2 n d s)
  show ?case
  proof (cases "skip_ws s")
    case (Cons c cs)
    note s = this
    show ?thesis
    proof (cases "skip_ws cs")
      case Nil
      with s show ?thesis by (simp add: parse_scalar_no_fuel)
    next
      case (Cons c' cs')
      have "2 * length (c' # cs') + 1 < n"
        using skip_ws_Cons_length [OF s] length_skip_ws [of cs] Cons "2.prems" by simp
      with s Cons "2.IH"(1) [OF s _ _ Cons] "2.IH"(2) [OF s _ _ _ Cons] show ?thesis
        by (auto simp add: parse_scalar_no_fuel map_sum_Inl_iff)
    qed
  qed simp
next
  case (4 n d s)
  have pv: "parse_value n d s \<noteq> Inl OutOfFuel" using "4.IH"(1) "4.prems" by simp
  show ?case
  proof (cases "parse_value n d s")
    case (Inr x)
    then obtain v r where v: "parse_value n d s = Inr (v, r)" by (cases x) auto
    show ?thesis
    proof (cases "skip_ws r")
      case (Cons c cs)
      have "2 * length cs + 1 < n"
        using skip_ws_Cons_length [OF Cons] parse_consumes(1) [OF v] "4.prems" by simp
      with v Cons "4.IH"(2) [OF v refl Cons] show ?thesis
        by (simp add: map_sum_Inl_iff)
    qed (simp add: v)
  qed (use pv in auto)
next
  case (6 n d s)
  show ?case
  proof (cases "skip_ws s")
    case (Cons c cs)
    note s = this
    show ?thesis
    proof (cases "c = CHR 0x22 \<and> (\<exists>k r0 r1. scan_str SPlain cs = Inr (k, r0) \<and> skip_ws r0 = CHR '':'' # r1)")
      case True
      then obtain k r0 r1 where c: "\<not> c \<noteq> CHR 0x22" and k: "scan_str SPlain cs = Inr (k, r0)"
        and r1: "skip_ws r0 = CHR '':'' # r1" by auto
      have l1: "length r1 + 2 < length s"
        using skip_ws_Cons_length [OF s] scan_str_length [OF k] skip_ws_Cons_length [OF r1] by simp
      then have pv: "parse_value n d r1 \<noteq> Inl OutOfFuel"
        using "6.IH"(1) [OF s c k _ r1] "6.prems" by simp
      show ?thesis
      proof (cases "parse_value n d r1")
        case (Inr x)
        then obtain v r2 where v: "parse_value n d r1 = Inr (v, r2)" by (cases x) auto
        show ?thesis
        proof (cases "skip_ws r2")
          case (Cons c3 r3)
          have "2 * length r3 + 1 < n"
            using l1 parse_consumes(1) [OF v] skip_ws_Cons_length [OF Cons] "6.prems" by simp
          with s c k r1 v Cons "6.IH"(2) [OF s c k _ r1 _ v _ Cons] show ?thesis
            by (simp add: map_sum_Inl_iff)
        qed (simp add: s c k r1 v)
      qed (use pv s c k r1 in auto)
    next
      case False
      with s show ?thesis
        by (auto simp: scan_no_fuel split: sum.splits list.splits)
    qed
  qed simp
qed auto

text \<open>The fuel of \<^const>\<open>parse_doc\<close> is always enough: it is a total parser.\<close>

lemma parse_doc_total: "parse_doc s \<noteq> Inl OutOfFuel"
  unfolding parse_doc_def by (rule parse_fuel(1)) simp

section \<open>Dynamic values and their encoding\<close>

text \<open>The dynamic type \<open>any\<close> of decoded attributes and of the documents that are marshalled.\<close>

datatype any =
  ANil | ABool bool | AFloat float64 | AStr string | AList "any list" | AMap "(string \<times> any) list"

text \<open>Decoding into \<open>any\<close>: numbers become \<open>float64\<close>, one out of range leaves \<open>nil\<close>; of
  repeated keys the last one counts.\<close>

fun any_of :: "json \<Rightarrow> any" where
  "any_of JNull = ANil"
| "any_of (JBool b) = ABool b"
| "any_of (JNum s) = (case ParseFloat s of Some f \<Rightarrow> AFloat f | None \<Rightarrow> ANil)"
| "any_of (JStr s) = AStr s"
| "any_of (JArr vs) = AList (map any_of vs)"
| "any_of (JObj ms) = AMap (fold (\<lambda>(k, v) m. AList.update k (any_of v) m) ms [])"

text \<open>A map holds a key once, at every level.\<close>

fun wf_any :: "any \<Rightarrow> bool" where
  "wf_any (AList vs) \<longleftrightarrow> list_all wf_any vs"
| "wf_any (AMap ms) \<longleftrightarrow> wf_gomap ms \<and> list_all (\<lambda>(k, v). wf_any v) ms"
| "wf_any v \<longleftrightarrow> True"

text \<open>Equality of dynamic values, as \<open>reflect.DeepEqual\<close> has it: maps have no order.\<close>

function go_eq :: "any \<Rightarrow> any \<Rightarrow> bool" where
  "go_eq ANil w \<longleftrightarrow> w = ANil"
| "go_eq (ABool b) w \<longleftrightarrow> w = ABool b"
| "go_eq (AFloat f) w \<longleftrightarrow> w = AFloat f"
| "go_eq (AStr s) w \<longleftrightarrow> w = AStr s"
| "go_eq (AList vs) w \<longleftrightarrow>
     (case w of AList ws \<Rightarrow> length vs = length ws \<and> list_all (\<lambda>(x, y). go_eq x y) (zip vs ws) | _ \<Rightarrow> False)"
| "go_eq (AMap ms) w \<longleftrightarrow>
     (case w of
        AMap ns \<Rightarrow> length ms = length ns \<and>
          list_all (\<lambda>(k, x). case map_of ns k of Some y \<Rightarrow> go_eq x y | None \<Rightarrow> False) ms
      | _ \<Rightarrow> False)"
  by pat_completeness auto
termination
proof (relation "measure (\<lambda>(v, _). size v)", goal_cases)
  case (2 vs w ws z x y)
  then have "x \<in> set vs" by (auto dest: set_zip_leftD)
  then show ?case by (simp add: less_Suc_eq_le size_list_estimation')
next
  case (3 ms w ns z k x y)
  then show ?case by (auto simp: less_Suc_eq_le intro!: size_list_estimation' [of "(k, x)"])
qed simp

text \<open>The normal form in which maps are sorted by their keys.\<close>

fun canon_any :: "any \<Rightarrow> any" where
  "canon_any (AList vs) = AList (map canon_any vs)"
| "canon_any (AMap ms) = AMap (sort_key fst (map (\<lambda>(k, v). (k, canon_any v)) ms))"
| "canon_any v = v"

definition escape_byte :: "char \<Rightarrow> string" where
  "escape_byte c =
     (if c = CHR 0x22 \<or> c = CHR 0x5C then [CHR 0x5C, c]
      else if c = CHR 0x08 then CHR 0x5C # ''b'' else if c = CHR 0x0C then CHR 0x5C # ''f''
      else if c = CHR 0x0A then CHR 0x5C # ''n'' else if c = CHR 0x0D then CHR 0x5C # ''r''
      else if c = CHR 0x09 then CHR 0x5C # ''t''
      else if byte c < 32 \<or> c = CHR ''<'' \<or> c = CHR ''>'' \<or> c = CHR ''&''
        then CHR 0x5C # ''u00'' @ EncodeToString [c]
      else [c])"

function escape_str :: "string \<Rightarrow> string" where
  "escape_str [] = []"
| "escape_str (c # s) =
     (if byte c < 128 then escape_byte c @ escape_str s
      else let (r, w) = decode_rune (c # s) in
           (if r = RuneError \<and> w = 1 then CHR 0x5C # ''ufffd''
            else if r = 8232 \<or> r = 8233 then CHR 0x5C # ''u202'' @ [hex_digit (r mod 16)]
            else take w (c # s)) @ escape_str (drop w (c # s)))"
  by pat_completeness auto
termination
proof (relation "measure length", goal_cases)
  case (3 c s x r w)
  then have "0 < w" using decode_rune_width_pos [of "c # s"] by (metis list.distinct(1) snd_conv)
  then show ?case by (simp add: diff_less)
qed auto

declare escape_str.simps [simp del]

definition quote_str :: "string \<Rightarrow> string" where
  "quote_str s = [CHR 0x22] @ escape_str s @ [CHR 0x22]"

fun join :: "string list \<Rightarrow> string" where
  "join [] = []"
| "join [x] = x"
| "join (x # y # zs) = x @ '','' @ join (y # zs)"

text \<open>\<open>None\<close> is the \<open>UnsupportedValueError\<close> of a number that is not finite.\<close>

fun list_opt :: "'a option list \<Rightarrow> 'a list option" where
  "list_opt [] = Some []"
| "list_opt (None # _) = None"
| "list_opt (Some x # xs) = map_option ((#) x) (list_opt xs)"

fun marshal_opt :: "any \<Rightarrow> string option" where
  "marshal_opt ANil = Some ''null''"
| "marshal_opt (ABool b) = Some (if b then ''true'' else ''false'')"
| "marshal_opt (AFloat f) = format_float f"
| "marshal_opt (AStr s) = Some (quote_str s)"
| "marshal_opt (AList vs) = map_option (\<lambda>xs. ''['' @ join xs @ '']'') (list_opt (map marshal_opt vs))"
| "marshal_opt (AMap ms) =
     map_option (\<lambda>xs. ''{'' @ join xs @ ''}'')
       (list_opt (map (\<lambda>(k, x). map_option (\<lambda>y. quote_str k @ '':'' @ y) x)
          (sort_key fst (map (\<lambda>(k, v). (k, marshal_opt v)) ms))))"

definition marshal :: "any \<Rightarrow> string res" where
  "marshal v = (case marshal_opt v of Some s \<Rightarrow> Inr s | None \<Rightarrow> Inl ''json: unsupported value'')"

section \<open>Evaluating the parser\<close>

text \<open>Rules with which \<open>simp\<close> runs the parser on a concrete document.\<close>

lemmas parse_numeral =
  parse_value.simps(2) [where n = "pred_numeral k" for k, folded numeral_eq_Suc]
  parse_elems.simps(2) [where n = "pred_numeral k" for k, folded numeral_eq_Suc]
  parse_members.simps(2) [where n = "pred_numeral k" for k, folded numeral_eq_Suc]

lemma unquote_plain: "ascii s \<Longrightarrow> CHR 0x5C \<notin> set s \<Longrightarrow> unquote s = s"
proof (induction s)
  case Nil
  show ?case by (simp add: unquote.simps)
next
  case (Cons c s)
  then have "decode_rune (c # s) = (byte c, 1)"
    by (simp add: decode_rune_def Let_def split: prod.splits)
  with Cons show ?case by (auto simp add: unquote.simps(2) [of c s] encode_rune_def)
qed

lemmas json_eval = decode_doc_def unmarshal_doc_def parse_doc_def parse_numeral skip_ws_def json_space_def
  max_depth_def parse_scalar_def scan_num_def scan_int_def scan_frac_def scan_exp_def scan_digits_def
  is_digit_def scan_lit_value_def unquote_plain

end
