(* ===== verification/Domain.thy ===== *)
theory Domain
  imports Go_Json
begin

text \<open>
  The data of \<open>internal/domain\<close>: products with their channel blocks, dispositions and run
  states. The string-typed enumerations of the code stay strings (any text can be decoded
  into them); their named constants are definitions.
\<close>

type_synonym ChannelLifecycleState = string

definition ChannelStateActive :: ChannelLifecycleState where
  [simp]: "ChannelStateActive = ''active''"

definition ChannelStateInactive :: ChannelLifecycleState where
  [simp]: "ChannelStateInactive = ''inactive''"

definition ChannelStateDelete :: ChannelLifecycleState where
  [simp]: "ChannelStateDelete = ''delete''"

record ChannelControl =
  State :: ChannelLifecycleState

record GoogleFields =
  GoogleControl :: ChannelControl

record MetaFields =
  MetaControl :: ChannelControl

record YotpoFields =
  YotpoControl :: ChannelControl

type_synonym ProductDisposition = string

definition ProductDispositionRejected :: ProductDisposition where
  [simp]: "ProductDispositionRejected = ''rejected''"

definition ProductDispositionUnchanged :: ProductDisposition where
  [simp]: "ProductDispositionUnchanged = ''unchanged''"

definition ProductDispositionEnqueued :: ProductDisposition where
  [simp]: "ProductDispositionEnqueued = ''enqueued''"

record Money =
  AmountDecimal :: string
  Currency :: string

record ChannelFields =
  Google :: "GoogleFields option"
  Meta :: "MetaFields option"
  Yotpo :: "YotpoFields option"

record Product =
  ProductKey :: string
  GroupKey :: string
  Title :: string
  Description :: string
  Link :: string
  ImageLink :: string
  AdditionalImageLinks :: "string list"
  Brand :: string
  GTIN :: string
  MPN :: string
  Condition :: string
  Availability :: string
  Price :: Money
  SalePrice :: "Money option"
  Options :: "(string, string) gomap"
  Attributes :: "(string, any) gomap"
  Channel :: ChannelFields

type_synonym RunStatus = string

definition RunStatusCompleted :: RunStatus where
  [simp]: "RunStatusCompleted = ''completed''"

definition RunStatusNoChangeDetected :: RunStatus where
  [simp]: "RunStatusNoChangeDetected = ''no_change_detected''"

definition RunStatusHasChanges :: RunStatus where
  [simp]: "RunStatusHasChanges = ''has_changes''"

section \<open>Zero values\<close>

text \<open>What Go's \<open>var p domain.Product\<close> and its kin start from.\<close>

definition zero_ChannelControl :: ChannelControl where
  "zero_ChannelControl = \<lparr>State = ''''\<rparr>"

definition zero_Money :: Money where
  "zero_Money = \<lparr>AmountDecimal = '''', Currency = ''''\<rparr>"

definition zero_ChannelFields :: ChannelFields where
  "zero_ChannelFields = \<lparr>Google = None, Meta = None, Yotpo = None\<rparr>"

definition zero_Product :: Product where
  "zero_Product =
     \<lparr>ProductKey = '''', GroupKey = '''', Title = '''', Description = '''', Link = '''',
      ImageLink = '''', AdditionalImageLinks = [], Brand = '''', GTIN = '''', MPN = '''',
      Condition = '''', Availability = '''', Price = zero_Money, SalePrice = None,
      Options = [], Attributes = [], Channel = zero_ChannelFields\<rparr>"

section \<open>Equality up to the order of maps and links\<close>

text \<open>Two products carry the same content when they differ at most in the order of the
  additional image links; maps, those nested in attribute values included, have no order.\<close>

definition same_content :: "Product \<Rightarrow> Product \<Rightarrow> bool" where
  "same_content p q \<longleftrightarrow>
     mset (AdditionalImageLinks p) = mset (AdditionalImageLinks q) \<and>
     map_of (Options p) = map_of (Options q) \<and>
     go_eq (AMap (Attributes p)) (AMap (Attributes q)) \<and>
     p\<lparr>AdditionalImageLinks := [], Options := [], Attributes := []\<rparr> =
     q\<lparr>AdditionalImageLinks := [], Options := [], Attributes := []\<rparr>"

definition wf_Product :: "Product \<Rightarrow> bool" where
  "wf_Product p \<longleftrightarrow> wf_gomap (Options p) \<and> wf_any (AMap (Attributes p))"

end
