(* ===== verification/Parse_Products.thy ===== *)
theory Parse_Products
  imports Domain
begin

text \<open>
  \<open>internal/ingest/parse_products.go\<close>: from request bytes to products, collecting the keys
  the schema does not know. Decoding of a known field never fails (the code discards the
  error of \<open>json.Unmarshal\<close>), but it can have partial effects, which are modelled: each
  \<open>decode_*\<close> function takes the destination's old value and returns the new one.
\<close>

section \<open>Decoding into the field types\<close>

fun decode_string :: "json \<Rightarrow> string \<Rightarrow> string" where
  "decode_string (JStr s) dst = s"
| "decode_string _ dst = dst"

text \<open>Elements that are not strings leave the zero value of their slot.\<close>

fun decode_string_slice :: "json \<Rightarrow> string list \<Rightarrow> string list" where
  "decode_string_slice JNull dst = []"
| "decode_string_slice (JArr vs) dst = map2 decode_string vs (dst @ replicate (length vs) '''')"
| "decode_string_slice _ dst = dst"

fun decode_string_map :: "json \<Rightarrow> (string, string) gomap \<Rightarrow> (string, string) gomap" where
  "decode_string_map JNull dst = []"
| "decode_string_map (JObj ms) dst = fold (\<lambda>(k, v) m. AList.update k (decode_string v '''') m) ms dst"
| "decode_string_map _ dst = dst"

fun decode_any_map :: "json \<Rightarrow> (string, any) gomap \<Rightarrow> (string, any) gomap" where
  "decode_any_map JNull dst = []"
| "decode_any_map (JObj ms) dst = fold (\<lambda>(k, v) m. AList.update k (any_of v) m) ms dst"
| "decode_any_map _ dst = dst"

text \<open>Struct fields are matched by name up to case (\<open>foldName\<close>); unknown names are skipped.\<close>

definition decode_money_field :: "string \<times> json \<Rightarrow> Money \<Rightarrow> Money" where
  "decode_money_field kv m =
     (if EqualFold (fst kv) ''amount_decimal''
        then m\<lparr>AmountDecimal := decode_string (snd kv) (AmountDecimal m)\<rparr>
      else if EqualFold (fst kv) ''currency''
        then m\<lparr>Currency := decode_string (snd kv) (Currency m)\<rparr>
      else m)"

fun decode_money :: "json \<Rightarrow> Money \<Rightarrow> Money" where
  "decode_money (JObj ms) dst = fold decode_money_field ms dst"
| "decode_money _ dst = dst"

text \<open>A pointer is set to nil by null and allocated by anything else, also by a value of the
  wrong kind.\<close>

fun decode_money_ptr :: "json \<Rightarrow> Money option \<Rightarrow> Money option" where
  "decode_money_ptr JNull dst = None"
| "decode_money_ptr v dst = Some (decode_money v (case dst of Some m \<Rightarrow> m | None \<Rightarrow> zero_Money))"

definition decode_control_field :: "string \<times> json \<Rightarrow> ChannelControl \<Rightarrow> ChannelControl" where
  "decode_control_field kv c =
     (if EqualFold (fst kv) ''state'' then c\<lparr>State := decode_string (snd kv) (State c)\<rparr> else c)"

fun decode_control :: "json \<Rightarrow> ChannelControl \<Rightarrow> ChannelControl" where
  "decode_control (JObj ms) dst = fold decode_control_field ms dst"
| "decode_control _ dst = dst"

text \<open>The three channel structs have the one field \<open>control\<close>.\<close>

definition decode_channel_field :: "string \<times> json \<Rightarrow> ChannelControl \<Rightarrow> ChannelControl" where
  "decode_channel_field kv c = (if EqualFold (fst kv) ''control'' then decode_control (snd kv) c else c)"

fun decode_channel_block :: "json \<Rightarrow> ChannelControl" where
  "decode_channel_block (JObj ms) = fold decode_channel_field ms zero_ChannelControl"
| "decode_channel_block _ = zero_ChannelControl"

text \<open>Decoding into \<open>map[string]json.RawMessage\<close>: the last of repeated keys counts.\<close>

definition raw_map_type :: string where
  "raw_map_type = ''map[string]json.RawMessage''"

fun decode_raw_map :: "json \<Rightarrow> (string, json) gomap res" where
  "decode_raw_map JNull = Inr []"
| "decode_raw_map (JObj ms) = Inr (fold (\<lambda>(k, v) m. AList.update k v m) ms [])"
| "decode_raw_map v = Inl (type_error v raw_map_type)"

fun decode_raw_maps :: "json list \<Rightarrow> (string, json) gomap list res" where
  "decode_raw_maps [] = Inr []"
| "decode_raw_maps (v # vs) =
     bind_res (decode_raw_map v) (\<lambda>m. bind_res (decode_raw_maps vs) (\<lambda>ms. Inr (m # ms)))"

fun decode_raw_items :: "json \<Rightarrow> (string, json) gomap list res" where
  "decode_raw_items JNull = Inr []"
| "decode_raw_items (JArr vs) = decode_raw_maps vs"
| "decode_raw_items v = Inl (type_error v (''[]'' @ raw_map_type))"

section \<open>Products\<close>

record UnknownKeyWarning =
  UnknownKeys :: "string list"

record ParseResult =
  Products :: "Product list"
  Warnings :: UnknownKeyWarning

definition knownTopLevelKeys :: "string set" where
  "knownTopLevelKeys =
     {''product_key'', ''group_key'', ''title'', ''description'', ''link'', ''image_link'',
      ''additional_image_links'', ''brand'', ''gtin'', ''mpn'', ''condition'', ''availability'',
      ''price'', ''sale_price'', ''options'', ''attributes'', ''channel''}"

definition unmarshalIfPresent :: "(string, json) gomap \<Rightarrow> string \<Rightarrow> (json \<Rightarrow> 'a \<Rightarrow> 'a) \<Rightarrow> 'a \<Rightarrow> 'a" where
  "unmarshalIfPresent obj key dec dst = (case map_of obj key of None \<Rightarrow> dst | Some raw \<Rightarrow> dec raw dst)"

definition setToSortedSlice :: "string set \<Rightarrow> string list" where
  "setToSortedSlice s = (if s = {} then [] else sorted_list_of_set s)"

definition SortedUnknownKeys :: "string set \<Rightarrow> string list" where
  "SortedUnknownKeys s = setToSortedSlice s"

definition knownChannels :: "string set" where
  "knownChannels = {''google'', ''meta'', ''yotpo''}"

definition parseChannel :: "json \<Rightarrow> ChannelFields \<Rightarrow> (string set \<times> ChannelFields) res" where
  "parseChannel raw out =
     bind_res (decode_raw_map raw) (\<lambda>obj.
       let unknown = {k \<in> fst ` set obj. k \<notin> knownChannels};
           out1 = (case map_of obj ''google'' of None \<Rightarrow> out
                   | Some v \<Rightarrow> out\<lparr>Google := Some \<lparr>GoogleControl = decode_channel_block v\<rparr>\<rparr>);
           out2 = (case map_of obj ''meta'' of None \<Rightarrow> out1
                   | Some v \<Rightarrow> out1\<lparr>Meta := Some \<lparr>MetaControl = decode_channel_block v\<rparr>\<rparr>);
           out3 = (case map_of obj ''yotpo'' of None \<Rightarrow> out2
                   | Some v \<Rightarrow> out2\<lparr>Yotpo := Some \<lparr>YotpoControl = decode_channel_block v\<rparr>\<rparr>)
       in Inr (unknown, out3))"

text \<open>The known fields of a product, without its channel block.\<close>

definition decode_fields :: "(string, json) gomap \<Rightarrow> Product" where
  "decode_fields item =
     \<lparr>ProductKey = unmarshalIfPresent item ''product_key'' decode_string (ProductKey zero_Product),
      GroupKey = unmarshalIfPresent item ''group_key'' decode_string (GroupKey zero_Product),
      Title = unmarshalIfPresent item ''title'' decode_string (Title zero_Product),
      Description = unmarshalIfPresent item ''description'' decode_string (Description zero_Product),
      Link = unmarshalIfPresent item ''link'' decode_string (Link zero_Product),
      ImageLink = unmarshalIfPresent item ''image_link'' decode_string (ImageLink zero_Product),
      AdditionalImageLinks = unmarshalIfPresent item ''additional_image_links'' decode_string_slice
        (AdditionalImageLinks zero_Product),
      Brand = unmarshalIfPresent item ''brand'' decode_string (Brand zero_Product),
      GTIN = unmarshalIfPresent item ''gtin'' decode_string (GTIN zero_Product),
      MPN = unmarshalIfPresent item ''mpn'' decode_string (MPN zero_Product),
      Condition = unmarshalIfPresent item ''condition'' decode_string (Condition zero_Product),
      Availability = unmarshalIfPresent item ''availability'' decode_string (Availability zero_Product),
      Price = unmarshalIfPresent item ''price'' decode_money (Price zero_Product),
      SalePrice = unmarshalIfPresent item ''sale_price'' decode_money_ptr (SalePrice zero_Product),
      Options = unmarshalIfPresent item ''options'' decode_string_map (Options zero_Product),
      Attributes = unmarshalIfPresent item ''attributes'' decode_any_map (Attributes zero_Product),
      Channel = zero_ChannelFields\<rparr>"

text \<open>Unknown keys keep their spelling but lose surrounding white space.\<close>

definition normalize_unknown :: "string set \<Rightarrow> string set" where
  "normalize_unknown u = {kk \<in> TrimSpace ` u. kk \<noteq> ''''}"

definition parseSingleProduct :: "(string, json) gomap \<Rightarrow> (Product \<times> string set) res" where
  "parseSingleProduct item =
     (let unknown = {k \<in> fst ` set item. k \<notin> knownTopLevelKeys};
          p = decode_fields item
      in case map_of item ''channel'' of
           None \<Rightarrow> Inr (p, normalize_unknown unknown)
         | Some raw \<Rightarrow>
             bind_res (parseChannel raw (Channel p)) (\<lambda>(chUnknown, ch).
               Inr (p\<lparr>Channel := ch\<rparr>,
                    normalize_unknown (unknown \<union> (\<lambda>k. ''channel.'' @ k) ` chUnknown))))"

fun parse_items :: "(string, json) gomap list \<Rightarrow> string set \<Rightarrow> (Product list \<times> string set) res" where
  "parse_items [] unknown = Inr ([], unknown)"
| "parse_items (item # items) unknown =
     bind_res (parseSingleProduct item) (\<lambda>(p, itemUnknown).
       bind_res (parse_items items (unknown \<union> itemUnknown)) (\<lambda>(ps, u). Inr (p # ps, u)))"

definition ParseProductsAllowUnknown :: "string \<Rightarrow> ParseResult res" where
  "ParseProductsAllowUnknown body =
     bind_res (decode_doc body) (\<lambda>doc.
     bind_res (decode_raw_items doc) (\<lambda>rawItems.
     bind_res (parse_items rawItems {}) (\<lambda>(products, unknown).
       Inr \<lparr>Products = products, Warnings = \<lparr>UnknownKeys = setToSortedSlice unknown\<rparr>\<rparr>)))"

definition ParseProductObjectAllowUnknown :: "string \<Rightarrow> (Product \<times> string set) res" where
  "ParseProductObjectAllowUnknown line =
     bind_res (unmarshal_doc line) (\<lambda>doc.
     bind_res (decode_raw_map doc) parseSingleProduct)"

section \<open>Decoded maps are maps\<close>

lemma wf_fold_update: "wf_gomap m \<Longrightarrow> wf_gomap (fold (\<lambda>(k, v) m. AList.update k (f v) m) ms m)"
  by (induction ms arbitrary: m) (auto intro: wf_gomap_update)

lemma wf_decode_string_map: "wf_gomap dst \<Longrightarrow> wf_gomap (decode_string_map v dst)"
  by (cases v) (auto intro: wf_fold_update)

lemma wf_any_update: "wf_any (AMap m) \<Longrightarrow> wf_any v \<Longrightarrow> wf_any (AMap (AList.update k v m))"
proof -
  have "list_all (\<lambda>(k, v). wf_any v) m \<Longrightarrow> wf_any v \<Longrightarrow> list_all (\<lambda>(k, v). wf_any v) (AList.update k v m)"
    by (induction m) auto
  then show "wf_any (AMap m) \<Longrightarrow> wf_any v \<Longrightarrow> wf_any (AMap (AList.update k v m))" by (auto intro: wf_gomap_update)
qed

lemma wf_any_fold:
  assumes "\<And>k v. (k, v) \<in> set ms \<Longrightarrow> wf_any (any_of v)"
  shows "wf_any (AMap m) \<Longrightarrow> wf_any (AMap (fold (\<lambda>(k, v) m. AList.update k (any_of v) m) ms m))"
  using assms
proof (induction ms arbitrary: m)
  case (Cons kv ms)
  obtain k v where kv: "kv = (k, v)" by (cases kv)
  have "wf_any (AMap (AList.update k (any_of v) m))"
    using Cons.prems kv by (intro wf_any_update) auto
  moreover have "wf_any (any_of v)" if "(k, v) \<in> set ms" for k v using Cons.prems(2) [of k v] that by simp
  ultimately show ?case using Cons.IH [of "AList.update k (any_of v) m"] kv by (simp del: wf_any.simps)
qed simp

lemma wf_any_of: "wf_any (any_of v)"
proof (induction v)
  case (JArr vs)
  then show ?case by (simp add: list_all_iff)
next
  case (JObj ms)
  have "wf_any (any_of v)" if "(k, v) \<in> set ms" for k v using JObj [OF that, of v] by simp
  then show ?case using wf_any_fold [of ms "[]"] by simp
qed (auto split: option.split)

lemma wf_decode_any_map: "wf_any (AMap dst) \<Longrightarrow> wf_any (AMap (decode_any_map v dst))"
proof (cases v)
  case (JObj ms)
  then show "wf_any (AMap dst) \<Longrightarrow> wf_any (AMap (decode_any_map v dst))"
    using wf_any_fold [of ms dst] wf_any_of by (simp del: wf_any.simps)
qed simp_all

lemma wf_decode_raw_map: "decode_raw_map v = Inr m \<Longrightarrow> wf_gomap m"
  using wf_fold_update [of "[]" "\<lambda>x. x"] by (cases v) auto

lemma wf_decode_raw_maps: "decode_raw_maps vs = Inr ms \<Longrightarrow> m \<in> set ms \<Longrightarrow> wf_gomap m"
  by (induction vs arbitrary: ms) (auto simp: bind_res_eq_Inr dest: wf_decode_raw_map)

lemma wf_decode_raw_items: "decode_raw_items v = Inr ms \<Longrightarrow> m \<in> set ms \<Longrightarrow> wf_gomap m"
  by (cases v) (auto dest: wf_decode_raw_maps)

lemma wf_decode_fields: "wf_Product (decode_fields item)"
proof -
  have "wf_any (AMap (Attributes (decode_fields item)))"
    using wf_decode_any_map [of "[]"]
    by (simp add: decode_fields_def unmarshalIfPresent_def zero_Product_def split: option.split)
  then show ?thesis
    by (auto simp: wf_Product_def decode_fields_def unmarshalIfPresent_def zero_Product_def
        intro: wf_decode_string_map split: option.split)
qed

lemma wf_Product_Channel [simp]: "wf_Product (p\<lparr>Channel := c\<rparr>) = wf_Product p"
  by (simp add: wf_Product_def)

lemma parseSingleProduct_cases:
  assumes "parseSingleProduct item = Inr (p, u)"
  obtains c cu where "p = (decode_fields item)\<lparr>Channel := c\<rparr>"
    "u = normalize_unknown ({k \<in> fst ` set item. k \<notin> knownTopLevelKeys} \<union> (\<lambda>k. ''channel.'' @ k) ` cu)"
    "case map_of item ''channel'' of None \<Rightarrow> cu = {} \<and> c = zero_ChannelFields
     | Some raw \<Rightarrow> parseChannel raw zero_ChannelFields = Inr (cu, c)"
proof (cases "map_of item ''channel''")
  case None
  then show thesis
    using assms by (intro that [of zero_ChannelFields "{}"]) (auto simp: parseSingleProduct_def decode_fields_def)
next
  case (Some raw)
  with assms obtain cu c where "parseChannel raw zero_ChannelFields = Inr (cu, c)"
    "p = (decode_fields item)\<lparr>Channel := c\<rparr>"
    "u = normalize_unknown ({k \<in> fst ` set item. k \<notin> knownTopLevelKeys} \<union> (\<lambda>k. ''channel.'' @ k) ` cu)"
    by (auto simp: parseSingleProduct_def Let_def bind_res_eq_Inr decode_fields_def)
  with Some show thesis by (intro that [of c cu]) auto
qed

lemma wf_parseSingleProduct: "parseSingleProduct item = Inr (p, u) \<Longrightarrow> wf_Product p"
  by (erule parseSingleProduct_cases) (simp add: wf_decode_fields)

lemma parse_items_spec:
  "parse_items items u = Inr (ps, u') \<longleftrightarrow>
     (\<exists>rs. map parseSingleProduct items = map Inr rs \<and> ps = map fst rs \<and> u' = u \<union> \<Union> (set (map snd rs)))"
proof (induction items arbitrary: u ps u')
  case (Cons item items)
  show ?case
  proof (cases "parseSingleProduct item")
    case (Inr r)
    obtain p iu where r: "r = (p, iu)" by (cases r)
    show ?thesis
      using Inr r by (cases ps) (auto simp: bind_res_eq_Inr Cons.IH Cons_eq_map_conv)
  qed (auto simp: Cons_eq_map_conv)
qed auto

lemma finite_parseChannel: "parseChannel raw out = Inr (cu, c) \<Longrightarrow> finite cu"
  by (auto simp: parseChannel_def bind_res_eq_Inr Let_def)

lemma finite_parseSingleProduct: "parseSingleProduct item = Inr (p, u) \<Longrightarrow> finite u"
  by (erule parseSingleProduct_cases)
    (auto simp: normalize_unknown_def dest: finite_parseChannel split: option.splits)

lemma set_setToSortedSlice [simp]: "finite s \<Longrightarrow> set (setToSortedSlice s) = s"
  by (simp add: setToSortedSlice_def)

lemma sorted_setToSortedSlice [simp]: "sorted (setToSortedSlice s)" "distinct (setToSortedSlice s)"
  by (simp_all add: setToSortedSlice_def)

lemma normalized_nonempty: "parseSingleProduct item = Inr (p, u) \<Longrightarrow> '''' \<notin> u"
  by (erule parseSingleProduct_cases) (simp add: normalize_unknown_def)

section \<open>What an item says\<close>

text \<open>The schema's keys, and the keys of an item and of its channel block outside the schema.\<close>

definition schema_keys :: "string list" where
  "schema_keys =
     [''product_key'', ''group_key'', ''title'', ''description'', ''link'', ''image_link'', ''additional_image_links'', ''brand'',
      ''gtin'', ''mpn'', ''condition'', ''availability'', ''price'', ''sale_price'', ''options'', ''attributes'', ''channel'']"

definition channel_members :: "(string, json) gomap \<Rightarrow> (string \<times> json) list" where
  "channel_members item = (case map_of item ''channel'' of Some (JObj ms) \<Rightarrow> ms | _ \<Rightarrow> [])"

definition foreign_keys_of :: "(string, json) gomap \<Rightarrow> string set" where
  "foreign_keys_of item =
     {k. k \<in> fst ` set item \<and> k \<notin> set schema_keys} \<union>
     {''channel.'' @ k |k. k \<in> fst ` set (channel_members item) \<and> k \<notin> {''google'', ''meta'', ''yotpo''}}"

text \<open>The text of a string field; a missing one, or one of another type, is empty.\<close>

definition text_field :: "(string, json) gomap \<Rightarrow> string \<Rightarrow> string" where
  "text_field item k = (case map_of item k of Some (JStr s) \<Rightarrow> s | _ \<Rightarrow> '''')"

lemma known_schema: "knownTopLevelKeys = set schema_keys" "knownChannels = {''google'', ''meta'', ''yotpo''}"
  by (auto simp: knownTopLevelKeys_def schema_keys_def knownChannels_def)

lemma keys_fold_update: "fst ` set (fold (\<lambda>(k, v) m. AList.update k v m) ms m) = fst ` set m \<union> fst ` set ms"
proof -
  have upd: "fst ` set (AList.update k v m) = insert k (fst ` set m)" for k v and m :: "('a \<times> 'b) list"
    by (simp add: dom_map_of_conv_image_fst [symmetric])
  show ?thesis by (induction ms arbitrary: m) (simp_all add: case_prod_beta upd)
qed

lemma map_of_fold_update: "map_of (fold (\<lambda>(k, v) m. AList.update k v m) ms m) k = None \<longleftrightarrow> map_of m k = None \<and> k \<notin> fst ` set ms"
  using keys_fold_update [of ms m] by (metis UnE UnI1 UnI2 map_of_eq_None_iff)

lemma parseChannel_spec:
  assumes "parseChannel raw zero_ChannelFields = Inr (cu, c)"
  shows "cu = {k \<in> fst ` set (case raw of JObj ms \<Rightarrow> ms | _ \<Rightarrow> []). k \<notin> knownChannels}"
    "Google c \<noteq> None \<longleftrightarrow> ''google'' \<in> fst ` set (case raw of JObj ms \<Rightarrow> ms | _ \<Rightarrow> [])"
    "Meta c \<noteq> None \<longleftrightarrow> ''meta'' \<in> fst ` set (case raw of JObj ms \<Rightarrow> ms | _ \<Rightarrow> [])"
    "Yotpo c \<noteq> None \<longleftrightarrow> ''yotpo'' \<in> fst ` set (case raw of JObj ms \<Rightarrow> ms | _ \<Rightarrow> [])"
proof -
  obtain obj where obj: "decode_raw_map raw = Inr obj" and c: "cu = {k \<in> fst ` set obj. k \<notin> knownChannels}"
    "Google c \<noteq> None \<longleftrightarrow> map_of obj ''google'' \<noteq> None" "Meta c \<noteq> None \<longleftrightarrow> map_of obj ''meta'' \<noteq> None"
    "Yotpo c \<noteq> None \<longleftrightarrow> map_of obj ''yotpo'' \<noteq> None"
    using assms by (auto simp: parseChannel_def bind_res_eq_Inr Let_def zero_ChannelFields_def split: option.splits)
  have "fst ` set obj = fst ` set (case raw of JObj ms \<Rightarrow> ms | _ \<Rightarrow> [])"
  proof (cases raw)
    case (JObj ms)
    then have "obj = fold (\<lambda>(k, v) m. AList.update k v m) ms []" using obj by simp
    then show ?thesis using JObj by (simp add: keys_fold_update)
  qed (use obj in simp_all)
  with c show "cu = {k \<in> fst ` set (case raw of JObj ms \<Rightarrow> ms | _ \<Rightarrow> []). k \<notin> knownChannels}"
    "Google c \<noteq> None \<longleftrightarrow> ''google'' \<in> fst ` set (case raw of JObj ms \<Rightarrow> ms | _ \<Rightarrow> [])"
    "Meta c \<noteq> None \<longleftrightarrow> ''meta'' \<in> fst ` set (case raw of JObj ms \<Rightarrow> ms | _ \<Rightarrow> [])"
    "Yotpo c \<noteq> None \<longleftrightarrow> ''yotpo'' \<in> fst ` set (case raw of JObj ms \<Rightarrow> ms | _ \<Rightarrow> [])"
    by (simp_all add: map_of_eq_None_iff)
qed

definition reads_item :: "(string, json) gomap \<Rightarrow> Product \<Rightarrow> bool" where
  "reads_item item p \<longleftrightarrow>
     ProductKey p = text_field item ''product_key'' \<and> GroupKey p = text_field item ''group_key'' \<and>
     Title p = text_field item ''title'' \<and> Description p = text_field item ''description'' \<and>
     Link p = text_field item ''link'' \<and> ImageLink p = text_field item ''image_link'' \<and>
     Brand p = text_field item ''brand'' \<and> GTIN p = text_field item ''gtin'' \<and> MPN p = text_field item ''mpn'' \<and>
     Condition p = text_field item ''condition'' \<and> Availability p = text_field item ''availability'' \<and>
     (Google (Channel p) \<noteq> None \<longleftrightarrow> ''google'' \<in> fst ` set (channel_members item)) \<and>
     (Meta (Channel p) \<noteq> None \<longleftrightarrow> ''meta'' \<in> fst ` set (channel_members item)) \<and>
     (Yotpo (Channel p) \<noteq> None \<longleftrightarrow> ''yotpo'' \<in> fst ` set (channel_members item))"

lemma decode_text: "unmarshalIfPresent item k decode_string '''' = text_field item k"
  by (auto simp: unmarshalIfPresent_def text_field_def split: option.split json.split)

lemma parse_one_item:
  assumes "parseSingleProduct item = Inr (p, u)"
  shows "reads_item item p \<and> u = {kk \<in> TrimSpace ` foreign_keys_of item. kk \<noteq> ''''}"
proof -
  obtain c cu where p: "p = (decode_fields item)\<lparr>Channel := c\<rparr>"
    and u: "u = normalize_unknown ({k \<in> fst ` set item. k \<notin> knownTopLevelKeys} \<union> (\<lambda>k. ''channel.'' @ k) ` cu)"
    and ch: "case map_of item ''channel'' of None \<Rightarrow> cu = {} \<and> c = zero_ChannelFields
       | Some raw \<Rightarrow> parseChannel raw zero_ChannelFields = Inr (cu, c)"
    using assms by (rule parseSingleProduct_cases)
  have c: "cu = {k \<in> fst ` set (channel_members item). k \<notin> knownChannels}"
    "Google c \<noteq> None \<longleftrightarrow> ''google'' \<in> fst ` set (channel_members item)"
    "Meta c \<noteq> None \<longleftrightarrow> ''meta'' \<in> fst ` set (channel_members item)"
    "Yotpo c \<noteq> None \<longleftrightarrow> ''yotpo'' \<in> fst ` set (channel_members item)"
  proof -
    have "cu = {k \<in> fst ` set (channel_members item). k \<notin> knownChannels} \<and>
      (Google c \<noteq> None \<longleftrightarrow> ''google'' \<in> fst ` set (channel_members item)) \<and>
      (Meta c \<noteq> None \<longleftrightarrow> ''meta'' \<in> fst ` set (channel_members item)) \<and>
      (Yotpo c \<noteq> None \<longleftrightarrow> ''yotpo'' \<in> fst ` set (channel_members item))"
    proof (cases "map_of item ''channel''")
      case None
      then show ?thesis using ch by (simp add: channel_members_def zero_ChannelFields_def)
    next
      case (Some raw)
      then have parsed: "parseChannel raw zero_ChannelFields = Inr (cu, c)" using ch by simp
      have members: "channel_members item = (case raw of JObj ms \<Rightarrow> ms | _ \<Rightarrow> [])"
        using Some by (simp add: channel_members_def)
      show ?thesis unfolding members using parseChannel_spec [OF parsed] by blast
    qed
    then show "cu = {k \<in> fst ` set (channel_members item). k \<notin> knownChannels}"
      "Google c \<noteq> None \<longleftrightarrow> ''google'' \<in> fst ` set (channel_members item)"
      "Meta c \<noteq> None \<longleftrightarrow> ''meta'' \<in> fst ` set (channel_members item)"
      "Yotpo c \<noteq> None \<longleftrightarrow> ''yotpo'' \<in> fst ` set (channel_members item)" by blast+
  qed
  have "reads_item item p"
    using c(2-4) by (simp add: reads_item_def p decode_fields_def zero_Product_def decode_text)
  moreover have "{k \<in> fst ` set item. k \<notin> knownTopLevelKeys} \<union> (\<lambda>k. ''channel.'' @ k) ` cu = foreign_keys_of item"
    unfolding foreign_keys_of_def known_schema c(1) by blast
  ultimately show ?thesis by (simp add: u normalize_unknown_def)
qed

section \<open>Properties\<close>



text \<open>Unknown input fields are ignored: dropping every key outside the schema from an item
  changes neither the product that is parsed nor whether parsing succeeds.\<close>

theorem parse_ignores_unknown_keys:
  "map_sum id fst (parseSingleProduct (filter (\<lambda>(k, v). k \<in> knownTopLevelKeys) item)) =
   map_sum id fst (parseSingleProduct item)"
proof -
  let ?f = "filter (\<lambda>(k, v). k \<in> knownTopLevelKeys) item"
  have m: "map_of ?f k = map_of item k" if "k \<in> knownTopLevelKeys" for k
    using that by (induction item) auto
  define g where "g = ?f"
  have "\<forall>k \<in> knownTopLevelKeys. map_of g k = map_of item k"
    using m by (simp add: g_def)
  then have "decode_fields g = decode_fields item" "map_of g ''channel'' = map_of item ''channel''"
    by (simp_all add: decode_fields_def unmarshalIfPresent_def knownTopLevelKeys_def)
  then have "decode_fields ?f = decode_fields item" "map_of ?f ''channel'' = map_of item ''channel''"
    by (simp_all add: g_def)
  then show ?thesis
    by (auto simp: parseSingleProduct_def Let_def bind_res_def split: option.split sum.split)
qed

end
