(* ===== verification/Validate.thy ===== *)
theory Validate
  imports Domain
begin

text \<open>
  \<open>internal/ingest/validate.go\<close>: the base checks of a product and the checks of the channel
  blocks that the feed's enabled channels ask for. \<open>ValidateChannelControls\<close> ranges over a Go
  map of the enabled channels, so the order of its issues is the runtime's choice (the
  argument \<open>rng\<close>).
\<close>

record ValidationIssue =
  Path :: string
  Code :: string
  Message :: string

record ValidationResult =
  Issues :: "ValidationIssue list"

definition empty_result :: ValidationResult where
  "empty_result = \<lparr>Issues = []\<rparr>"

definition IsValid :: "ValidationResult \<Rightarrow> bool" where
  "IsValid r \<longleftrightarrow> length (Issues r) = 0"

definition addIssue :: "string \<Rightarrow> string \<Rightarrow> string \<Rightarrow> ValidationResult \<Rightarrow> ValidationResult" where
  "addIssue path code msg res =
     res\<lparr>Issues := Issues res @ [\<lparr>Path = path, Code = code, Message = msg\<rparr>]\<rparr>"

definition requireNonEmpty :: "string \<Rightarrow> string \<Rightarrow> ValidationResult \<Rightarrow> ValidationResult" where
  "requireNonEmpty path v res =
     (if TrimSpace v = '''' then addIssue path ''required'' ''field is required'' res else res)"

text \<open>The loop over the runes of \<open>v\<close>, with the counters \<open>dot\<close> and \<open>digit\<close>.\<close>

fun decimal_loop :: "nat \<Rightarrow> nat \<Rightarrow> nat list \<Rightarrow> bool" where
  "decimal_loop dot digit [] = (digit > 0)"
| "decimal_loop dot digit (r # rs) =
     (if r = 46 then (if dot + 1 > 1 then False else decimal_loop (dot + 1) digit rs)
      else if 48 \<le> r \<and> r \<le> 57 then decimal_loop dot (digit + 1) rs
      else False)"

definition looksLikeDecimal :: "string \<Rightarrow> bool" where
  "looksLikeDecimal v = decimal_loop 0 0 (runes v)"

definition decimal_msg :: string where
  "decimal_msg = ''amount_decimal must look like a decimal number (e.g. '' @ [CHR 0x22] @ ''19.99''
     @ [CHR 0x22] @ '')''"

definition currency_msg :: string where
  "currency_msg = ''currency must be a 3-letter ISO code (e.g. '' @ [CHR 0x22] @ ''USD''
     @ [CHR 0x22] @ '')''"

definition ValidateProductBase :: "Product \<Rightarrow> ValidationResult" where
  "ValidateProductBase p =
     (let res = empty_result;
          res = requireNonEmpty ''product_key'' (ProductKey p) res;
          res = requireNonEmpty ''title'' (Title p) res;
          res = requireNonEmpty ''description'' (Description p) res;
          res = requireNonEmpty ''link'' (Link p) res;
          res = requireNonEmpty ''image_link'' (ImageLink p) res;
          res = requireNonEmpty ''condition'' (Condition p) res;
          res = requireNonEmpty ''availability'' (Availability p) res;
          res = requireNonEmpty ''price.amount_decimal'' (AmountDecimal (Price p)) res;
          res = requireNonEmpty ''price.currency'' (Currency (Price p)) res;
          res = (if AmountDecimal (Price p) \<noteq> '''' \<and> \<not> looksLikeDecimal (AmountDecimal (Price p))
                 then addIssue ''price.amount_decimal'' ''invalid_decimal'' decimal_msg res else res);
          res = (if Currency (Price p) \<noteq> '''' \<and> length (Currency (Price p)) \<noteq> 3
                 then addIssue ''price.currency'' ''invalid_currency'' currency_msg res else res)
      in res)"

definition validateControlState ::
  "string \<Rightarrow> ChannelLifecycleState \<Rightarrow> ValidationResult \<Rightarrow> ValidationResult" where
  "validateControlState path state res =
     (if state = ChannelStateActive \<or> state = ChannelStateInactive \<or> state = ChannelStateDelete
      then res
      else addIssue path ''invalid_state'' ''state must be one of: active, inactive, delete'' res)"

definition missing_block_msg :: "string \<Rightarrow> string" where
  "missing_block_msg ch = ch @ '' channel block is required because '' @ ch @ '' is enabled for this feed''"

text \<open>One iteration of the loop over the enabled channels.\<close>

definition validate_channel :: "Product \<Rightarrow> string \<Rightarrow> ValidationResult \<Rightarrow> ValidationResult" where
  "validate_channel p ch res =
     (if ch = ''google'' then
        (case Google (Channel p) of
           None \<Rightarrow> addIssue ''channel.google'' ''missing_channel_block'' (missing_block_msg ''google'') res
         | Some g \<Rightarrow> validateControlState ''channel.google.control.state'' (State (GoogleControl g)) res)
      else if ch = ''meta'' then
        (case Meta (Channel p) of
           None \<Rightarrow> addIssue ''channel.meta'' ''missing_channel_block'' (missing_block_msg ''meta'') res
         | Some m \<Rightarrow> validateControlState ''channel.meta.control.state'' (State (MetaControl m)) res)
      else if ch = ''yotpo'' then
        (case Yotpo (Channel p) of
           None \<Rightarrow> addIssue ''channel.yotpo'' ''missing_channel_block'' (missing_block_msg ''yotpo'') res
         | Some y \<Rightarrow> validateControlState ''channel.yotpo.control.state'' (State (YotpoControl y)) res)
      else addIssue (''channel.'' @ ch) ''unknown_channel''
             ''channel is enabled but not recognized by this service version'' res)"

definition enabled_set :: "string list \<Rightarrow> string list" where
  "enabled_set enabledChannels = remdups (map (\<lambda>c. ToLower (TrimSpace c)) enabledChannels)"

definition ValidateChannelControls ::
  "string permuter \<Rightarrow> Product \<Rightarrow> string list \<Rightarrow> ValidationResult" where
  "ValidateChannelControls rng p enabledChannels =
     fold (validate_channel p) (rng (enabled_set enabledChannels)) empty_result"

section \<open>Issues accumulate\<close>

lemma Issues_addIssue [simp]:
  "Issues (addIssue path code msg res) = Issues res @ [\<lparr>Path = path, Code = code, Message = msg\<rparr>]"
  by (simp add: addIssue_def)

lemma IsValid_iff: "IsValid r \<longleftrightarrow> Issues r = []"
  by (simp add: IsValid_def)

lemma IsValid_empty [simp]: "IsValid empty_result"
  by (simp add: IsValid_iff empty_result_def)

lemma IsValid_addIssue [simp]: "\<not> IsValid (addIssue path code msg res)"
  by (simp add: IsValid_iff)

lemma IsValid_requireNonEmpty [simp]:
  "IsValid (requireNonEmpty path v res) \<longleftrightarrow> TrimSpace v \<noteq> '''' \<and> IsValid res"
  by (simp add: requireNonEmpty_def)

definition valid_state :: "ChannelLifecycleState \<Rightarrow> bool" where
  "valid_state st \<longleftrightarrow> st \<in> {ChannelStateActive, ChannelStateInactive, ChannelStateDelete}"

text \<open>What a product must have for an enabled channel.\<close>

definition channel_ok :: "Product \<Rightarrow> string \<Rightarrow> bool" where
  "channel_ok p ch \<longleftrightarrow>
     ch = ''google'' \<and> (\<exists>g. Google (Channel p) = Some g \<and> valid_state (State (GoogleControl g))) \<or>
     ch = ''meta'' \<and> (\<exists>m. Meta (Channel p) = Some m \<and> valid_state (State (MetaControl m))) \<or>
     ch = ''yotpo'' \<and> (\<exists>y. Yotpo (Channel p) = Some y \<and> valid_state (State (YotpoControl y)))"

lemma IsValid_validateControlState [simp]:
  "IsValid (validateControlState path st res) \<longleftrightarrow> valid_state st \<and> IsValid res"
  by (auto simp: validateControlState_def valid_state_def)

lemma IsValid_validate_channel [simp]:
  "IsValid (validate_channel p ch res) \<longleftrightarrow> channel_ok p ch \<and> IsValid res"
  by (auto simp: validate_channel_def channel_ok_def split: option.splits)

lemma IsValid_fold_validate:
  "IsValid (fold (validate_channel p) chs res) \<longleftrightarrow> (\<forall>ch \<in> set chs. channel_ok p ch) \<and> IsValid res"
  by (induction chs arbitrary: res) auto

text \<open>Each channel adds at most one issue, whatever was found before it.\<close>

lemma validate_channel_Issues:
  "Issues (validate_channel p ch res) = Issues res @ Issues (validate_channel p ch empty_result)"
  by (auto simp: validate_channel_def validateControlState_def empty_result_def split: option.splits)

lemma fold_validate_Issues:
  "Issues (fold (validate_channel p) chs res) =
     Issues res @ concat (map (\<lambda>ch. Issues (validate_channel p ch empty_result)) chs)"
proof (induction chs arbitrary: res)
  case (Cons ch chs)
  then show ?case
    using validate_channel_Issues [of p ch res] by simp
qed simp

section \<open>Decimals\<close>

lemma decimal_loop_iff:
  "decimal_loop k d rs \<longleftrightarrow>
     (\<forall>r \<in> set rs. 48 \<le> r \<and> r \<le> 57 \<or> r = 46) \<and> (count_list rs 46 = 0 \<or> k + count_list rs 46 \<le> 1)
     \<and> (0 < d \<or> (\<exists>r \<in> set rs. 48 \<le> r \<and> r \<le> 57))"
  by (induction k d rs rule: decimal_loop.induct) auto

text \<open>\<open>looksLikeDecimal\<close> accepts exactly the texts made of ASCII digits and at most one
  dot with at least one digit; signs, exponents, spaces and other characters are refused.\<close>

lemma looksLikeDecimal_iff:
  "looksLikeDecimal v \<longleftrightarrow>
     (\<forall>c \<in> set v. is_digit c \<or> c = CHR ''.'') \<and> count_list v CHR ''.'' \<le> 1 \<and> (\<exists>c \<in> set v. is_digit c)"
proof (cases "ascii v")
  case True
  have "count_list (map byte v) 46 = count_list v CHR ''.''"
    by (induction v) (auto simp: byte_dot)
  with True show ?thesis
    by (auto simp: looksLikeDecimal_def runes_ascii decimal_loop_iff is_digit_def byte_dot)
next
  case False
  then obtain c where "c \<in> set v" "\<not> byte c < 128" by (auto simp: ascii_def)
  moreover have "\<not> looksLikeDecimal v"
    using runes_non_ascii [OF False] by (force simp: looksLikeDecimal_def decimal_loop_iff)
  moreover have "\<not> (is_digit c \<or> c = CHR ''.'')"
    using \<open>\<not> byte c < 128\<close> by (auto simp: is_digit_def)
  ultimately show ?thesis by blast
qed

lemma IsValid_base_iff:
  "IsValid (ValidateProductBase p) \<longleftrightarrow>
     (\<forall>v \<in> {ProductKey p, Title p, Description p, Link p, ImageLink p, Condition p, Availability p,
            AmountDecimal (Price p), Currency (Price p)}. TrimSpace v \<noteq> '''') \<and>
     looksLikeDecimal (AmountDecimal (Price p)) \<and> length (Currency (Price p)) = 3"
  by (auto simp: ValidateProductBase_def Let_def)

lemma IsValid_channels_iff:
  assumes "is_permuter rng"
  shows "IsValid (ValidateChannelControls rng p enabled) \<longleftrightarrow>
     (\<forall>c \<in> set enabled. channel_ok p (ToLower (TrimSpace c)))"
  by (simp add: ValidateChannelControls_def IsValid_fold_validate permuter_set [OF assms] enabled_set_def)

section \<open>Properties\<close>

text \<open>(C31) \<open>ValidateProductBase\<close> accepts a product exactly when every required field is more than
  white space, the amount consists of ASCII digits and at most one dot with at least one digit (no
  sign, exponent or space), and the currency code has three bytes, whichever they are.\<close>

theorem validate_base_iff:
  "IsValid (ValidateProductBase p) \<longleftrightarrow>
     (\<forall>v \<in> {ProductKey p, Title p, Description p, Link p, ImageLink p, Condition p, Availability p,
            AmountDecimal (Price p), Currency (Price p)}. TrimSpace v \<noteq> '''') \<and>
     (\<forall>c \<in> set (AmountDecimal (Price p)). c \<in> set ''0123456789.'') \<and> count_list (AmountDecimal (Price p)) CHR ''.'' \<le> 1 \<and>
     (\<exists>c \<in> set (AmountDecimal (Price p)). c \<in> set ''0123456789'') \<and> length (Currency (Price p)) = 3"
proof -
  have digit: "is_digit c \<longleftrightarrow> c \<in> set ''0123456789''" for c
  proof -
    have "is_digit c \<longleftrightarrow> byte c \<in> byte ` set ''0123456789''" by (simp add: is_digit_def) arith
    also have "\<dots> \<longleftrightarrow> c \<in> set ''0123456789''" by (rule inj_image_mem_iff) (simp add: inj_def)
    finally show ?thesis .
  qed
  show ?thesis unfolding IsValid_base_iff looksLikeDecimal_iff digit by auto
qed

theorem validate_base_iff_witness:
  "IsValid (ValidateProductBase (zero_Product\<lparr>ProductKey := ''k'', Title := ''t'', Description := ''d'', Link := ''l'', ImageLink := ''i'',
     Condition := ''new'', Availability := ''in_stock'', Price := \<lparr>AmountDecimal = ''.5'', Currency = ''1$?''\<rparr>\<rparr>)) \<and>
   \<not> IsValid (ValidateProductBase (zero_Product\<lparr>ProductKey := ''k'', Title := ''t'', Description := ''d'', Link := ''l'', ImageLink := ''i'',
     Condition := ''new'', Availability := ''in_stock'', Price := \<lparr>AmountDecimal = ''1e3'', Currency = ''USD''\<rparr>\<rparr>))"
  unfolding validate_base_iff by (simp add: TrimSpace_id)

text \<open>(C32) Channel validation: a product passes exactly when, for every enabled channel name
  (compared without surrounding space and case), it carries that channel's block with one of
  the three lifecycle states; the outcome does not depend on the order of iteration.\<close>

theorem validate_channels_iff:
  assumes "is_permuter rng"
  shows "IsValid (ValidateChannelControls rng p enabled) \<longleftrightarrow>
     (\<forall>c \<in> set enabled. channel_ok p (ToLower (TrimSpace c)))"
  using assms by (rule IsValid_channels_iff)

theorem validate_channels_iff_witness:
  "\<not> IsValid (ValidateChannelControls rev zero_Product [''google'', ''meta''])"
  using validate_channels_iff [OF permuter_rev, of zero_Product "[''google'', ''meta'']"]
  by (auto simp add: channel_ok_def zero_Product_def zero_ChannelFields_def TrimSpace_id ToLower_ascii
      char_to_lower_def)

text \<open>The issues of channel validation are, up to order, one block per distinct enabled
  channel: which issues are reported does not depend on the order of iteration.\<close>

theorem validate_channels_issues:
  assumes "is_permuter rng"
  shows "mset (Issues (ValidateChannelControls rng p enabled)) =
    (\<Sum>ch\<in>#mset (enabled_set enabled). mset (Issues (validate_channel p ch empty_result)))"
proof -
  have c: "mset (concat (map f xs)) = (\<Sum>x\<in>#mset xs. mset (f x))" for f :: "string \<Rightarrow> ValidationIssue list" and xs
    by (induction xs) auto
  show ?thesis
    by (simp add: ValidateChannelControls_def fold_validate_Issues c permuter_mset [OF assms])
      (simp add: empty_result_def)
qed

theorem validate_channels_issues_witness:
  "size (mset (Issues (ValidateChannelControls rev zero_Product [''google'', ''meta'']))) = 2"
  using validate_channels_issues [OF permuter_rev, of zero_Product "[''google'', ''meta'']"]
  by (simp add: enabled_set_def TrimSpace_id ToLower_ascii char_to_lower_def validate_channel_def
      zero_Product_def zero_ChannelFields_def empty_result_def)

end
