(* ===== verification/Sha256.thy ===== *)
theory Sha256
  imports Go_Unicode
begin

unbundle bit_operations_syntax

text \<open>
  SHA-256 (FIPS 180-4), the \<open>crypto/sha256\<close> function the program hashes products and
  idempotency keys with, on byte strings.
\<close>

type_synonym u32 = "32 word"

text \<open>The round constants and the initial state: the first 32 bits of the fractional parts of the
  cube and square roots of the first primes, in decimal.\<close>

definition sha_k :: "u32 list" where
  "sha_k = [
    1116352408, 1899447441, 3049323471, 3921009573, 961987163, 1508970993,
    2453635748, 2870763221, 3624381080, 310598401, 607225278, 1426881987,
    1925078388, 2162078206, 2614888103, 3248222580, 3835390401, 4022224774,
    264347078, 604807628, 770255983, 1249150122, 1555081692, 1996064986,
    2554220882, 2821834349, 2952996808, 3210313671, 3336571891, 3584528711,
    113926993, 338241895, 666307205, 773529912, 1294757372, 1396182291,
    1695183700, 1986661051, 2177026350, 2456956037, 2730485921, 2820302411,
    3259730800, 3345764771, 3516065817, 3600352804, 4094571909, 275423344,
    430227734, 506948616, 659060556, 883997877, 958139571, 1322822218,
    1537002063, 1747873779, 1955562222, 2024104815, 2227730452, 2361852424,
    2428436474, 2756734187, 3204031479, 3329325298]"

definition sha_init :: "u32 list" where
  "sha_init = [
    1779033703, 3144134277, 1013904242, 2773480762, 1359893119, 2600822924,
    528734635, 1541459225]"

definition sha_ch :: "u32 \<Rightarrow> u32 \<Rightarrow> u32 \<Rightarrow> u32" where
  "sha_ch x y z = (x AND y) XOR (NOT x AND z)"

definition sha_maj :: "u32 \<Rightarrow> u32 \<Rightarrow> u32 \<Rightarrow> u32" where
  "sha_maj x y z = (x AND y) XOR (x AND z) XOR (y AND z)"

definition sha_S0 :: "u32 \<Rightarrow> u32" where
  "sha_S0 x = word_rotr 2 x XOR word_rotr 13 x XOR word_rotr 22 x"

definition sha_S1 :: "u32 \<Rightarrow> u32" where
  "sha_S1 x = word_rotr 6 x XOR word_rotr 11 x XOR word_rotr 25 x"

definition sha_s0 :: "u32 \<Rightarrow> u32" where
  "sha_s0 x = word_rotr 7 x XOR word_rotr 18 x XOR drop_bit 3 x"

definition sha_s1 :: "u32 \<Rightarrow> u32" where
  "sha_s1 x = word_rotr 17 x XOR word_rotr 19 x XOR drop_bit 10 x"

text \<open>Padding: a one bit, zeros, and the length in bits as a 64-bit big-endian number.\<close>

definition be_bytes :: "nat \<Rightarrow> nat \<Rightarrow> nat list" where
  "be_bytes k n = map (\<lambda>i. n div 256 ^ (k - 1 - i) mod 256) [0..<k]"

definition sha_pad :: "string \<Rightarrow> nat list" where
  "sha_pad s = map of_char s @ [128] @ replicate ((119 - length s mod 64) mod 64) 0
     @ be_bytes 8 (8 * length s)"

definition be_word :: "nat list \<Rightarrow> u32" where
  "be_word bs = word_of_nat (foldl (\<lambda>n b. 256 * n + b) 0 bs)"

fun be_words :: "nat list \<Rightarrow> u32 list" where
  "be_words (a # b # c # d # bs) = be_word [a, b, c, d] # be_words bs"
| "be_words _ = []"

text \<open>The message schedule, newest word first.\<close>

fun sha_extend :: "nat \<Rightarrow> u32 list \<Rightarrow> u32 list" where
  "sha_extend 0 ws = ws"
| "sha_extend (Suc n) ws =
     sha_extend n ((sha_s1 (ws ! 1) + ws ! 6 + sha_s0 (ws ! 14) + ws ! 15) # ws)"

definition sha_schedule :: "u32 list \<Rightarrow> u32 list" where
  "sha_schedule block = rev (sha_extend 48 (rev block))"

fun sha_round :: "u32 list \<Rightarrow> u32 \<times> u32 \<Rightarrow> u32 list" where
  "sha_round [a, b, c, d, e, f, g, h] (k, w) =
     (let t1 = h + sha_S1 e + sha_ch e f g + k + w; t2 = sha_S0 a + sha_maj a b c
      in [t1 + t2, a, b, c, d + t1, e, f, g])"
| "sha_round st _ = st"

definition sha_compress :: "u32 list \<Rightarrow> u32 list \<Rightarrow> u32 list" where
  "sha_compress st block = map2 (+) st (foldl sha_round st (zip sha_k (sha_schedule block)))"

fun sha_blocks :: "nat \<Rightarrow> u32 list \<Rightarrow> u32 list \<Rightarrow> u32 list" where
  "sha_blocks 0 ws st = st"
| "sha_blocks (Suc n) ws st = sha_blocks n (drop 16 ws) (sha_compress st (take 16 ws))"

definition Sum256 :: "string \<Rightarrow> string" where
  "Sum256 s =
     (let ws = be_words (sha_pad s); st = sha_blocks (length ws div 16) ws sha_init
      in concat (map (\<lambda>w. map char_of (be_bytes 4 (unat w))) st))"

section \<open>The digest has 32 bytes\<close>

lemma length_sha_round: "length st = 8 \<Longrightarrow> length (sha_round st kw) = 8"
  by (induction st kw rule: sha_round.induct) (auto simp: Let_def)

lemma length_foldl_sha_round: "length st = 8 \<Longrightarrow> length (foldl sha_round st kws) = 8"
  by (induction kws arbitrary: st) (auto simp: length_sha_round)

lemma length_sha_blocks: "length st = 8 \<Longrightarrow> length (sha_blocks n ws st) = 8"
  by (induction n ws st rule: sha_blocks.induct)
    (auto simp: sha_compress_def length_foldl_sha_round)

lemma length_concat_const: "(\<And>x. length (f x) = k) \<Longrightarrow> length (concat (map f xs)) = k * length xs"
  by (induction xs) auto

lemma length_Sum256 [simp]: "length (Sum256 s) = 32"
proof -
  have "length (sha_blocks n ws sha_init) = 8" for n ws
    by (rule length_sha_blocks) (simp add: sha_init_def)
  then show ?thesis
    by (simp add: Sum256_def Let_def length_concat_const [where k = 4] be_bytes_def)
qed

text \<open>\<open>hex.EncodeToString(sha256.Sum256(...))\<close>, the form in which every digest is used.\<close>

definition sha256_hex :: "string \<Rightarrow> string" where
  "sha256_hex s = EncodeToString (Sum256 s)"

lemma length_sha256_hex [simp]: "length (sha256_hex s) = 64"
  by (simp add: sha256_hex_def)

lemma sha256_hex_nonempty [simp]: "sha256_hex s \<noteq> []" "[] \<noteq> sha256_hex s"
  using length_sha256_hex [of s] by (auto simp del: length_sha256_hex)

lemma sha256_hex_eq_iff: "sha256_hex s = sha256_hex t \<longleftrightarrow> Sum256 s = Sum256 t"
  by (auto simp: sha256_hex_def dest: EncodeToString_inj)

end
