(* ===== verification/Hash.thy ===== *)
theory Hash
  imports Domain Sha256
begin

text \<open>
  \<open>internal/ingest/hash.go\<close>: the canonical document of a product and its digest. The document
  is a dynamic value of type \<open>any\<close>; \<open>marshal\<close> writes it with sorted keys and \<open>sha256_hex\<close>
  digests the bytes. The main lemma is that the document is canonical: two products get the
  same one exactly when they have the same content.
\<close>

section \<open>Operations\<close>

definition money_map :: "Money \<Rightarrow> any" where
  "money_map m = AMap [(''amount_decimal'', AStr (AmountDecimal m)), (''currency'', AStr (Currency m))]"

definition salePriceMap :: "Money option \<Rightarrow> any" where
  "salePriceMap m = (case m of None \<Rightarrow> ANil | Some m \<Rightarrow> money_map m)"

definition kv_entry :: "string \<Rightarrow> any \<Rightarrow> any" where
  "kv_entry k v = AMap [(''k'', AStr k), (''v'', v)]"

definition sortedStringMap :: "(string, string) gomap \<Rightarrow> any list" where
  "sortedStringMap m =
     (if length m = 0 then []
      else let keys = sort (map fst m)
           in map (\<lambda>k. kv_entry k (AStr (case map_of m k of Some v \<Rightarrow> v | None \<Rightarrow> ''''))) keys)"

definition sortedAnyMap :: "(string, any) gomap \<Rightarrow> any list" where
  "sortedAnyMap m =
     (if length m = 0 then []
      else let keys = sort (map fst m)
           in map (\<lambda>k. kv_entry k (case map_of m k of Some v \<Rightarrow> v | None \<Rightarrow> ANil)) keys)"

definition control_map :: "ChannelControl \<Rightarrow> any" where
  "control_map c = AMap [(''control'', AMap [(''state'', AStr (State c))])]"

definition channel_map :: "ChannelFields \<Rightarrow> any" where
  "channel_map ch = AMap
     ((case Google ch of None \<Rightarrow> [] | Some g \<Rightarrow> [(''google'', control_map (GoogleControl g))]) @
      (case Meta ch of None \<Rightarrow> [] | Some m \<Rightarrow> [(''meta'', control_map (MetaControl m))]) @
      (case Yotpo ch of None \<Rightarrow> [] | Some y \<Rightarrow> [(''yotpo'', control_map (YotpoControl y))]))"

definition normalizeForHash :: "Product \<Rightarrow> any" where
  "normalizeForHash p =
     (let additional = sort (AdditionalImageLinks p);
          options = sortedStringMap (Options p);
          attrs = sortedAnyMap (Attributes p);
          ch = channel_map (Channel p)
      in AMap
        [(''product_key'', AStr (ProductKey p)), (''group_key'', AStr (GroupKey p)),
         (''title'', AStr (Title p)), (''description'', AStr (Description p)),
         (''link'', AStr (Link p)), (''image_link'', AStr (ImageLink p)),
         (''additional_image_links'', AList (map AStr additional)),
         (''brand'', AStr (Brand p)), (''gtin'', AStr (GTIN p)), (''mpn'', AStr (MPN p)),
         (''condition'', AStr (Condition p)), (''availability'', AStr (Availability p)),
         (''price'', money_map (Price p)), (''sale_price'', salePriceMap (SalePrice p)),
         (''options'', AList options), (''attributes'', AList attrs), (''channel'', ch)])"

definition HashNormalized :: "Product \<Rightarrow> string res" where
  "HashNormalized p = bind_res (marshal (normalizeForHash p)) (\<lambda>b. Inr (sha256_hex b))"

section \<open>Equality of dynamic values\<close>

text \<open>For maps that hold each key once, \<open>go_eq\<close> is equality of the normal forms.\<close>

lemma sort_entries_eq_iff:
  assumes "wf_gomap m" "wf_gomap n"
  shows "sort_key fst m = sort_key fst n \<longleftrightarrow> map_of m = map_of n"
proof
  assume "sort_key fst m = sort_key fst n"
  then have "mset m = mset n" by (metis mset_sort)
  then show "map_of m = map_of n" by (rule map_of_eqI_mset [OF assms(1)])
next
  assume "map_of m = map_of n"
  then have "mset m = mset (sort_key fst n)" using wf_gomap_mset_eq [OF assms] by simp
  then show "sort_key fst m = sort_key fst n"
    using assms(1) by (intro sort_key_inj_key_eq) (auto simp: wf_gomap_def distinct_map)
qed

lemma canon_map_eq:
  assumes "wf_gomap m" "wf_gomap n"
  shows "canon_any (AMap m) = canon_any (AMap n) \<longleftrightarrow> map_option canon_any \<circ> map_of m = map_option canon_any \<circ> map_of n"
proof -
  have "map_of (map (\<lambda>(k, v). (k, canon_any v)) l) = map_option canon_any \<circ> map_of l" for l :: "(string \<times> any) list"
    by (rule map_of_map)
  moreover have "wf_gomap (map (\<lambda>(k, v). (k, canon_any v)) l) = wf_gomap l" for l :: "(string \<times> any) list"
    by (simp add: wf_gomap_def case_prod_beta comp_def)
  ultimately show ?thesis
    using assms sort_entries_eq_iff [of "map (\<lambda>(k, v). (k, canon_any v)) m" "map (\<lambda>(k, v). (k, canon_any v)) n"] by simp
qed

lemma same_dom:
  assumes "wf_gomap m" "wf_gomap n" "length m = length n" "fst ` set m \<subseteq> fst ` set n"
  shows "fst ` set m = fst ` set n"
proof (rule card_subset_eq [OF _ assms(4)])
  have "card (fst ` set l) = length l" if "wf_gomap l" for l :: "('a, 'c) gomap"
    using that by (metis distinct_card length_map list.set_map wf_gomap_def)
  moreover have "card (fst ` set l) = length l" if "wf_gomap l" for l :: "('a, 'b) gomap"
    using that by (metis distinct_card length_map list.set_map wf_gomap_def)
  ultimately show "card (fst ` set m) = card (fst ` set n)" using assms by simp
qed simp

lemma go_eq_map:
  assumes "wf_gomap m" "wf_gomap n" "\<And>k x y. (k, x) \<in> set m \<Longrightarrow> map_of n k = Some y \<Longrightarrow> go_eq x y \<longleftrightarrow> canon_any x = canon_any y"
  shows "go_eq (AMap m) (AMap n) \<longleftrightarrow> canon_any (AMap m) = canon_any (AMap n)"
  unfolding canon_map_eq [OF assms(1,2)]
proof
  assume eq: "go_eq (AMap m) (AMap n)"
  then have each: "\<exists>y. map_of n k = Some y \<and> canon_any x = canon_any y" if "(k, x) \<in> set m" for k x
    using that assms(3) by (fastforce simp: list_all_iff split: option.splits)
  then have "fst ` set m \<subseteq> fst ` set n" by (force dest: map_of_SomeD)
  then have dom: "fst ` set m = fst ` set n" using same_dom [OF assms(1,2)] eq by simp
  show "map_option canon_any \<circ> map_of m = map_option canon_any \<circ> map_of n"
  proof
    fix k
    show "(map_option canon_any \<circ> map_of m) k = (map_option canon_any \<circ> map_of n) k"
    proof (cases "map_of m k")
      case None
      then have "map_of n k = None" using dom by (metis map_of_eq_None_iff)
      with None show ?thesis by simp
    next
      case (Some x)
      then show ?thesis using each [OF map_of_SomeD [OF Some]] by auto
    qed
  qed
next
  assume eq: "map_option canon_any \<circ> map_of m = map_option canon_any \<circ> map_of n"
  have k: "map_option canon_any (map_of m k) = map_option canon_any (map_of n k)" for k
    using fun_cong [OF eq, of k] by simp
  have "map_of m k = None \<longleftrightarrow> map_of n k = None" for k using k by (metis option.map_disc_iff)
  then have "dom (map_of m) = dom (map_of n)" by (simp add: dom_def)
  then have "length m = length n"
    using assms(1,2) by (metis distinct_card dom_map_of_conv_image_fst length_map list.set_map wf_gomap_def)
  moreover have "\<exists>y. map_of n k = Some y \<and> go_eq x y" if x: "(k, x) \<in> set m" for k x
  proof -
    have "map_of m k = Some x" using assms(1) x by (simp add: wf_gomap_def)
    then obtain y where "map_of n k = Some y" "canon_any x = canon_any y"
      using k [of k] by (cases "map_of n k") auto
    then show ?thesis using assms(3) [OF x] by blast
  qed
  ultimately show "go_eq (AMap m) (AMap n)" by (fastforce simp: list_all_iff)
qed

lemma go_eq_list:
  assumes "\<And>x y. x \<in> set vs \<Longrightarrow> y \<in> set ws \<Longrightarrow> go_eq x y \<longleftrightarrow> canon_any x = canon_any y"
  shows "go_eq (AList vs) (AList ws) \<longleftrightarrow> map canon_any vs = map canon_any ws"
proof -
  have "go_eq (AList vs) (AList ws) \<longleftrightarrow> list_all2 go_eq vs ws" by (simp add: list_all2_iff list_all_iff)
  also have "\<dots> \<longleftrightarrow> list_all2 (\<lambda>x y. canon_any x = canon_any y) vs ws"
    using assms by (intro list.rel_cong refl) auto
  also have "\<dots> \<longleftrightarrow> map canon_any vs = map canon_any ws"
    by (simp only: map_eq_list_all2)
  finally show ?thesis .
qed

lemma go_eq_canon: "wf_any v \<Longrightarrow> wf_any w \<Longrightarrow> go_eq v w \<longleftrightarrow> canon_any v = canon_any w"
proof (induction v arbitrary: w)
  case (AList vs)
  show ?case
  proof (cases w)
    case w: (AList ws)
    have "go_eq x y \<longleftrightarrow> canon_any x = canon_any y" if "x \<in> set vs" "y \<in> set ws" for x y
      using AList w that by (simp add: list_all_iff)
    then have "go_eq (AList vs) (AList ws) \<longleftrightarrow> map canon_any vs = map canon_any ws" by (rule go_eq_list)
    with w show ?thesis by simp
  qed simp_all
next
  case (AMap ms)
  show ?case
  proof (cases w)
    case w: (AMap ns)
    have "go_eq x y \<longleftrightarrow> canon_any x = canon_any y" if "(k, x) \<in> set ms" "map_of ns k = Some y" for k x y
      using AMap.IH [of "(k, x)" x y] AMap.prems w that by (fastforce simp: list_all_iff dest: map_of_SomeD)
    then show ?thesis using go_eq_map [of ms ns] AMap.prems w by simp
  qed simp_all
qed (case_tac w; auto)+

text \<open>The encoder writes the normal form: it sorts the keys of every map.\<close>

lemma marshal_canon: "marshal_opt (canon_any v) = marshal_opt v"
proof (induction v)
  case (AList vs)
  then have "map (marshal_opt \<circ> canon_any) vs = map marshal_opt vs" by (intro map_cong refl) simp
  then show ?case by (simp only: canon_any.simps marshal_opt.simps map_map)
next
  case (AMap ms)
  have "map (\<lambda>(k, v). (k, marshal_opt v)) (sort_key fst (map (\<lambda>(k, v). (k, canon_any v)) ms)) =
      sort_key fst (map (\<lambda>(k, v). (k, marshal_opt v)) (map (\<lambda>(k, v). (k, canon_any v)) ms))"
    by (rule sort_key_map) auto
  moreover have "map (\<lambda>(k, v). (k, marshal_opt v)) (map (\<lambda>(k, v). (k, canon_any v)) ms) = map (\<lambda>(k, v). (k, marshal_opt v)) ms"
    using AMap by (auto simp: snds.simps)
  moreover have "sort_key fst (sort_key fst xs) = sort_key fst xs" for xs :: "(string \<times> string option) list"
    by (rule sort_key_id_if_sorted) simp
  ultimately show ?case by (simp only: canon_any.simps marshal_opt.simps)
qed simp_all

lemma marshal_go_eq: "wf_any v \<Longrightarrow> wf_any w \<Longrightarrow> go_eq v w \<Longrightarrow> marshal v = marshal w"
  using go_eq_canon marshal_canon by (metis marshal_def)

section \<open>The canonical document\<close>

text \<open>Both map encodings are the sorted list of the entries.\<close>

definition sorted_entries :: "('v \<Rightarrow> any) \<Rightarrow> (string, 'v) gomap \<Rightarrow> any list" where
  "sorted_entries f m = map (\<lambda>k. kv_entry k (f (the (map_of m k)))) (sort (map fst m))"

lemma map_of_case:
  "k \<in> fst ` set m \<Longrightarrow> (case map_of m k of Some v \<Rightarrow> v | None \<Rightarrow> d) = the (map_of m k)"
  by (cases "map_of m k") (auto simp: map_of_eq_None_iff)

lemma sortedStringMap_entries: "sortedStringMap m = sorted_entries AStr m"
  by (auto simp: sortedStringMap_def sorted_entries_def Let_def map_of_case image_iff Bex_def)

lemma sortedAnyMap_entries: "sortedAnyMap m = sorted_entries (\<lambda>v. v) m"
  by (auto simp: sortedAnyMap_def sorted_entries_def Let_def map_of_case image_iff Bex_def)

lemma canon_same_keys:
  assumes "map fst ms = map fst ns" "distinct (map fst ms)"
  shows "canon_any (AMap ms) = canon_any (AMap ns) \<longleftrightarrow> map (canon_any \<circ> snd) ms = map (canon_any \<circ> snd) ns"
proof -
  have wf: "wf_gomap ms" "wf_gomap ns" using assms by (simp_all add: wf_gomap_def)
  have vals: "map (canon_any \<circ> snd) l = map (\<lambda>k. the (map_option canon_any (map_of l k))) (map fst l)"
    if "wf_gomap l" for l :: "(string \<times> any) list"
    using that by (auto simp: wf_gomap_def)
  show ?thesis
  proof
    assume "canon_any (AMap ms) = canon_any (AMap ns)"
    then have "map_option canon_any (map_of ms k) = map_option canon_any (map_of ns k)" for k
      unfolding canon_map_eq [OF wf] by (metis comp_apply)
    then show "map (canon_any \<circ> snd) ms = map (canon_any \<circ> snd) ns"
      unfolding vals [OF wf(1)] vals [OF wf(2)] by (simp add: assms(1))
  next
    assume "map (canon_any \<circ> snd) ms = map (canon_any \<circ> snd) ns"
    then have "map (\<lambda>(k, v). (k, canon_any v)) ms = map (\<lambda>(k, v). (k, canon_any v)) ns"
      using assms(1) by (induction ms ns rule: list_induct2') auto
    then show "canon_any (AMap ms) = canon_any (AMap ns)" by simp
  qed
qed

lemma canon_kv_entry [simp]:
  "canon_any (kv_entry k v) = canon_any (kv_entry k' v') \<longleftrightarrow> k = k' \<and> canon_any v = canon_any v'"
  unfolding kv_entry_def by (subst canon_same_keys) auto

lemma canon_sorted_entries:
  assumes "wf_gomap m" "wf_gomap n"
  shows "map canon_any (sorted_entries f m) = map canon_any (sorted_entries f n) \<longleftrightarrow>
    map_option (canon_any \<circ> f) \<circ> map_of m = map_option (canon_any \<circ> f) \<circ> map_of n"
proof
  assume eq: "map_option (canon_any \<circ> f) \<circ> map_of m = map_option (canon_any \<circ> f) \<circ> map_of n"
  then have k: "map_option (canon_any \<circ> f) (map_of m k) = map_option (canon_any \<circ> f) (map_of n k)" for k by (metis comp_apply)
  then have "map_of m k = None \<longleftrightarrow> map_of n k = None" for k by (metis option.map_disc_iff)
  then have dom: "fst ` set m = fst ` set n" by (auto simp: map_of_eq_None_iff)
  then have "mset (map fst m) = mset (map fst n)"
    using assms by (intro iffD1 [OF set_eq_iff_mset_eq_distinct]) (simp_all add: wf_gomap_def)
  then have keys: "sort (map fst m) = sort (map fst n)" by (rule sort_mset_eq)
  have "canon_any (kv_entry k (f (the (map_of m k)))) = canon_any (kv_entry k (f (the (map_of n k))))" if "k \<in> fst ` set m" for k
  proof -
    have "map_of m k \<noteq> None" "map_of n k \<noteq> None" using that dom by (simp_all add: map_of_eq_None_iff)
    then show ?thesis using k [of k] by auto
  qed
  then show "map canon_any (sorted_entries f m) = map canon_any (sorted_entries f n)"
    by (simp add: sorted_entries_def keys [symmetric])
next
  assume eq: "map canon_any (sorted_entries f m) = map canon_any (sorted_entries f n)"
  then have "list_all2 (\<lambda>k k'. canon_any (kv_entry k (f (the (map_of m k)))) = canon_any (kv_entry k' (f (the (map_of n k')))))
      (sort (map fst m)) (sort (map fst n))"
    by (simp add: sorted_entries_def map_eq_list_all2 comp_def)
  then have both: "list_all2 (\<lambda>k k'. k = k' \<and> canon_any (f (the (map_of m k))) = canon_any (f (the (map_of n k'))))
      (sort (map fst m)) (sort (map fst n))" by simp
  then have keys: "sort (map fst m) = sort (map fst n)"
    using list_all2_mono [OF both, of "(=)"] by (simp add: list.rel_eq)
  then have dom: "fst ` set m = fst ` set n" by (metis list.set_map set_sort)
  have vals: "canon_any (f (the (map_of m k))) = canon_any (f (the (map_of n k)))" if "k \<in> fst ` set m" for k
    using both that unfolding keys [symmetric] by (auto simp: list_all2_same)
  show "map_option (canon_any \<circ> f) \<circ> map_of m = map_option (canon_any \<circ> f) \<circ> map_of n"
  proof
    fix k
    show "(map_option (canon_any \<circ> f) \<circ> map_of m) k = (map_option (canon_any \<circ> f) \<circ> map_of n) k"
    proof (cases "k \<in> fst ` set m")
      case True
      then have "map_of m k \<noteq> None" "map_of n k \<noteq> None" using dom by (simp_all add: map_of_eq_None_iff)
      then show ?thesis using vals [OF True] by auto
    next
      case False
      then have "map_of m k = None" "map_of n k = None" using dom by (simp_all add: map_of_eq_None_iff)
      then show ?thesis by simp
    qed
  qed
qed

lemma map_AStr_eq [simp]: "map AStr xs = map AStr ys \<longleftrightarrow> xs = ys"
  by (simp add: inj_map_eq_map inj_def)

lemma sort_eq_iff_mset: "sort xs = sort ys \<longleftrightarrow> mset xs = mset ys"
  by (metis mset_sort sort_mset_eq)

lemma canon_AStr [simp]: "map canon_any (map AStr xs) = map AStr xs"
  by simp

lemma money_map_eq [simp]: "canon_any (money_map m) = canon_any (money_map n) \<longleftrightarrow> m = n"
  unfolding money_map_def by (subst canon_same_keys) (auto intro: Money.equality)

lemma salePriceMap_eq [simp]: "canon_any (salePriceMap m) = canon_any (salePriceMap n) \<longleftrightarrow> m = n"
proof -
  have "canon_any (money_map x) \<noteq> ANil" for x by (simp add: money_map_def)
  then show ?thesis by (auto simp: salePriceMap_def split: option.split) (metis)+
qed

lemma control_map_eq [simp]: "canon_any (control_map c) = canon_any (control_map d) \<longleftrightarrow> c = d"
  unfolding control_map_def by (cases c; cases d) simp

lemma channel_map_eq [simp]: "canon_any (channel_map c) = canon_any (channel_map d) \<longleftrightarrow> c = d"
proof
  let ?m = "\<lambda>ch. (case Google ch of None \<Rightarrow> [] | Some g \<Rightarrow> [(''google'', control_map (GoogleControl g))]) @
      (case Meta ch of None \<Rightarrow> [] | Some m \<Rightarrow> [(''meta'', control_map (MetaControl m))]) @
      (case Yotpo ch of None \<Rightarrow> [] | Some y \<Rightarrow> [(''yotpo'', control_map (YotpoControl y))])"
  have wf: "wf_gomap (?m ch)" for ch by (simp add: wf_gomap_def split: option.split)
  assume "canon_any (channel_map c) = canon_any (channel_map d)"
  then have k: "map_option canon_any (map_of (?m c) k) = map_option canon_any (map_of (?m d) k)" for k
    unfolding channel_map_def canon_map_eq [OF wf wf] by (metis comp_apply)
  have at: "map_of (?m ch) ''google'' = map_option (control_map \<circ> GoogleControl) (Google ch)"
    "map_of (?m ch) ''meta'' = map_option (control_map \<circ> MetaControl) (Meta ch)"
    "map_of (?m ch) ''yotpo'' = map_option (control_map \<circ> YotpoControl) (Yotpo ch)" for ch
    by (simp_all split: option.split)
  have "Google c = Google d" using k [of "''google''"] unfolding at
    by (cases "Google c"; cases "Google d") (auto intro: GoogleFields.equality)
  moreover have "Meta c = Meta d" using k [of "''meta''"] unfolding at
    by (cases "Meta c"; cases "Meta d") (auto intro: MetaFields.equality)
  moreover have "Yotpo c = Yotpo d" using k [of "''yotpo''"] unfolding at
    by (cases "Yotpo c"; cases "Yotpo d") (auto intro: YotpoFields.equality)
  ultimately show "c = d" by simp
qed simp

section \<open>Finite documents can be written\<close>

fun finite_any :: "any \<Rightarrow> bool" where
  "finite_any (AFloat f) = (case f of Fin _ _ _ \<Rightarrow> True | _ \<Rightarrow> False)"
| "finite_any (AList vs) = list_all finite_any vs"
| "finite_any (AMap ms) = list_all (\<lambda>(k, v). finite_any v) ms"
| "finite_any _ = True"

lemma list_opt_Some: "(\<And>x. x \<in> set xs \<Longrightarrow> x \<noteq> None) \<Longrightarrow> list_opt xs \<noteq> None"
  by (induction xs rule: list_opt.induct) auto

lemma marshal_opt_finite: "finite_any v \<Longrightarrow> marshal_opt v \<noteq> None"
proof (induction v)
  case (AFloat f)
  then show ?case by (cases f) (simp_all add: format_float_def Let_def case_prod_beta)
next
  case (AList vs)
  then have "list_opt (map marshal_opt vs) \<noteq> None"
    by (intro list_opt_Some) (auto simp: list_all_iff)
  then show ?case by simp
next
  case (AMap ms)
  have "list_opt (map (\<lambda>(k, x). map_option (\<lambda>y. quote_str k @ '':'' @ y) x)
          (sort_key fst (map (\<lambda>(k, v). (k, marshal_opt v)) ms))) \<noteq> None"
    using AMap by (intro list_opt_Some) (fastforce simp: list_all_iff)
  then show ?case by simp
qed auto

lemma round_float_Fin: "round_float neg q = Some f \<Longrightarrow> \<exists>m e. f = Fin neg m e"
  by (auto simp: round_float_def Let_def split: if_splits prod.splits)

lemma list_all_update:
  "list_all (\<lambda>(k, v). P v) m \<Longrightarrow> P v \<Longrightarrow> list_all (\<lambda>(k, v). P v) (AList.update k v m)"
  by (induction m) auto

lemma finite_any_of: "finite_any (any_of v)"
proof (induction v)
  case (JNum s)
  show ?case
  proof (cases "ParseFloat s")
    case (Some f)
    then obtain neg q where "round_float neg q = Some f" by (auto simp: ParseFloat_def Let_def)
    then show ?thesis using Some round_float_Fin by fastforce
  qed simp
next
  case (JArr vs)
  then show ?case by (simp add: list_all_iff)
next
  case (JObj ms)
  have "list_all (\<lambda>(k, v). finite_any v) m \<Longrightarrow> set ms' \<subseteq> set ms \<Longrightarrow>
      list_all (\<lambda>(k, v). finite_any v) (fold (\<lambda>(k, v) m. AList.update k (any_of v) m) ms' m)" for ms' m
  proof (induction ms' arbitrary: m)
    case (Cons kv ms')
    then show ?case using JObj [of kv] by (cases kv) (auto intro!: Cons.IH list_all_update)
  qed simp
  then show ?case by simp
qed auto

definition finite_Product :: "Product \<Rightarrow> bool" where
  "finite_Product p \<longleftrightarrow> (\<forall>v \<in> ran (map_of (Attributes p)). finite_any v)"

lemma finite_normalizeForHash:
  assumes "finite_Product p"
  shows "finite_any (normalizeForHash p)"
proof -
  have "list_all finite_any (sortedStringMap (Options p))"
    by (auto simp: sortedStringMap_entries sorted_entries_def kv_entry_def list_all_iff)
  moreover have "list_all finite_any (sortedAnyMap (Attributes p))"
    using assms
    by (auto simp: sortedAnyMap_entries sorted_entries_def kv_entry_def list_all_iff finite_Product_def)
      (metis fst_conv image_eqI map_of_eq_None_iff option.exhaust_sel ranI)
  ultimately show ?thesis
    by (auto simp: normalizeForHash_def money_map_def salePriceMap_def channel_map_def control_map_def
        list_all_iff split: option.split)
qed

lemma HashNormalized_length: "HashNormalized p = Inr h \<Longrightarrow> length h = 64"
  by (auto simp: HashNormalized_def bind_res_eq_Inr)

lemma HashNormalized_nonempty: "HashNormalized p = Inr h \<Longrightarrow> h \<noteq> []"
  using HashNormalized_length by fastforce

lemma HashNormalized_total: "finite_Product p \<Longrightarrow> \<exists>h. HashNormalized p = Inr h"
  using marshal_opt_finite [OF finite_normalizeForHash]
  by (auto simp: HashNormalized_def marshal_def split: option.split)

lemma wf_normalizeForHash:
  assumes "wf_Product p"
  shows "wf_any (normalizeForHash p)"
proof -
  have attrs: "wf_any v" if "v \<in> ran (map_of (Attributes p))" for v
    using assms that by (auto simp: wf_Product_def ran_def list_all_iff dest: map_of_SomeD)
  have "list_all wf_any (sortedStringMap (Options p))"
    by (auto simp: sortedStringMap_entries sorted_entries_def kv_entry_def list_all_iff wf_gomap_def)
  moreover have "list_all wf_any (sortedAnyMap (Attributes p))"
    using attrs
    by (auto simp: sortedAnyMap_entries sorted_entries_def kv_entry_def list_all_iff wf_gomap_def)
      (metis fst_conv image_eqI map_of_eq_None_iff option.exhaust_sel ranI)
  ultimately show ?thesis
    by (auto simp: normalizeForHash_def money_map_def salePriceMap_def channel_map_def control_map_def
        list_all_iff wf_gomap_def split: option.split)
qed

lemma normalizeForHash_canon_iff:
  assumes "wf_Product p" "wf_Product q"
  shows "canon_any (normalizeForHash p) = canon_any (normalizeForHash q) \<longleftrightarrow> same_content p q"
proof -
  have wf: "wf_gomap (Options p)" "wf_gomap (Options q)" "wf_gomap (Attributes p)" "wf_gomap (Attributes q)"
    "wf_any (AMap (Attributes p))" "wf_any (AMap (Attributes q))"
    using assms by (simp_all add: wf_Product_def)
  have inj: "map_option (canon_any \<circ> AStr) x = map_option (canon_any \<circ> AStr) y \<longleftrightarrow> x = y" for x y
    by (cases x; cases y) simp_all
  have o: "map canon_any (sortedStringMap (Options p)) = map canon_any (sortedStringMap (Options q)) \<longleftrightarrow> map_of (Options p) = map_of (Options q)"
    unfolding sortedStringMap_entries canon_sorted_entries [OF wf(1,2)] fun_eq_iff comp_apply [of "map_option _"] inj ..
  have a: "map canon_any (sortedAnyMap (Attributes p)) = map canon_any (sortedAnyMap (Attributes q)) \<longleftrightarrow>
      go_eq (AMap (Attributes p)) (AMap (Attributes q))"
    unfolding go_eq_canon [OF wf(5,6)] sortedAnyMap_entries canon_sorted_entries [OF wf(3,4)] canon_map_eq [OF wf(3,4)]
    by (simp add: comp_def)
  have "canon_any (normalizeForHash p) = canon_any (normalizeForHash q) \<longleftrightarrow>
      ProductKey p = ProductKey q \<and> GroupKey p = GroupKey q \<and> Title p = Title q \<and> Description p = Description q \<and>
      Link p = Link q \<and> ImageLink p = ImageLink q \<and> sort (AdditionalImageLinks p) = sort (AdditionalImageLinks q) \<and>
      Brand p = Brand q \<and> GTIN p = GTIN q \<and> MPN p = MPN q \<and> Condition p = Condition q \<and> Availability p = Availability q \<and>
      Price p = Price q \<and> SalePrice p = SalePrice q \<and>
      map canon_any (sortedStringMap (Options p)) = map canon_any (sortedStringMap (Options q)) \<and>
      map canon_any (sortedAnyMap (Attributes p)) = map canon_any (sortedAnyMap (Attributes q)) \<and> Channel p = Channel q"
    unfolding normalizeForHash_def Let_def
    by (subst canon_same_keys) (simp_all only: list.map fst_conv snd_conv comp_apply list.inject money_map_eq salePriceMap_eq
        channel_map_eq canon_any.simps any.inject canon_AStr map_AStr_eq simp_thms, simp_all)
  then show ?thesis
    unfolding o a same_content_def sort_eq_iff_mset by (cases p; cases q) auto
qed

section \<open>Properties\<close>

text \<open>(C26) The document that is hashed is canonical: two products have equal documents (as dynamic values,
  whose maps have no order at any level) exactly when they have the same content, so the order of
  additional image links and of map entries, also of maps nested in attribute values, never matters
  and every other field, the lifecycle state of each channel included, does; and products with the
  same content get the same digest.\<close>

theorem normalizeForHash_canonical:
  assumes "wf_Product p" "wf_Product q"
  shows "(go_eq (normalizeForHash p) (normalizeForHash q) \<longleftrightarrow> same_content p q) \<and>
    (same_content p q \<longrightarrow> HashNormalized p = HashNormalized q)"
  using normalizeForHash_canon_iff [OF assms] go_eq_canon [OF wf_normalizeForHash [OF assms(1)] wf_normalizeForHash [OF assms(2)]]
    marshal_go_eq [OF wf_normalizeForHash [OF assms(1)] wf_normalizeForHash [OF assms(2)]]
  by (auto simp: HashNormalized_def)

text \<open>Products whose attribute has a nested object with its members in either order.\<close>

definition nested_attr :: "string \<Rightarrow> (string \<times> any) list \<Rightarrow> Product" where
  "nested_attr title members = zero_Product\<lparr>Title := title, Attributes := [(''size'', AMap members)]\<rparr>"

theorem normalizeForHash_canonical_witness:
  "HashNormalized (nested_attr ''A'' [(''w'', AStr ''1''), (''h'', AStr ''2'')]) = HashNormalized (nested_attr ''A'' [(''h'', AStr ''2''), (''w'', AStr ''1'')]) \<and>
   \<not> go_eq (normalizeForHash (nested_attr ''A'' [(''w'', AStr ''1'')])) (normalizeForHash (nested_attr ''B'' [(''w'', AStr ''1'')]))"
proof -
  have wf: "wf_Product (nested_attr title ms)" if "wf_any (AMap ms)" for title ms
    using that by (simp add: wf_Product_def nested_attr_def zero_Product_def wf_gomap_def)
  have one: "wf_any (AMap [(''w'', AStr ''1''), (''h'', AStr ''2'')])" "wf_any (AMap [(''h'', AStr ''2''), (''w'', AStr ''1'')])"
    "wf_any (AMap [(''w'', AStr ''1'')])" by (simp_all add: wf_gomap_def)
  show ?thesis
    using normalizeForHash_canonical [OF wf [OF one(1)] wf [OF one(2)], of "''A''" "''A''"]
      normalizeForHash_canonical [OF wf [OF one(3)] wf [OF one(3)], of "''A''" "''B''"]
    by (simp add: same_content_def nested_attr_def zero_Product_def)
qed

end
