(* ===== verification/Processor.thy ===== *)
theory Processor
  imports Parse_Products Validate Hash
begin

text \<open>
  \<open>internal/ingest/delta.go\<close> and \<open>processor.go\<close>: the decision about one product (rejected,
  unchanged or enqueued) and the run over a batch with its summary. A lookup of the previous
  hash yields \<open>Inr (Some h)\<close> for \<open>(h, true, nil)\<close>, \<open>Inr None\<close> for \<open>(_, false, nil)\<close> and
  \<open>Inl e\<close> for an error; the lookup itself may be nil (\<open>None\<close>).
\<close>

section \<open>Delta decision\<close>

record DeltaDecision =
  DeltaDisposition :: ProductDisposition
  DeltaReason :: string

definition ComputeDisposition :: "string \<Rightarrow> string \<Rightarrow> DeltaDecision" where
  "ComputeDisposition previousHash currentHash =
     (if previousHash = '''' then
        \<lparr>DeltaDisposition = ProductDispositionEnqueued, DeltaReason = ''new_product''\<rparr>
      else if previousHash = currentHash then
        \<lparr>DeltaDisposition = ProductDispositionUnchanged, DeltaReason = ''no_change_detected''\<rparr>
      else \<lparr>DeltaDisposition = ProductDispositionEnqueued, DeltaReason = ''content_changed''\<rparr>)"

section \<open>Processor\<close>

type_synonym PreviousHashLookup = "string \<Rightarrow> string option res"

record ProductProcessResult =
  ResProductKey :: string
  ResHash :: string
  ResDisposition :: ProductDisposition
  ResReason :: string
  ResIssues :: "ValidationIssue list"

record ProcessSummary =
  Received :: nat
  Valid :: nat
  Rejected :: nat
  Unchanged :: nat
  Enqueued :: nat

record ProcessOutput =
  Summary :: ProcessSummary
  OutProducts :: "ProductProcessResult list"

definition rejected_result :: "string \<Rightarrow> string \<Rightarrow> ValidationIssue list \<Rightarrow> ProductProcessResult" where
  "rejected_result key reason issues =
     \<lparr>ResProductKey = key, ResHash = '''', ResDisposition = ProductDispositionRejected,
      ResReason = reason, ResIssues = issues\<rparr>"

definition ProcessProduct ::
  "string permuter \<Rightarrow> Product \<Rightarrow> string list \<Rightarrow> PreviousHashLookup option
    \<Rightarrow> (ProductProcessResult \<times> bool) res" where
  "ProcessProduct rng prd enabledChannels lookup =
     (let base = ValidateProductBase prd; ch = ValidateChannelControls rng prd enabledChannels in
      if \<not> IsValid base then
        Inr (rejected_result (ProductKey prd) ''base_validation_failed'' (Issues base), False)
      else if \<not> IsValid ch then
        Inr (rejected_result (ProductKey prd) ''channel_validation_failed'' (Issues ch), False)
      else
        bind_res (HashNormalized prd) (\<lambda>hash.
        bind_res (case lookup of None \<Rightarrow> Inr '''' | Some l \<Rightarrow>
                    bind_res (l (ProductKey prd)) (\<lambda>prevHash. Inr (case prevHash of Some h \<Rightarrow> h | None \<Rightarrow> '''')))
          (\<lambda>prev.
        let decision = ComputeDisposition prev hash
        in Inr (\<lparr>ResProductKey = ProductKey prd, ResHash = hash,
                 ResDisposition = DeltaDisposition decision, ResReason = DeltaReason decision,
                 ResIssues = []\<rparr>, True))))"

text \<open>The counting both batch loops share: append the result and update the summary.\<close>

definition count_result :: "ProductProcessResult \<Rightarrow> bool \<Rightarrow> ProcessOutput \<Rightarrow> ProcessOutput" where
  "count_result r valid out =
     (let out = out\<lparr>OutProducts := OutProducts out @ [r]\<rparr>; s = Summary out in
      if \<not> valid then out\<lparr>Summary := s\<lparr>Rejected := Rejected s + 1\<rparr>\<rparr>
      else let s = s\<lparr>Valid := Valid s + 1\<rparr> in
        if ResDisposition r = ProductDispositionUnchanged
          then out\<lparr>Summary := s\<lparr>Unchanged := Unchanged s + 1\<rparr>\<rparr>
        else if ResDisposition r = ProductDispositionEnqueued
          then out\<lparr>Summary := s\<lparr>Enqueued := Enqueued s + 1\<rparr>\<rparr>
        else out\<lparr>Summary := s\<rparr>)"

definition init_output :: "nat \<Rightarrow> ProcessOutput" where
  "init_output received =
     \<lparr>Summary = \<lparr>Received = received, Valid = 0, Rejected = 0, Unchanged = 0, Enqueued = 0\<rparr>,
      OutProducts = []\<rparr>"

text \<open>The loop; \<open>rng i\<close> is the map order the runtime picks when it validates product \<open>i\<close>.\<close>

fun process_loop ::
  "(nat \<Rightarrow> string permuter) \<Rightarrow> nat \<Rightarrow> Product list \<Rightarrow> string list \<Rightarrow> PreviousHashLookup option
    \<Rightarrow> ProcessOutput \<Rightarrow> ProcessOutput res" where
  "process_loop rng i [] enabled lookup out = Inr out"
| "process_loop rng i (prd # prds) enabled lookup out =
     bind_res (ProcessProduct (rng i) prd enabled lookup) (\<lambda>(r, valid).
       process_loop rng (Suc i) prds enabled lookup (count_result r valid out))"

definition ProcessProducts ::
  "(nat \<Rightarrow> string permuter) \<Rightarrow> Product list \<Rightarrow> string list \<Rightarrow> PreviousHashLookup option
    \<Rightarrow> ProcessOutput res" where
  "ProcessProducts rng products enabledChannels lookup =
     process_loop rng 0 products enabledChannels lookup (init_output (length products))"

section \<open>Results of a single product\<close>

text \<open>What every result looks like, in each of its cases.\<close>

definition previous_hash :: "PreviousHashLookup option \<Rightarrow> string \<Rightarrow> string res" where
  "previous_hash lookup key =
     (case lookup of None \<Rightarrow> Inr '''' | Some l \<Rightarrow>
        bind_res (l key) (\<lambda>prevHash. Inr (case prevHash of Some h \<Rightarrow> h | None \<Rightarrow> '''')))"

lemma ProcessProduct_rejected_base:
  "\<not> IsValid (ValidateProductBase p) \<Longrightarrow> ProcessProduct rng p en lk =
     Inr (rejected_result (ProductKey p) ''base_validation_failed'' (Issues (ValidateProductBase p)), False)"
  by (simp add: ProcessProduct_def Let_def)

lemma ProcessProduct_rejected_channel:
  "IsValid (ValidateProductBase p) \<Longrightarrow> \<not> IsValid (ValidateChannelControls rng p en) \<Longrightarrow>
   ProcessProduct rng p en lk =
     Inr (rejected_result (ProductKey p) ''channel_validation_failed''
            (Issues (ValidateChannelControls rng p en)), False)"
  by (simp add: ProcessProduct_def Let_def)

lemma ProcessProduct_valid:
  assumes "IsValid (ValidateProductBase p)" "IsValid (ValidateChannelControls rng p en)"
  shows "ProcessProduct rng p en lk =
     bind_res (HashNormalized p) (\<lambda>h. bind_res (previous_hash lk (ProductKey p)) (\<lambda>prev.
       Inr (\<lparr>ResProductKey = ProductKey p, ResHash = h,
             ResDisposition = DeltaDisposition (ComputeDisposition prev h),
             ResReason = DeltaReason (ComputeDisposition prev h), ResIssues = []\<rparr>, True)))"
  using assms by (simp add: ProcessProduct_def Let_def previous_hash_def)

lemma ProcessProduct_cases:
  assumes "ProcessProduct rng p en lk = Inr (r, v)"
  obtains (rejected) reason issues where "\<not> v" "r = rejected_result (ProductKey p) reason issues"
      "issues \<noteq> []"
      "\<not> (IsValid (ValidateProductBase p) \<and> IsValid (ValidateChannelControls rng p en))"
  | (valid) h prev where "v" "HashNormalized p = Inr h" "previous_hash lk (ProductKey p) = Inr prev"
      "IsValid (ValidateProductBase p)" "IsValid (ValidateChannelControls rng p en)"
      "r = \<lparr>ResProductKey = ProductKey p, ResHash = h,
            ResDisposition = DeltaDisposition (ComputeDisposition prev h),
            ResReason = DeltaReason (ComputeDisposition prev h), ResIssues = []\<rparr>"
proof (cases "IsValid (ValidateProductBase p) \<and> IsValid (ValidateChannelControls rng p en)")
  case True
  with assms show thesis
    by (auto simp: ProcessProduct_valid bind_res_eq_Inr intro: valid)
next
  case False
  show thesis
  proof (cases "IsValid (ValidateProductBase p)")
    case True
    with False assms show thesis
      by (intro rejected) (auto simp: ProcessProduct_rejected_channel IsValid_iff)
  next
    case inv: False
    with assms show thesis
      by (intro rejected) (auto simp: ProcessProduct_rejected_base IsValid_iff)
  qed
qed

lemma ComputeDisposition_eqs:
  "DeltaDisposition (ComputeDisposition prev h) =
     (if prev \<noteq> '''' \<and> prev = h then ProductDispositionUnchanged else ProductDispositionEnqueued)"
  by (simp add: ComputeDisposition_def)

definition is_valid_disposition :: "ProductProcessResult \<Rightarrow> bool" where
  "is_valid_disposition r \<longleftrightarrow>
     ResDisposition r \<in> {ProductDispositionUnchanged, ProductDispositionEnqueued}"

lemma ProcessProduct_disposition:
  assumes "ProcessProduct rng p en lk = Inr (r, v)"
  shows "ResProductKey r = ProductKey p"
    and "v \<longleftrightarrow> is_valid_disposition r"
    and "\<not> v \<longleftrightarrow> ResDisposition r = ProductDispositionRejected"
    and "v \<longleftrightarrow> ResHash r \<noteq> ''''"
    and "v \<longleftrightarrow> ResIssues r = []"
  using assms
  by (auto elim!: ProcessProduct_cases dest: HashNormalized_nonempty
      simp: rejected_result_def is_valid_disposition_def ComputeDisposition_eqs split: if_splits)

section \<open>The batch loop\<close>

text \<open>The invariant of the summary: it counts the dispositions of the results so far.\<close>

definition with_disp :: "ProductDisposition \<Rightarrow> ProductProcessResult list \<Rightarrow> nat" where
  "with_disp d rs = length (filter (\<lambda>r. ResDisposition r = d) rs)"

definition summary_ok :: "ProcessOutput \<Rightarrow> bool" where
  "summary_ok out \<longleftrightarrow>
     Rejected (Summary out) = with_disp ProductDispositionRejected (OutProducts out) \<and>
     Unchanged (Summary out) = with_disp ProductDispositionUnchanged (OutProducts out) \<and>
     Enqueued (Summary out) = with_disp ProductDispositionEnqueued (OutProducts out) \<and>
     Valid (Summary out) = Unchanged (Summary out) + Enqueued (Summary out) \<and>
     length (OutProducts out) = Valid (Summary out) + Rejected (Summary out)"

lemma summary_ok_init [simp]: "summary_ok (init_output n)"
  by (simp add: summary_ok_def init_output_def with_disp_def)

lemma Received_count_result [simp]: "Received (Summary (count_result r v out)) = Received (Summary out)"
  by (simp add: count_result_def Let_def)

lemma OutProducts_count_result [simp]: "OutProducts (count_result r v out) = OutProducts out @ [r]"
  by (simp add: count_result_def Let_def)

lemma summary_ok_count_result:
  assumes "summary_ok out" "v \<longleftrightarrow> is_valid_disposition r"
    "\<not> v \<longleftrightarrow> ResDisposition r = ProductDispositionRejected"
  shows "summary_ok (count_result r v out)"
  using assms
  by (cases v) (auto simp: summary_ok_def with_disp_def count_result_def Let_def is_valid_disposition_def)

lemma process_loop_summary_ok:
  "process_loop rng i ps en lk out = Inr out' \<Longrightarrow> summary_ok out \<Longrightarrow> summary_ok out'"
proof (induction rng i ps en lk out rule: process_loop.induct)
  case (2 rng i p ps en lk out)
  then obtain r v where pp: "ProcessProduct (rng i) p en lk = Inr (r, v)"
    and rest: "process_loop rng (Suc i) ps en lk (count_result r v out) = Inr out'"
    by (auto simp: bind_res_eq_Inr)
  have "summary_ok (count_result r v out)"
    using "2.prems"(2) ProcessProduct_disposition(2,3) [OF pp] by (rule summary_ok_count_result)
  then show ?case using "2.IH" rest by blast
qed auto

lemma process_loop_products:
  "process_loop rng i ps en lk out = Inr out' \<Longrightarrow>
   \<exists>rs. OutProducts out' = OutProducts out @ map fst rs \<and> length rs = length ps \<and>
     Received (Summary out') = Received (Summary out) \<and>
     (\<forall>j < length ps. ProcessProduct (rng (i + j)) (ps ! j) en lk = Inr (rs ! j))"
proof (induction rng i ps en lk out rule: process_loop.induct)
  case (2 rng i p ps en lk out)
  then obtain r v where pp: "ProcessProduct (rng i) p en lk = Inr (r, v)"
    and rest: "process_loop rng (Suc i) ps en lk (count_result r v out) = Inr out'"
    by (auto simp: bind_res_eq_Inr)
  from "2.IH" [OF rest] obtain rs where
    rs: "OutProducts out' = OutProducts out @ r # map fst rs" "length rs = length ps"
    "Received (Summary out') = Received (Summary out)"
    "\<forall>j < length ps. ProcessProduct (rng (Suc i + j)) (ps ! j) en lk = Inr (rs ! j)"
    by auto
  show ?case
  proof (intro exI [of _ "(r, v) # rs"] conjI allI impI)
    fix j assume "j < length (p # ps)"
    then show "ProcessProduct (rng (i + j)) ((p # ps) ! j) en lk = Inr (((r, v) # rs) ! j)"
      using pp rs(4) by (cases j) auto
  qed (use rs in auto)
qed auto

lemma process_loop_total:
  assumes "\<And>j. j < length ps \<Longrightarrow> \<exists>x. ProcessProduct (rng (i + j)) (ps ! j) en lk = Inr x"
  shows "\<exists>out'. process_loop rng i ps en lk out = Inr out'"
  using assms
proof (induction ps arbitrary: i out)
  case (Cons p ps)
  from Cons.prems [of 0] obtain r v where "ProcessProduct (rng i) p en lk = Inr (r, v)" by auto
  moreover have "\<exists>out'. process_loop rng (Suc i) ps en lk (count_result r v out) = Inr out'"
    using Cons.prems [of "Suc _"] by (intro Cons.IH) auto
  ultimately show ?case by simp
qed simp

text \<open>The shape of a result.\<close>

definition well_formed_result :: "ProductProcessResult \<Rightarrow> bool" where
  "well_formed_result r \<longleftrightarrow>
     (if ResDisposition r = ProductDispositionRejected then ResHash r = '''' \<and> ResReason r \<noteq> '''' \<and> ResIssues r \<noteq> []
      else ResDisposition r \<in> {ProductDispositionUnchanged, ProductDispositionEnqueued} \<and> ResIssues r = [] \<and>
        length (ResHash r) = 64 \<and> set (ResHash r) \<subseteq> set ''0123456789abcdef'')"

lemma set_EncodeToString: "set (EncodeToString s) \<subseteq> set ''0123456789abcdef''"
proof -
  have digit: "hex_digit n \<in> set ''0123456789abcdef''" if "n < 16" for n
  proof -
    have "n \<in> set [0..<16]" using that by simp
    also have "[0..<16] = [0, 1, 2, 3, 4, 5, 6, 7, 8, 9, 10, 11, 12, 13, 14, 15]" by (simp add: upt_rec)
    finally show ?thesis by (auto simp: hex_digit_def char_of_eq_iff)
  qed
  show ?thesis
  proof
    fix x
    assume "x \<in> set (EncodeToString s)"
    then obtain c where x: "x = hex_digit (byte c div 16) \<or> x = hex_digit (byte c mod 16)"
      by (auto simp: EncodeToString_def)
    have "byte c div 16 < 16" "byte c mod 16 < 16" using byte_less [of c] by (simp_all add: less_mult_imp_div_less)
    with x show "x \<in> set ''0123456789abcdef''" by (elim disjE) (simp_all only: digit)
  qed
qed

lemma HashNormalized_hex:
  assumes "HashNormalized p = Inr h"
  shows "set h \<subseteq> set ''0123456789abcdef''"
proof -
  obtain s where "h = EncodeToString s" using assms by (auto simp: HashNormalized_def sha256_hex_def bind_res_eq_Inr)
  then show ?thesis using set_EncodeToString by (simp only:)
qed

lemma ProcessProduct_well_formed:
  assumes "ProcessProduct rng p enabled lookup = Inr (r, valid)"
  shows "well_formed_result r"
proof -
  have reason: "ResReason r \<noteq> ''''" if "\<not> valid"
    using assms that by (auto simp: ProcessProduct_def Let_def rejected_result_def bind_res_eq_Inr split: if_splits)
  from assms show ?thesis
  proof (cases rule: ProcessProduct_cases)
    case (valid h prev)
    then show ?thesis
      using HashNormalized_length [OF valid(2)] HashNormalized_hex [OF valid(2)]
      by (simp add: well_formed_result_def ComputeDisposition_eqs)
  next
    case rejected
    then show ?thesis using reason by (simp add: well_formed_result_def rejected_result_def)
  qed
qed

section \<open>A sample product\<close>

text \<open>The product of the repository's tests, for the witnesses.\<close>

definition sample_product :: "string \<Rightarrow> Product" where
  "sample_product key = zero_Product
     \<lparr>ProductKey := key, Title := ''Test'', Description := ''Desc'', Link := ''https://example.com/p'',
      ImageLink := ''https://example.com/p.jpg'', Condition := ''new'', Availability := ''in_stock'',
      Price := \<lparr>AmountDecimal = ''19.99'', Currency = ''USD''\<rparr>,
      Channel := zero_ChannelFields\<lparr>Google := Some \<lparr>GoogleControl = \<lparr>State = ChannelStateActive\<rparr>\<rparr>\<rparr>\<rparr>"

lemma sample_product_simps [simp]:
  "ProductKey (sample_product k) = k" "Attributes (sample_product k) = []" "Options (sample_product k) = []"
  by (simp_all add: sample_product_def zero_Product_def)

lemma sample_product_wf [simp]: "wf_Product (sample_product k)" "finite_Product (sample_product k)"
  by (simp_all add: wf_Product_def finite_Product_def)

lemma sample_product_base:
  assumes "TrimSpace k \<noteq> ''''"
  shows "IsValid (ValidateProductBase (sample_product k))"
proof -
  have "looksLikeDecimal ''19.99''"
    by (simp add: looksLikeDecimal_def runes_ascii)
  then show ?thesis
    using assms by (simp add: IsValid_base_iff sample_product_def zero_Product_def TrimSpace_id)
qed

lemma google_only [simp]: "enabled_set [''google''] = [''google'']"
  by (simp add: enabled_set_def TrimSpace_id ToLower_ascii char_to_lower_def)

lemma sample_product_channels:
  "is_permuter rng \<Longrightarrow> IsValid (ValidateChannelControls rng (sample_product k) [''google''])"
  by (simp add: ValidateChannelControls_def permuter_sing IsValid_fold_validate channel_ok_def
      sample_product_def zero_Product_def zero_ChannelFields_def valid_state_def)

section \<open>Properties\<close>

text \<open>(C29) Results are well-formed: a result carries the key of its product; it is either rejected, with no
  digest, a reason and at least one issue, or valid, with the disposition unchanged or enqueued, no
  issues and a digest of 64 lowercase hexadecimal digits.\<close>

theorem results_well_formed:
  assumes "ProcessProduct rng p enabled lookup = Inr (r, valid)"
  shows "well_formed_result r \<and> ResProductKey r = ProductKey p \<and> (valid \<longleftrightarrow> ResDisposition r \<noteq> ProductDispositionRejected)"
  using ProcessProduct_well_formed [OF assms] ProcessProduct_disposition(1,3) [OF assms] by auto

theorem results_well_formed_witness:
  "\<exists>r. ProcessProduct (\<lambda>xs. xs) (sample_product ''sku1'') [''google''] None = Inr (r, True) \<and> length (ResHash r) = 64"
proof -
  obtain h where "HashNormalized (sample_product ''sku1'') = Inr h" using HashNormalized_total [of "sample_product ''sku1''"] by auto
  then obtain r where r: "ProcessProduct (\<lambda>xs. xs) (sample_product ''sku1'') [''google''] None = Inr (r, True)"
    using sample_product_base [of "''sku1''"] sample_product_channels [OF permuter_id, of "''sku1''"]
    by (auto simp: ProcessProduct_valid TrimSpace_id previous_hash_def)
  with results_well_formed [OF r] show ?thesis by (auto simp: well_formed_result_def)
qed

text \<open>(C27) The summary of a batch is consistent: every received product has one result, in order
  and under its own key, and received = valid + rejected, valid = unchanged + enqueued, where
  the three outcome counters count the results with that disposition.\<close>

theorem process_products_summary:
  assumes "ProcessProducts rng ps enabled lookup = Inr out"
  shows "Received (Summary out) = length ps \<and> map ResProductKey (OutProducts out) = map ProductKey ps \<and>
    Received (Summary out) = Valid (Summary out) + Rejected (Summary out) \<and>
    Valid (Summary out) = Unchanged (Summary out) + Enqueued (Summary out) \<and>
    Rejected (Summary out) = with_disp ProductDispositionRejected (OutProducts out) \<and>
    Unchanged (Summary out) = with_disp ProductDispositionUnchanged (OutProducts out) \<and>
    Enqueued (Summary out) = with_disp ProductDispositionEnqueued (OutProducts out)"
proof -
  have loop: "process_loop rng 0 ps enabled lookup (init_output (length ps)) = Inr out"
    using assms by (simp add: ProcessProducts_def)
  from process_loop_products [OF loop] obtain rs where rs: "OutProducts out = map fst rs"
    "length rs = length ps" "Received (Summary out) = length ps"
    "\<forall>j < length ps. ProcessProduct (rng j) (ps ! j) enabled lookup = Inr (rs ! j)"
    by (auto simp: init_output_def)
  have "ResProductKey (fst (rs ! j)) = ProductKey (ps ! j)" if "j < length ps" for j
    using rs(4) that ProcessProduct_disposition(1) [of "rng j" "ps ! j" enabled lookup "fst (rs ! j)" "snd (rs ! j)"]
    by simp
  then have keys: "map ResProductKey (OutProducts out) = map ProductKey ps"
    using rs(1,2) by (intro nth_equalityI) auto
  have "summary_ok out" using process_loop_summary_ok [OF loop] by simp
  then show ?thesis using rs(1-3) keys by (auto simp: summary_ok_def)
qed

theorem process_products_summary_witness:
  "\<exists>out. ProcessProducts (\<lambda>_ xs. xs) [sample_product ''sku1'', zero_Product] [''google''] None = Inr out \<and>
     Received (Summary out) = 2 \<and> map ResProductKey (OutProducts out) = [''sku1'', '''']"
proof -
  obtain h where "HashNormalized (sample_product ''sku1'') = Inr h"
    using HashNormalized_total sample_product_wf(2) by blast
  then have "\<exists>x. ProcessProduct (\<lambda>xs. xs) (sample_product ''sku1'') [''google''] None = Inr x"
    using sample_product_base [of "''sku1''"] sample_product_channels [OF permuter_id]
    by (auto simp add: ProcessProduct_valid previous_hash_def TrimSpace_id)
  moreover have "\<exists>x. ProcessProduct (\<lambda>xs. xs) zero_Product [''google''] None = Inr x"
    by (auto simp add: ProcessProduct_rejected_base IsValid_base_iff zero_Product_def)
  ultimately have "\<exists>out. ProcessProducts (\<lambda>_ xs. xs) [sample_product ''sku1'', zero_Product] [''google''] None = Inr out"
    unfolding ProcessProducts_def by (intro process_loop_total) (auto simp: less_Suc_eq)
  then obtain out where out: "ProcessProducts (\<lambda>_ xs. xs) [sample_product ''sku1'', zero_Product] [''google''] None = Inr out"
    by blast
  show ?thesis
    using out process_products_summary [OF out] by (auto simp: zero_Product_def)
qed

text \<open>Processing is total but for the lookup: on a product whose attributes came from JSON it
  reports an error exactly when the product passes both validations and the lookup of its
  previous hash fails, and then it reports that error.\<close>

theorem process_product_error_iff:
  assumes "finite_Product p"
  shows "ProcessProduct rng p enabled lookup = Inl e \<longleftrightarrow>
    IsValid (ValidateProductBase p) \<and> IsValid (ValidateChannelControls rng p enabled) \<and>
    (\<exists>l. lookup = Some l \<and> l (ProductKey p) = Inl e)"
proof -
  obtain h where h: "HashNormalized p = Inr h"
    using HashNormalized_total [OF assms] by blast
  show ?thesis
  proof (cases "IsValid (ValidateProductBase p) \<and> IsValid (ValidateChannelControls rng p enabled)")
    case True
    with h show ?thesis
      by (auto simp: ProcessProduct_valid previous_hash_def bind_res_eq_Inl split: option.splits)
  next
    case False
    then show ?thesis
      by (cases "IsValid (ValidateProductBase p)")
        (auto simp: ProcessProduct_rejected_base ProcessProduct_rejected_channel)
  qed
qed

theorem process_product_error_iff_witness:
  "ProcessProduct (\<lambda>xs. xs) (sample_product ''sku1'') [''google''] (Some (\<lambda>_. Inl ''lookup failed''))
     = Inl ''lookup failed''"
  using process_product_error_iff [of "sample_product ''sku1''" "\<lambda>xs. xs" "[''google'']"
      "Some (\<lambda>_. Inl ''lookup failed'')" "''lookup failed''"]
    sample_product_base [of "''sku1''"] sample_product_channels [OF permuter_id, of "''sku1''"]
  by (simp add: TrimSpace_id)

text \<open>(C28) Delta decision: a product that passes validation is unchanged exactly when the stored
  hash is the digest of its content; with no (or an empty) stored hash it is enqueued as new,
  with another one as changed. The result carries the new digest and no issues.\<close>

theorem process_product_delta:
  assumes "IsValid (ValidateProductBase p)" "IsValid (ValidateChannelControls rng p enabled)"
    "finite_Product p" "lookup (ProductKey p) = Inr prev"
  shows "\<exists>h. HashNormalized p = Inr h \<and>
    ProcessProduct rng p enabled (Some lookup) =
      Inr (\<lparr>ResProductKey = ProductKey p, ResHash = h,
            ResDisposition = (if prev = Some h then ProductDispositionUnchanged else ProductDispositionEnqueued),
            ResReason = (if prev = Some h then ''no_change_detected''
                         else if prev = None \<or> prev = Some '''' then ''new_product'' else ''content_changed''),
            ResIssues = []\<rparr>, True)"
proof -
  obtain h where h: "HashNormalized p = Inr h"
    using HashNormalized_total [OF assms(3)] by blast
  moreover have "h \<noteq> ''''" using HashNormalized_nonempty [OF h] .
  ultimately show ?thesis
    using assms(1,2,4)
    by (cases prev) (auto simp: ProcessProduct_valid previous_hash_def ComputeDisposition_def)
qed

theorem process_product_delta_witness:
  "\<exists>h. HashNormalized (sample_product ''sku1'') = Inr h \<and>
     (\<exists>r. ProcessProduct (\<lambda>xs. xs) (sample_product ''sku1'') [''google''] (Some (\<lambda>_. Inr (Some ''old''))) = Inr (r, True)
        \<and> ResReason r = ''content_changed'')"
proof -
  obtain h where h: "HashNormalized (sample_product ''sku1'') = Inr h"
    "ProcessProduct (\<lambda>xs. xs) (sample_product ''sku1'') [''google''] (Some (\<lambda>_. Inr (Some ''old''))) =
      Inr (\<lparr>ResProductKey = ProductKey (sample_product ''sku1''), ResHash = h,
            ResDisposition = (if Some ''old'' = Some h then ProductDispositionUnchanged else ProductDispositionEnqueued),
            ResReason = (if Some ''old'' = Some h then ''no_change_detected''
                         else if Some ''old'' = None \<or> Some ''old'' = Some '''' then ''new_product'' else ''content_changed''),
            ResIssues = []\<rparr>, True)"
    using process_product_delta [of "sample_product ''sku1''" "\<lambda>xs. xs" "[''google'']" "\<lambda>_. Inr (Some ''old'')" "Some ''old''"]
      sample_product_base [of "''sku1''"] sample_product_channels [OF permuter_id, of "''sku1''"]
    by (auto simp: TrimSpace_id)
  moreover have "h \<noteq> ''old''" using HashNormalized_length [OF h(1)] by auto
  ultimately show ?thesis by auto
qed

text \<open>(C35) An enabled channel that the service does not know rejects every product, whatever its
  content (a comment in the code announces a warning that does not fail the product).\<close>

theorem unknown_channel_rejects_all:
  assumes "is_permuter rng" "c \<in> set enabled"
    "ToLower (TrimSpace c) \<notin> {''google'', ''meta'', ''yotpo''}"
  shows "\<exists>reason issues. ProcessProduct rng p enabled lookup =
    Inr (rejected_result (ProductKey p) reason issues, False)"
proof -
  have "\<not> IsValid (ValidateChannelControls rng p enabled)"
    using assms by (auto simp: ValidateChannelControls_def IsValid_fold_validate permuter_set enabled_set_def
        channel_ok_def)
  then show ?thesis
    by (cases "IsValid (ValidateProductBase p)")
      (auto simp: ProcessProduct_rejected_base ProcessProduct_rejected_channel)
qed

theorem unknown_channel_rejects_all_witness:
  "\<exists>reason issues. ProcessProduct (\<lambda>xs. xs) (sample_product ''sku1'') [''google'', ''tiktok''] None =
     Inr (rejected_result ''sku1'' reason issues, False)"
  using unknown_channel_rejects_all [OF permuter_id, of "''tiktok''" "[''google'', ''tiktok'']" "sample_product ''sku1''" None]
  by (simp add: TrimSpace_id ToLower_ascii char_to_lower_def)

end
