(* ===== verification/Store.thy ===== *)
theory Store
  imports Processor
begin

text \<open>
  \<open>internal/state/state.go\<close>: the records the service persists and the \<open>Store\<close> interface that
  handlers, middleware and worker are written against. A value of the Go interface is a record
  of operations on a state \<open>'s\<close>; nil is \<open>None\<close> wherever the code can hold a nil store. Response
  bodies are an abstract type \<open>'b\<close> here.

  Operations that read the clock take the time they see, and operations that range over a map
  or leave ties of a sort open take the runtime's choice as a permuter.

  The contracts that clients rely on are locales: \<open>product_hashes\<close> (canonical product state),
  \<open>idempotency_cache\<close> and \<open>run_queue\<close>; client lemmas are proved in them once and reach the
  program through interpretations on its stores.
\<close>

record RunRecord =
  RunID :: string
  TenantID :: uint64
  FeedID :: "uint64 option"
  Status :: string
  PushTriggered :: bool
  RunReceived :: nat
  RunValid :: nat
  RunRejected :: nat
  RunUnchanged :: nat
  RunEnqueued :: nat
  RunWarnings :: UnknownKeyWarning
  CreatedAt :: time

record RunClaim =
  ClaimRunID :: string
  ClaimTenantID :: uint64

record 'b IdempotencyRecord =
  StatusCode :: nat
  BodyJSON :: 'b
  ExpiresAt :: time
  IdemCreatedAt :: time

record ('s, 'b) Store =
  GetProductHash :: "'s \<Rightarrow> uint64 \<Rightarrow> string \<Rightarrow> string option res"
  UpsertProductHash :: "uint64 \<Rightarrow> string \<Rightarrow> string \<Rightarrow> 's \<Rightarrow> go_error option \<times> 's"
  InsertRun :: "RunRecord \<Rightarrow> 's \<Rightarrow> go_error option \<times> 's"
  InsertRunProducts :: "string \<Rightarrow> ProductProcessResult list \<Rightarrow> 's \<Rightarrow> go_error option \<times> 's"
  GetIdempotency :: "time \<Rightarrow> 's \<Rightarrow> uint64 \<Rightarrow> string \<Rightarrow> string \<Rightarrow> 'b IdempotencyRecord option res"
  PutIdempotency :: "uint64 \<Rightarrow> string \<Rightarrow> string \<Rightarrow> 'b IdempotencyRecord \<Rightarrow> 's \<Rightarrow> go_error option \<times> 's"
  ListRuns :: "RunRecord permuter \<Rightarrow> 's \<Rightarrow> uint64 \<Rightarrow> int \<Rightarrow> RunRecord list res"
  GetRun :: "'s \<Rightarrow> uint64 \<Rightarrow> string \<Rightarrow> RunRecord option res"
  ListRunProducts :: "ProductProcessResult permuter \<Rightarrow> 's \<Rightarrow> string \<Rightarrow> int \<Rightarrow> ProductProcessResult list res"
  ClaimRuns :: "RunRecord permuter \<Rightarrow> int \<Rightarrow> 's \<Rightarrow> RunClaim list res \<times> 's"
  CompleteRun :: "uint64 \<Rightarrow> string \<Rightarrow> 's \<Rightarrow> go_error option \<times> 's"
  FailRun :: "uint64 \<Rightarrow> string \<Rightarrow> string \<Rightarrow> 's \<Rightarrow> go_error option \<times> 's"

section \<open>Contract: canonical product state\<close>

locale product_hashes =
  fixes get :: "'s \<Rightarrow> uint64 \<Rightarrow> string \<Rightarrow> string option res"
    and put :: "uint64 \<Rightarrow> string \<Rightarrow> string \<Rightarrow> 's \<Rightarrow> go_error option \<times> 's"
    and inv :: "'s \<Rightarrow> bool"
  assumes get_ok: "inv s \<Longrightarrow> \<exists>v. get s t k = Inr v"
    and put_ok: "inv s \<Longrightarrow> fst (put t k h s) = None"
    and get_put: "inv s \<Longrightarrow>
      get (snd (put t k h s)) t' k' = (if t' = t \<and> k' = k then Inr (Some h) else get s t' k')"
    and inv_put: "inv s \<Longrightarrow> inv (snd (put t k h s))"

text \<open>A store whose columns bound keys and digests keeps the same laws for what fits.\<close>

locale bounded_hashes =
  fixes get :: "'s \<Rightarrow> uint64 \<Rightarrow> string \<Rightarrow> string option res"
    and put :: "uint64 \<Rightarrow> string \<Rightarrow> string \<Rightarrow> 's \<Rightarrow> go_error option \<times> 's"
    and inv :: "'s \<Rightarrow> bool"
    and fits :: "string \<Rightarrow> string \<Rightarrow> bool"
  assumes bget_ok: "inv s \<Longrightarrow> \<exists>v. get s t k = Inr v"
    and bput_ok: "inv s \<Longrightarrow> fits k h \<Longrightarrow> fst (put t k h s) = None"
    and bget_put: "inv s \<Longrightarrow> fits k h \<Longrightarrow>
      get (snd (put t k h s)) t' k' = (if t' = t \<and> k' = k then Inr (Some h) else get s t' k')"
    and binv_put: "inv s \<Longrightarrow> fits k h \<Longrightarrow> inv (snd (put t k h s))"
begin

text \<open>A sequence of writes for one tenant: the last one for a key counts, and no other tenant
  sees any of them.\<close>

lemma binv_puts:
  "inv s \<Longrightarrow> \<forall>(k, h) \<in> set khs. fits k h \<Longrightarrow> inv (fold (\<lambda>(k, h) s. snd (put t k h s)) khs s)"
  by (induction khs arbitrary: s) (auto intro: binv_put)

lemma bget_puts:
  "inv s \<Longrightarrow> \<forall>(k, h) \<in> set khs. fits k h \<Longrightarrow> get (fold (\<lambda>(k, h) s. snd (put t k h s)) khs s) t' k' =
     (if t' = t then (case map_of (rev khs) k' of Some h \<Rightarrow> Inr (Some h) | None \<Rightarrow> get s t' k')
      else get s t' k')"
proof (induction khs arbitrary: s)
  case (Cons kh khs)
  obtain k h where kh: "kh = (k, h)" by (cases kh)
  then have fit: "fits k h" "\<forall>(k, h) \<in> set khs. fits k h" using Cons.prems(2) by auto
  show ?case
    using Cons.IH [OF binv_put [OF Cons.prems(1) fit(1)] fit(2)] Cons.prems(1) fit(1) kh
    by (auto simp: bget_put map_add_def map_of_append split: option.splits)
qed simp

end

sublocale product_hashes \<subseteq> bounded: bounded_hashes get put inv "\<lambda>_ _. True"
  by unfold_locales (simp_all add: get_ok put_ok get_put inv_put)

context product_hashes
begin

lemma inv_puts: "inv s \<Longrightarrow> inv (fold (\<lambda>(k, h) s. snd (put t k h s)) khs s)"
  by (rule bounded.binv_puts) auto

lemma get_puts:
  "inv s \<Longrightarrow> get (fold (\<lambda>(k, h) s. snd (put t k h s)) khs s) t' k' =
     (if t' = t then (case map_of (rev khs) k' of Some h \<Rightarrow> Inr (Some h) | None \<Rightarrow> get s t' k')
      else get s t' k')"
  by (rule bounded.bget_puts) auto

end

section \<open>Contract: idempotency cache\<close>

locale idempotency_cache =
  fixes get :: "time \<Rightarrow> 's \<Rightarrow> uint64 \<Rightarrow> string \<Rightarrow> string \<Rightarrow> 'b IdempotencyRecord option res"
    and put :: "uint64 \<Rightarrow> string \<Rightarrow> string \<Rightarrow> 'b IdempotencyRecord \<Rightarrow> 's \<Rightarrow> go_error option \<times> 's"
    and inv :: "'s \<Rightarrow> bool"
  assumes iget_ok: "inv s \<Longrightarrow> \<exists>v. get now s t e k = Inr v"
    and iget_put: "inv s \<Longrightarrow> get now (snd (put t e k rec s)) t' e' k' =
      (if t' = t \<and> e' = e \<and> k' = k then Inr (if ExpiresAt rec < now then None else Some rec)
       else get now s t' e' k')"
    and iput_ok: "inv s \<Longrightarrow> fst (put t e k rec s) = None"
    and iput_inv: "inv s \<Longrightarrow> inv (snd (put t e k rec s))"
begin

lemma cached_until_expiry:
  "inv s \<Longrightarrow> now \<le> ExpiresAt rec \<Longrightarrow> get now (snd (put t e k rec s)) t e k = Inr (Some rec)"
  by (simp add: iget_put)

lemma expired_is_missing:
  "inv s \<Longrightarrow> ExpiresAt rec < now \<Longrightarrow> get now (snd (put t e k rec s)) t e k = Inr None"
  by (simp add: iget_put)

lemma scoped:
  "inv s \<Longrightarrow> (t', e', k') \<noteq> (t, e, k) \<Longrightarrow> get now (snd (put t e k rec s)) t' e' k' = get now s t' e' k'"
  by (auto simp: iget_put)

end

section \<open>Contract: the queue of runs\<close>

text \<open>A run waits to be claimed while it has changes to push.\<close>

definition claimable :: "RunRecord \<Rightarrow> bool" where
  "claimable r \<longleftrightarrow> Status r = ''has_changes'' \<and> PushTriggered r \<and> TenantID r \<noteq> 0"

definition claim_of :: "RunRecord \<Rightarrow> RunClaim" where
  "claim_of r = \<lparr>ClaimRunID = RunID r, ClaimTenantID = TenantID r\<rparr>"

text \<open>The view of a store through which the contract speaks: the run under each identifier.
  Claiming returns the oldest waiting runs, each once and at most \<open>limit\<close> (10 if not positive)
  of them, and marks exactly these as \<open>processing\<close>; completing and failing set the status of
  the tenant's run and of no other.\<close>

definition claim_limit :: "int \<Rightarrow> nat" where
  "claim_limit limit = (if limit \<le> 0 then 10 else nat limit)"

definition mark_processing :: "string set \<Rightarrow> (string \<Rightarrow> RunRecord option) \<Rightarrow> string \<Rightarrow> RunRecord option" where
  "mark_processing ids m i = (if i \<in> ids then map_option (\<lambda>r. r\<lparr>Status := ''processing''\<rparr>) (m i) else m i)"

definition set_status :: "uint64 \<Rightarrow> string \<Rightarrow> string \<Rightarrow> (string \<Rightarrow> RunRecord option) \<Rightarrow> string \<Rightarrow> RunRecord option" where
  "set_status t rid st m i =
     (case m i of Some r \<Rightarrow> if i = rid \<and> TenantID r = t then Some (r\<lparr>Status := st\<rparr>) else Some r
      | None \<Rightarrow> None)"

locale run_queue =
  fixes claim :: "RunRecord permuter \<Rightarrow> int \<Rightarrow> 's \<Rightarrow> RunClaim list res \<times> 's"
    and complete :: "uint64 \<Rightarrow> string \<Rightarrow> 's \<Rightarrow> go_error option \<times> 's"
    and fail :: "uint64 \<Rightarrow> string \<Rightarrow> string \<Rightarrow> 's \<Rightarrow> go_error option \<times> 's"
    and runs_of :: "'s \<Rightarrow> string \<Rightarrow> RunRecord option"
    and inv :: "'s \<Rightarrow> bool"
  assumes claim_spec: "inv s \<Longrightarrow> is_permuter p \<Longrightarrow> \<exists>rs s'.
      claim p limit s = (Inr (map claim_of rs), s') \<and>
      distinct (map RunID rs) \<and> length rs \<le> claim_limit limit \<and> sorted (map CreatedAt rs) \<and>
      (\<forall>r \<in> set rs. claimable r \<and> runs_of s (RunID r) = Some r) \<and>
      (\<forall>r. claimable r \<longrightarrow> runs_of s (RunID r) = Some r \<longrightarrow> r \<notin> set rs \<longrightarrow>
         length rs = claim_limit limit \<and> (\<forall>r' \<in> set rs. CreatedAt r' \<le> CreatedAt r)) \<and>
      runs_of s' = mark_processing (RunID ` set rs) (runs_of s) \<and> inv s'"
    and complete_spec: "inv s \<Longrightarrow>
      fst (complete t rid s) = None \<and> inv (snd (complete t rid s)) \<and>
      runs_of (snd (complete t rid s)) = set_status t rid ''completed'' (runs_of s)"
    and fail_spec: "inv s \<Longrightarrow>
      fst (fail t rid msg s) = None \<and> inv (snd (fail t rid msg s)) \<and>
      runs_of (snd (fail t rid msg s)) = set_status t rid ''failed'' (runs_of s)"
    and run_key: "inv s \<Longrightarrow> runs_of s i = Some r \<Longrightarrow> RunID r = i"
begin

text \<open>The facts of a claim that returned, in the form in which proofs use them.\<close>

lemma claimE:
  assumes "inv s" "is_permuter p" "claim p limit s = (Inr cs, s')"
  obtains rs where "cs = map claim_of rs" "distinct (map RunID rs)"
    "\<forall>r \<in> set rs. claimable r \<and> runs_of s (RunID r) = Some r"
    "runs_of s' = mark_processing (RunID ` set rs) (runs_of s)" "inv s'"
proof -
  obtain rs s'' where c: "claim p limit s = (Inr (map claim_of rs), s'')" and d: "distinct (map RunID rs)"
    and r: "\<forall>r \<in> set rs. claimable r \<and> runs_of s (RunID r) = Some r"
    and m: "runs_of s'' = mark_processing (RunID ` set rs) (runs_of s)" and i: "inv s''"
    using claim_spec [OF assms(1,2), of limit] by blast
  have "cs = map claim_of rs" "s'' = s'" using c assms(3) by simp_all
  with d r m i show ?thesis by (intro that [of rs]) simp_all
qed

text \<open>A claimed run is no longer waiting: it cannot be claimed again until its status is reset.\<close>

lemma claimed_not_claimable:
  assumes "inv s" "is_permuter p" "claim p limit s = (Inr cs, s')" "c \<in> set cs"
    "runs_of s' (ClaimRunID c) = Some r"
  shows "\<not> claimable r"
proof -
  obtain rs where "cs = map claim_of rs" "runs_of s' = mark_processing (RunID ` set rs) (runs_of s)"
    using claim_spec [OF assms(1,2), of limit] assms(3) by auto
  then show ?thesis
    using assms(4,5) by (auto simp: mark_processing_def claim_of_def claimable_def)
qed

lemma claim_twice_disjoint:
  assumes "inv s" "is_permuter p" "is_permuter q"
    "claim p l s = (Inr cs, s1)" "claim q l' s1 = (Inr ds, s2)"
  shows "ClaimRunID ` set cs \<inter> ClaimRunID ` set ds = {}"
proof -
  obtain rs where rs: "cs = map claim_of rs" "inv s1" "runs_of s1 = mark_processing (RunID ` set rs) (runs_of s)"
    using claim_spec [OF assms(1,2), of l] assms(4) by auto
  obtain qs where qs: "ds = map claim_of qs" "\<forall>r \<in> set qs. claimable r \<and> runs_of s1 (RunID r) = Some r"
    using claim_spec [OF rs(2) assms(3), of l'] assms(5) by auto
  have "ClaimRunID c \<notin> ClaimRunID ` set ds" if "c \<in> set cs" for c
    using claimed_not_claimable [OF assms(1,2,4) that] qs by (auto simp: claim_of_def)
  then show ?thesis by blast
qed

end

end
