(* ===== verification/Memory_Store.thy ===== *)
theory Memory_Store
  imports Store
begin

text \<open>
  \<open>internal/state/memory_store.go\<close> and \<open>memory_runs_queue.go\<close>: the in-memory store. Every
  method runs under the store's mutex, so each is one atomic step on the state. The theory
  ends with the interpretations of the store contracts and the properties of the queue, the
  run reads and the idempotency cache.
\<close>

record 'b MemoryStore =
  productHash :: "(uint64, (string, string) gomap) gomap"
  runs :: "(string, RunRecord) gomap"
  runProducts :: "(string, ProductProcessResult list) gomap"
  idem :: "(uint64, (string, (string, 'b IdempotencyRecord) gomap) gomap) gomap"

definition NewMemoryStore :: "'b MemoryStore" where
  "NewMemoryStore = \<lparr>productHash = [], runs = [], runProducts = [], idem = []\<rparr>"

section \<open>Canonical product state\<close>

definition mem_GetProductHash :: "'b MemoryStore \<Rightarrow> uint64 \<Rightarrow> string \<Rightarrow> string option res" where
  "mem_GetProductHash s tenantID productKey =
     (case map_of (productHash s) tenantID of
        None \<Rightarrow> Inr None
      | Some m \<Rightarrow> Inr (map_of m productKey))"

definition mem_UpsertProductHash ::
  "uint64 \<Rightarrow> string \<Rightarrow> string \<Rightarrow> 'b MemoryStore \<Rightarrow> go_error option \<times> 'b MemoryStore" where
  "mem_UpsertProductHash tenantID productKey hash s =
     (let m = (case map_of (productHash s) tenantID of None \<Rightarrow> [] | Some m \<Rightarrow> m)
      in (None, s\<lparr>productHash := AList.update tenantID (AList.update productKey hash m) (productHash s)\<rparr>))"

section \<open>Runs\<close>

definition mem_InsertRun :: "RunRecord \<Rightarrow> 'b MemoryStore \<Rightarrow> go_error option \<times> 'b MemoryStore" where
  "mem_InsertRun run s = (None, s\<lparr>runs := AList.update (RunID run) run (runs s)\<rparr>)"

definition mem_InsertRunProducts ::
  "string \<Rightarrow> ProductProcessResult list \<Rightarrow> 'b MemoryStore \<Rightarrow> go_error option \<times> 'b MemoryStore" where
  "mem_InsertRunProducts runID products s =
     (None, s\<lparr>runProducts := AList.update runID products (runProducts s)\<rparr>)"

definition mem_ListRuns ::
  "RunRecord permuter \<Rightarrow> 'b MemoryStore \<Rightarrow> uint64 \<Rightarrow> int \<Rightarrow> RunRecord list res" where
  "mem_ListRuns rng s tenantID limit =
     (let out = filter (\<lambda>r. TenantID r = tenantID) (rng (map snd (runs s)));
          out = sort_key (\<lambda>r. - CreatedAt r) out
      in if limit \<le> 0 \<or> limit > int (length out) then Inr out else Inr (take (nat limit) out))"

definition mem_GetRun :: "'b MemoryStore \<Rightarrow> uint64 \<Rightarrow> string \<Rightarrow> RunRecord option res" where
  "mem_GetRun s tenantID runID =
     (case map_of (runs s) runID of
        None \<Rightarrow> Inr None
      | Some r \<Rightarrow> if TenantID r \<noteq> tenantID then Inr None else Inr (Some r))"

definition mem_ListRunProducts ::
  "ProductProcessResult permuter \<Rightarrow> 'b MemoryStore \<Rightarrow> string \<Rightarrow> int \<Rightarrow> ProductProcessResult list res" where
  "mem_ListRunProducts rng s runID limit =
     (case map_of (runProducts s) runID of
        None \<Rightarrow> Inr []
      | Some items \<Rightarrow>
          (let out = sort_key ResProductKey (rng items)
           in if limit \<le> 0 \<or> limit > int (length out) then Inr out else Inr (take (nat limit) out)))"

section \<open>Idempotency cache\<close>

definition mem_GetIdempotency ::
  "time \<Rightarrow> 'b MemoryStore \<Rightarrow> uint64 \<Rightarrow> string \<Rightarrow> string \<Rightarrow> 'b IdempotencyRecord option res" where
  "mem_GetIdempotency now s tenantID endpoint idemKeyHash =
     (case map_of (idem s) tenantID of
        None \<Rightarrow> Inr None
      | Some te \<Rightarrow>
          (case map_of te endpoint of
             None \<Rightarrow> Inr None
           | Some ep \<Rightarrow>
               (case map_of ep idemKeyHash of
                  None \<Rightarrow> Inr None
                | Some rec \<Rightarrow> if now > ExpiresAt rec then Inr None else Inr (Some rec))))"

definition mem_PutIdempotency ::
  "uint64 \<Rightarrow> string \<Rightarrow> string \<Rightarrow> 'b IdempotencyRecord \<Rightarrow> 'b MemoryStore \<Rightarrow> go_error option \<times> 'b MemoryStore" where
  "mem_PutIdempotency tenantID endpoint idemKeyHash rec s =
     (let te = (case map_of (idem s) tenantID of None \<Rightarrow> [] | Some te \<Rightarrow> te);
          ep = (case map_of te endpoint of None \<Rightarrow> [] | Some ep \<Rightarrow> ep)
      in (None, s\<lparr>idem := AList.update tenantID
                    (AList.update endpoint (AList.update idemKeyHash rec ep) te) (idem s)\<rparr>))"

definition HashIdempotencyKey :: "string \<Rightarrow> string" where
  "HashIdempotencyKey key = sha256_hex key"

text \<open>\<open>json.Marshal\<close> of the warning struct cannot fail.\<close>

definition WarningsToJSON :: "UnknownKeyWarning \<Rightarrow> string" where
  "WarningsToJSON w =
     (let keys = sort (UnknownKeys w)
      in the (marshal_opt (AMap [(''unknown_keys'', AList (map AStr keys))])))"

section \<open>The queue of runs\<close>

definition mark_claimed :: "RunRecord \<Rightarrow> 'b MemoryStore \<Rightarrow> 'b MemoryStore" where
  "mark_claimed r s = s\<lparr>runs := AList.update (RunID r) (r\<lparr>Status := ''processing''\<rparr>) (runs s)\<rparr>"

definition mem_ClaimRuns ::
  "RunRecord permuter \<Rightarrow> int \<Rightarrow> 'b MemoryStore \<Rightarrow> RunClaim list res \<times> 'b MemoryStore" where
  "mem_ClaimRuns rng limit s =
     (let limit = (if limit \<le> 0 then 10 else limit);
          candidates = filter (\<lambda>r. Status r = ''has_changes'' \<and> PushTriggered r \<and> TenantID r \<noteq> 0)
                         (rng (map snd (runs s)));
          candidates = sort_key CreatedAt candidates;
          candidates = (if int (length candidates) > limit then take (nat limit) candidates else candidates)
      in (Inr (map (\<lambda>r. \<lparr>ClaimRunID = RunID r, ClaimTenantID = TenantID r\<rparr>) candidates),
          fold mark_claimed candidates s))"

definition mem_set_status ::
  "string \<Rightarrow> uint64 \<Rightarrow> string \<Rightarrow> 'b MemoryStore \<Rightarrow> go_error option \<times> 'b MemoryStore" where
  "mem_set_status st tenantID runID s =
     (case map_of (runs s) runID of
        None \<Rightarrow> (None, s)
      | Some r \<Rightarrow> if TenantID r \<noteq> tenantID then (None, s)
                 else (None, s\<lparr>runs := AList.update runID (r\<lparr>Status := st\<rparr>) (runs s)\<rparr>))"

definition mem_CompleteRun :: "uint64 \<Rightarrow> string \<Rightarrow> 'b MemoryStore \<Rightarrow> go_error option \<times> 'b MemoryStore" where
  "mem_CompleteRun tenantID runID s = mem_set_status ''completed'' tenantID runID s"

definition mem_FailRun :: "uint64 \<Rightarrow> string \<Rightarrow> string \<Rightarrow> 'b MemoryStore \<Rightarrow> go_error option \<times> 'b MemoryStore" where
  "mem_FailRun tenantID runID message s = mem_set_status ''failed'' tenantID runID s"

text \<open>The store as a value of the \<open>Store\<close> interface.\<close>

definition memory_Store :: "('b MemoryStore, 'b) Store" where
  "memory_Store =
     \<lparr>GetProductHash = mem_GetProductHash, UpsertProductHash = mem_UpsertProductHash,
      InsertRun = mem_InsertRun, InsertRunProducts = mem_InsertRunProducts,
      GetIdempotency = mem_GetIdempotency, PutIdempotency = mem_PutIdempotency,
      ListRuns = mem_ListRuns, GetRun = mem_GetRun, ListRunProducts = mem_ListRunProducts,
      ClaimRuns = mem_ClaimRuns, CompleteRun = mem_CompleteRun, FailRun = mem_FailRun\<rparr>"

lemma memory_Store_simps [simp]:
  "GetProductHash memory_Store = mem_GetProductHash" "UpsertProductHash memory_Store = mem_UpsertProductHash"
  "InsertRun memory_Store = mem_InsertRun" "InsertRunProducts memory_Store = mem_InsertRunProducts"
  "GetIdempotency memory_Store = mem_GetIdempotency" "PutIdempotency memory_Store = mem_PutIdempotency"
  "ListRuns memory_Store = mem_ListRuns" "GetRun memory_Store = mem_GetRun"
  "ListRunProducts memory_Store = mem_ListRunProducts" "ClaimRuns memory_Store = mem_ClaimRuns"
  "CompleteRun memory_Store = mem_CompleteRun" "FailRun memory_Store = mem_FailRun"
  by (simp_all add: memory_Store_def)

section \<open>Well-formed stores\<close>

text \<open>Maps have distinct keys and a run is stored under its own identifier.\<close>

definition wf_store :: "'b MemoryStore \<Rightarrow> bool" where
  "wf_store s \<longleftrightarrow> wf_gomap (productHash s) \<and> wf_gomap (runs s) \<and> wf_gomap (runProducts s) \<and>
     wf_gomap (idem s) \<and> (\<forall>i r. map_of (runs s) i = Some r \<longrightarrow> RunID r = i)"

lemma wf_store_New [simp, inv_intros]: "wf_store NewMemoryStore"
  by (simp add: wf_store_def NewMemoryStore_def)

lemma wf_store_UpsertProductHash [inv_intros]: "wf_store s \<Longrightarrow> wf_store (snd (mem_UpsertProductHash t k h s))"
  by (simp add: wf_store_def mem_UpsertProductHash_def Let_def wf_gomap_update)

lemma wf_store_InsertRun [inv_intros]: "wf_store s \<Longrightarrow> wf_store (snd (mem_InsertRun r s))"
  by (auto simp: wf_store_def mem_InsertRun_def wf_gomap_update)

lemma wf_store_InsertRunProducts [inv_intros]: "wf_store s \<Longrightarrow> wf_store (snd (mem_InsertRunProducts i ps s))"
  by (simp add: wf_store_def mem_InsertRunProducts_def wf_gomap_update)

lemma wf_store_PutIdempotency [inv_intros]: "wf_store s \<Longrightarrow> wf_store (snd (mem_PutIdempotency t e k rec s))"
  by (simp add: wf_store_def mem_PutIdempotency_def Let_def wf_gomap_update)

lemma wf_store_mark_claimed [inv_intros]: "wf_store s \<Longrightarrow> wf_store (mark_claimed r s)"
  by (auto simp: wf_store_def mark_claimed_def wf_gomap_update)

lemma wf_store_fold_mark [inv_intros]: "wf_store s \<Longrightarrow> wf_store (fold mark_claimed rs s)"
  by (induction rs arbitrary: s) (auto intro: wf_store_mark_claimed)

lemma wf_store_ClaimRuns [inv_intros]: "wf_store s \<Longrightarrow> wf_store (snd (mem_ClaimRuns p l s))"
  unfolding mem_ClaimRuns_def Let_def snd_conv by (rule wf_store_fold_mark)

lemma wf_store_set_status [inv_intros]: "wf_store s \<Longrightarrow> wf_store (snd (mem_set_status st t i s))"
  by (auto simp: wf_store_def mem_set_status_def wf_gomap_update split: option.split)

lemma wf_store_CompleteRun [inv_intros]: "wf_store s \<Longrightarrow> wf_store (snd (mem_CompleteRun t i s))"
  unfolding mem_CompleteRun_def by (rule wf_store_set_status)

lemma wf_store_FailRun [inv_intros]: "wf_store s \<Longrightarrow> wf_store (snd (mem_FailRun t i m s))"
  unfolding mem_FailRun_def by (rule wf_store_set_status)

section \<open>Interpretations of the contracts\<close>

interpretation mem_hashes: product_hashes mem_GetProductHash mem_UpsertProductHash wf_store
proof
  fix s :: "'b MemoryStore" and t k
  assume "wf_store s"
  show "\<exists>v. mem_GetProductHash s t k = Inr v"
    by (simp add: mem_GetProductHash_def split: option.split)
next
  fix s :: "'b MemoryStore" and t k h t' k'
  show "fst (mem_UpsertProductHash t k h s) = None"
    by (simp add: mem_UpsertProductHash_def Let_def)
  show "mem_GetProductHash (snd (mem_UpsertProductHash t k h s)) t' k' =
      (if t' = t \<and> k' = k then Inr (Some h) else mem_GetProductHash s t' k')"
    by (auto simp: mem_GetProductHash_def mem_UpsertProductHash_def Let_def split: option.split)
qed (rule wf_store_UpsertProductHash)

interpretation mem_idem: idempotency_cache mem_GetIdempotency mem_PutIdempotency wf_store
proof
  fix s :: "'b MemoryStore" and now t e k
  assume "wf_store s"
  show "\<exists>v. mem_GetIdempotency now s t e k = Inr v"
    by (auto simp: mem_GetIdempotency_def split: option.split)
next
  fix s :: "'b MemoryStore" and now t e k rec t' e' k'
  show "mem_GetIdempotency now (snd (mem_PutIdempotency t e k rec s)) t' e' k' =
      (if t' = t \<and> e' = e \<and> k' = k then Inr (if ExpiresAt rec < now then None else Some rec)
       else mem_GetIdempotency now s t' e' k')"
    by (auto simp: mem_GetIdempotency_def mem_PutIdempotency_def Let_def split: option.split)
  show "fst (mem_PutIdempotency t e k rec s) = None"
    by (simp add: mem_PutIdempotency_def Let_def)
qed (rule wf_store_PutIdempotency)

lemma run_mem_iff: "wf_store s \<Longrightarrow> r \<in> snd ` set (runs s) \<longleftrightarrow> map_of (runs s) (RunID r) = Some r"
proof
  assume wf: "wf_store s" and "r \<in> snd ` set (runs s)"
  then obtain i where "(i, r) \<in> set (runs s)" by auto
  with wf show "map_of (runs s) (RunID r) = Some r"
    by (simp add: wf_store_def flip: wf_gomap_map_of_iff)
next
  assume "map_of (runs s) (RunID r) = Some r"
  then show "r \<in> snd ` set (runs s)" by (metis map_of_SomeD image_eqI snd_conv)
qed

lemma run_ids: "wf_store s \<Longrightarrow> map RunID (map snd (runs s)) = map fst (runs s)"
  by (auto simp: wf_store_def simp flip: wf_gomap_map_of_iff)

lemma run_ids_distinct: "wf_store s \<Longrightarrow> distinct (map RunID (map snd (runs s)))"
  unfolding run_ids by (simp add: wf_store_def wf_gomap_def)

lemma runs_fold_mark:
  "distinct (map RunID rs) \<Longrightarrow> \<forall>r \<in> set rs. map_of (runs s) (RunID r) = Some r \<Longrightarrow>
   map_of (runs (fold mark_claimed rs s)) = mark_processing (RunID ` set rs) (map_of (runs s))"
proof (induction rs arbitrary: s)
  case Nil
  show ?case by (simp add: mark_processing_def fun_eq_iff)
next
  case (Cons r rs)
  have "\<forall>r' \<in> set rs. map_of (runs (mark_claimed r s)) (RunID r') = Some r'"
  proof
    fix r' assume r': "r' \<in> set rs"
    then have "RunID r' \<in> set (map RunID rs)" by simp
    then have "RunID r' \<noteq> RunID r" using Cons.prems(1) by (metis distinct.simps(2) list.simps(9))
    moreover have "map_of (runs s) (RunID r') = Some r'" using Cons.prems(2) r' by simp
    ultimately show "map_of (runs (mark_claimed r s)) (RunID r') = Some r'"
      by (simp add: mark_claimed_def)
  qed
  then have "map_of (runs (fold mark_claimed rs (mark_claimed r s))) =
      mark_processing (RunID ` set rs) (map_of (runs (mark_claimed r s)))"
    using Cons.IH Cons.prems(1) by simp
  moreover have "mark_processing (RunID ` set rs) (map_of (runs (mark_claimed r s))) =
      mark_processing (RunID ` set (r # rs)) (map_of (runs s))"
  proof (rule ext)
    fix j
    have "RunID r \<notin> RunID ` set rs" "map_of (runs s) (RunID r) = Some r"
      using Cons.prems by auto
    then show "mark_processing (RunID ` set rs) (map_of (runs (mark_claimed r s))) j =
        mark_processing (RunID ` set (r # rs)) (map_of (runs s)) j"
      by (cases "j = RunID r") (simp_all add: mark_processing_def mark_claimed_def)
  qed
  ultimately show ?case by simp
qed

text \<open>The runs a claim picks.\<close>

definition claim_pick :: "RunRecord permuter \<Rightarrow> int \<Rightarrow> 'b MemoryStore \<Rightarrow> RunRecord list" where
  "claim_pick rng limit s =
     take (claim_limit limit) (sort_key CreatedAt (filter claimable (rng (map snd (runs s)))))"

lemma mem_ClaimRuns_pick:
  "mem_ClaimRuns rng limit s =
     (Inr (map claim_of (claim_pick rng limit s)), fold mark_claimed (claim_pick rng limit s) s)"
proof -
  have "claimable = (\<lambda>r. Status r = ''has_changes'' \<and> PushTriggered r \<and> TenantID r \<noteq> 0)"
    by (simp add: claimable_def fun_eq_iff)
  then show ?thesis
    by (auto simp: mem_ClaimRuns_def claim_pick_def claim_limit_def claim_of_def Let_def)
qed

lemma claim_pick_props:
  assumes "wf_store s" "is_permuter p"
  shows "distinct (map RunID (claim_pick p limit s))"
    and "length (claim_pick p limit s) \<le> claim_limit limit"
    and "sorted (map CreatedAt (claim_pick p limit s))"
    and "r \<in> set (claim_pick p limit s) \<Longrightarrow> claimable r \<and> map_of (runs s) (RunID r) = Some r"
proof -
  let ?c = "filter claimable (p (map snd (runs s)))"
  have "distinct (map RunID (p (map snd (runs s))))"
    using run_ids_distinct [OF assms(1)] permuter_distinct_map [OF assms(2)] by metis
  then have "distinct (map RunID ?c)" by (rule distinct_map_filter)
  then have "distinct (map RunID (sort_key CreatedAt ?c))"
    by (metis mset_eq_imp_distinct_iff mset_map mset_sort)
  then show "distinct (map RunID (claim_pick p limit s))"
    by (simp add: claim_pick_def flip: take_map)
  show "length (claim_pick p limit s) \<le> claim_limit limit"
    by (simp add: claim_pick_def)
  show "sorted (map CreatedAt (claim_pick p limit s))"
    by (simp add: claim_pick_def sorted_wrt_take flip: take_map)
  assume "r \<in> set (claim_pick p limit s)"
  then have "r \<in> set ?c" by (auto simp: claim_pick_def dest: in_set_takeD)
  then show "claimable r \<and> map_of (runs s) (RunID r) = Some r"
    using run_mem_iff [OF assms(1)] by (simp add: permuter_set [OF assms(2)])
qed

text \<open>What is left waiting is not older than what was picked, and the pick was full.\<close>

lemma claim_pick_oldest:
  assumes "wf_store s" "is_permuter p" "claimable r" "map_of (runs s) (RunID r) = Some r"
    "r \<notin> set (claim_pick p limit s)"
  shows "length (claim_pick p limit s) = claim_limit limit \<and>
    (\<forall>r' \<in> set (claim_pick p limit s). CreatedAt r' \<le> CreatedAt r)"
proof -
  let ?c = "filter claimable (p (map snd (runs s)))"
  have r: "r \<in> set ?c"
    using assms(3,4) run_mem_iff [OF assms(1), of r] by (simp add: permuter_set [OF assms(2)])
  have "claim_limit limit < length ?c"
  proof (rule ccontr)
    assume "\<not> ?thesis"
    then have "set (claim_pick p limit s) = set ?c" by (simp add: claim_pick_def)
    with r assms(5) show False by simp
  qed
  moreover have "CreatedAt r' \<le> CreatedAt r" if "r' \<in> set (claim_pick p limit s)" for r'
    using take_sort_key_le [OF _ r] that assms(5) unfolding claim_pick_def by blast
  ultimately show ?thesis by (simp add: claim_pick_def)
qed

lemma mem_set_status_spec:
  "wf_store s \<Longrightarrow> fst (mem_set_status st t i s) = None \<and>
     map_of (runs (snd (mem_set_status st t i s))) = set_status t i st (map_of (runs s))"
  by (auto simp: mem_set_status_def set_status_def fun_eq_iff split: option.split)

interpretation mem_queue: run_queue mem_ClaimRuns mem_CompleteRun mem_FailRun
  "\<lambda>s :: 'b MemoryStore. map_of (runs s)" wf_store
proof
  fix s :: "'b MemoryStore" and p :: "RunRecord permuter" and limit
  assume wf: "wf_store s" and p: "is_permuter p"
  note props = claim_pick_props [OF wf p]
  have "map_of (runs (fold mark_claimed (claim_pick p limit s) s)) =
      mark_processing (RunID ` set (claim_pick p limit s)) (map_of (runs s))"
    using props(1,4) by (intro runs_fold_mark) auto
  then show "\<exists>rs s'. mem_ClaimRuns p limit s = (Inr (map claim_of rs), s') \<and>
      distinct (map RunID rs) \<and> length rs \<le> claim_limit limit \<and> sorted (map CreatedAt rs) \<and>
      (\<forall>r \<in> set rs. claimable r \<and> map_of (runs s) (RunID r) = Some r) \<and>
      (\<forall>r. claimable r \<longrightarrow> map_of (runs s) (RunID r) = Some r \<longrightarrow> r \<notin> set rs \<longrightarrow>
         length rs = claim_limit limit \<and> (\<forall>r' \<in> set rs. CreatedAt r' \<le> CreatedAt r)) \<and>
      map_of (runs s') = mark_processing (RunID ` set rs) (map_of (runs s)) \<and> wf_store s'"
    using props claim_pick_oldest [OF wf p] wf_store_fold_mark [OF wf]
    by (intro exI [of _ "claim_pick p limit s"] exI [of _ "fold mark_claimed (claim_pick p limit s) s"])
      (auto simp: mem_ClaimRuns_pick)
next
  fix s :: "'b MemoryStore" and t i m
  assume wf: "wf_store s"
  show "fst (mem_CompleteRun t i s) = None \<and> wf_store (snd (mem_CompleteRun t i s)) \<and>
      map_of (runs (snd (mem_CompleteRun t i s))) = set_status t i ''completed'' (map_of (runs s))"
    using mem_set_status_spec [OF wf] wf_store_set_status [OF wf] by (simp add: mem_CompleteRun_def)
  show "fst (mem_FailRun t i m s) = None \<and> wf_store (snd (mem_FailRun t i m s)) \<and>
      map_of (runs (snd (mem_FailRun t i m s))) = set_status t i ''failed'' (map_of (runs s))"
    using mem_set_status_spec [OF wf] wf_store_set_status [OF wf] by (simp add: mem_FailRun_def)
next
  fix s :: "'b MemoryStore" and i r
  assume "wf_store s" "map_of (runs s) i = Some r"
  then show "RunID r = i" by (simp add: wf_store_def)
qed

section \<open>Properties\<close>

text \<open>A run for the witnesses.\<close>

definition sample_run :: "string \<Rightarrow> uint64 \<Rightarrow> time \<Rightarrow> RunRecord" where
  "sample_run i t created =
     \<lparr>RunID = i, TenantID = t, FeedID = None, Status = ''has_changes'', PushTriggered = True,
      RunReceived = 1, RunValid = 1, RunRejected = 0, RunUnchanged = 0, RunEnqueued = 1,
      RunWarnings = \<lparr>UnknownKeys = []\<rparr>, CreatedAt = created\<rparr>"

lemma sample_run_simps [simp]:
  "RunID (sample_run i t c) = i" "TenantID (sample_run i t c) = t" "Status (sample_run i t c) = ''has_changes''"
  "PushTriggered (sample_run i t c)" "CreatedAt (sample_run i t c) = c"
  by (simp_all add: sample_run_def)

definition sample_store :: "unit MemoryStore" where
  "sample_store = snd (mem_InsertRun (sample_run ''r1'' 1 10) (snd (mem_InsertRun (sample_run ''r2'' 2 20) NewMemoryStore)))"

lemma wf_sample_store [simp]: "wf_store sample_store"
  unfolding sample_store_def by (intro inv_intros)

lemma runs_sample_store: "runs sample_store = [(''r2'', sample_run ''r2'' 2 20), (''r1'', sample_run ''r1'' 1 10)]"
  by (simp add: sample_store_def mem_InsertRun_def NewMemoryStore_def)

text \<open>Claiming: \<open>ClaimRuns\<close> returns the oldest waiting runs in order of creation, each once and
  at most the limit (10 when the limit is not positive); it marks exactly these runs as
  processing and changes no other run; whatever stays waiting is not older than any claimed run
  and stays only because the limit was reached.\<close>

theorem claim_runs_spec:
  assumes "wf_store s" "is_permuter rng"
  shows "\<exists>rs s'. mem_ClaimRuns rng limit s = (Inr (map claim_of rs), s') \<and>
    distinct (map RunID rs) \<and> length rs \<le> claim_limit limit \<and> sorted (map CreatedAt rs) \<and>
    (\<forall>r \<in> set rs. claimable r \<and> map_of (runs s) (RunID r) = Some r) \<and>
    (\<forall>r. claimable r \<longrightarrow> map_of (runs s) (RunID r) = Some r \<longrightarrow> r \<notin> set rs \<longrightarrow>
       length rs = claim_limit limit \<and> (\<forall>r' \<in> set rs. CreatedAt r' \<le> CreatedAt r)) \<and>
    map_of (runs s') = mark_processing (RunID ` set rs) (map_of (runs s)) \<and> wf_store s'"
  using assms by (rule mem_queue.claim_spec)

theorem claim_runs_spec_witness:
  "\<exists>rs s'. mem_ClaimRuns rev 1 sample_store = (Inr (map claim_of rs), s') \<and>
     sorted (map CreatedAt rs) \<and> map_of (runs s') ''r2'' = Some (sample_run ''r2'' 2 20)"
proof -
  obtain rs s' where r: "mem_ClaimRuns rev 1 sample_store = (Inr (map claim_of rs), s')"
    "sorted (map CreatedAt rs)" "length rs \<le> claim_limit 1"
    "\<forall>r. claimable r \<longrightarrow> map_of (runs sample_store) (RunID r) = Some r \<longrightarrow> r \<notin> set rs \<longrightarrow>
       length rs = claim_limit 1 \<and> (\<forall>r' \<in> set rs. CreatedAt r' \<le> CreatedAt r)"
    "map_of (runs s') = mark_processing (RunID ` set rs) (map_of (runs sample_store))"
    "\<forall>r \<in> set rs. claimable r \<and> map_of (runs sample_store) (RunID r) = Some r"
    using claim_runs_spec [OF wf_sample_store permuter_rev, of 1] by blast
  have "sample_run ''r2'' 2 20 \<notin> set rs"
  proof
    assume in2: "sample_run ''r2'' 2 20 \<in> set rs"
    have "length rs \<le> 1" using r(3) by (simp add: claim_limit_def)
    with in2 have rs: "rs = [sample_run ''r2'' 2 20]" by (cases rs) auto
    have "claimable (sample_run ''r1'' 1 10)" "map_of (runs sample_store) (RunID (sample_run ''r1'' 1 10)) = Some (sample_run ''r1'' 1 10)"
      "sample_run ''r1'' 1 10 \<notin> set rs"
      using rs by (auto simp: claimable_def runs_sample_store sample_run_def)
    with r(4) in2 show False by fastforce
  qed
  then have "''r2'' \<notin> RunID ` set rs"
    using r(6) by (auto simp: runs_sample_store)
  with r show ?thesis
    by (auto simp: mark_processing_def runs_sample_store)
qed

text \<open>No run is claimed twice: two claims in a row, whatever their limits and the runtime's
  choices, never return the same run.\<close>

theorem claims_disjoint:
  assumes "wf_store s" "is_permuter p" "is_permuter q"
    "mem_ClaimRuns p l s = (Inr cs, s1)" "mem_ClaimRuns q l' s1 = (Inr ds, s2)"
  shows "ClaimRunID ` set cs \<inter> ClaimRunID ` set ds = {}"
  using assms by (rule mem_queue.claim_twice_disjoint)

theorem claims_disjoint_witness:
  "\<exists>cs ds s1 s2. mem_ClaimRuns (\<lambda>xs. xs) 1 sample_store = (Inr cs, s1) \<and>
     mem_ClaimRuns rev 1 s1 = (Inr ds, s2) \<and> ClaimRunID ` set cs \<inter> ClaimRunID ` set ds = {}"
proof -
  obtain cs s1 where c: "mem_ClaimRuns (\<lambda>xs. xs) 1 sample_store = (Inr cs, s1)"
    by (simp add: mem_ClaimRuns_pick)
  obtain ds s2 where d: "mem_ClaimRuns rev 1 s1 = (Inr ds, s2)"
    by (simp add: mem_ClaimRuns_pick)
  show ?thesis
    using c d claims_disjoint [OF wf_sample_store permuter_id permuter_rev c d] by blast
qed

lemma mem_ListRuns_spec:
  assumes "wf_store s" "is_permuter rng"
  shows "\<exists>rs. mem_ListRuns rng s tenant limit = Inr rs \<and> distinct (map RunID rs) \<and>
    (\<forall>r \<in> set rs. TenantID r = tenant \<and> map_of (runs s) (RunID r) = Some r) \<and>
    sorted (map (\<lambda>r. - CreatedAt r) rs) \<and> (0 < limit \<longrightarrow> length rs \<le> nat limit) \<and>
    (\<forall>r. TenantID r = tenant \<longrightarrow> map_of (runs s) (RunID r) = Some r \<longrightarrow> r \<notin> set rs \<longrightarrow>
       0 < limit \<and> length rs = nat limit \<and> (\<forall>r' \<in> set rs. CreatedAt r \<le> CreatedAt r'))"
proof -
  define c where "c = filter (\<lambda>r. TenantID r = tenant) (rng (map snd (runs s)))"
  define n where "n = (if limit \<le> 0 then length c else nat limit)"
  define rs where "rs = take n (sort_key (\<lambda>r. - CreatedAt r) c)"
  have list: "mem_ListRuns rng s tenant limit = Inr rs"
    by (auto simp: mem_ListRuns_def Let_def rs_def n_def simp flip: c_def)
  have set_c: "r \<in> set c \<longleftrightarrow> TenantID r = tenant \<and> map_of (runs s) (RunID r) = Some r" for r
    using run_mem_iff [OF assms(1)] by (auto simp: c_def permuter_set [OF assms(2)])
  have "distinct (map RunID (rng (map snd (runs s))))"
    using run_ids_distinct [OF assms(1)] permuter_distinct_map [OF assms(2)] by metis
  then have "distinct (map RunID c)" unfolding c_def by (rule distinct_map_filter)
  then have "distinct (map RunID (sort_key (\<lambda>r. - CreatedAt r) c))"
    by (metis mset_eq_imp_distinct_iff mset_map mset_sort)
  then have dist: "distinct (map RunID rs)" by (simp add: rs_def flip: take_map)
  have sub: "r \<in> set c" if "r \<in> set rs" for r
    using that set_take_sort_key_subset unfolding rs_def by fast
  have sort: "sorted (map (\<lambda>r. - CreatedAt r) rs)"
    by (simp add: rs_def sorted_wrt_take flip: take_map)
  have rest: "0 < limit \<and> length rs = nat limit \<and> (\<forall>r' \<in> set rs. CreatedAt r \<le> CreatedAt r')"
    if "r \<in> set c" "r \<notin> set rs" for r
  proof -
    have "n < length c"
      using that by (cases "n < length c") (auto simp: rs_def)
    moreover have "- CreatedAt r' \<le> - CreatedAt r" if "r' \<in> set rs" for r'
      using take_sort_key_le [of r' n "\<lambda>r. - CreatedAt r" c r] \<open>r \<in> set c\<close> \<open>r \<notin> set rs\<close> that
      unfolding rs_def by blast
    ultimately show ?thesis by (auto simp: n_def rs_def split: if_splits)
  qed
  have len: "0 < limit \<longrightarrow> length rs \<le> nat limit"
    by (simp add: rs_def n_def)
  have mem: "\<forall>r \<in> set rs. TenantID r = tenant \<and> map_of (runs s) (RunID r) = Some r"
    using sub set_c by blast
  have out: "\<forall>r. TenantID r = tenant \<longrightarrow> map_of (runs s) (RunID r) = Some r \<longrightarrow> r \<notin> set rs \<longrightarrow>
      0 < limit \<and> length rs = nat limit \<and> (\<forall>r' \<in> set rs. CreatedAt r \<le> CreatedAt r')"
    using rest set_c by blast
  from list dist mem sort len out show ?thesis by blast
qed

text \<open>Listing runs: \<open>ListRuns\<close> returns stored runs of the asking tenant only, each once, newest
  first and at most the limit (all of them when it is not positive); a run of the tenant that is
  left out is not newer than any that is returned.\<close>

theorem list_runs_spec:
  assumes "wf_store s" "is_permuter rng"
  shows "\<exists>rs. mem_ListRuns rng s tenant limit = Inr rs \<and> distinct (map RunID rs) \<and>
    (\<forall>r \<in> set rs. TenantID r = tenant \<and> map_of (runs s) (RunID r) = Some r) \<and>
    sorted (map (\<lambda>r. - CreatedAt r) rs) \<and> (0 < limit \<longrightarrow> length rs \<le> nat limit) \<and>
    (\<forall>r. TenantID r = tenant \<longrightarrow> map_of (runs s) (RunID r) = Some r \<longrightarrow> r \<notin> set rs \<longrightarrow>
       0 < limit \<and> length rs = nat limit \<and> (\<forall>r' \<in> set rs. CreatedAt r \<le> CreatedAt r'))"
  using assms by (rule mem_ListRuns_spec)

theorem list_runs_spec_witness:
  "\<exists>rs. mem_ListRuns rev sample_store 2 50 = Inr rs \<and> set rs = {sample_run ''r2'' 2 20}"
proof -
  obtain rs where rs: "mem_ListRuns rev sample_store 2 50 = Inr rs"
    "\<forall>r \<in> set rs. TenantID r = 2 \<and> map_of (runs sample_store) (RunID r) = Some r"
    "\<forall>r. TenantID r = 2 \<longrightarrow> map_of (runs sample_store) (RunID r) = Some r \<longrightarrow> r \<notin> set rs \<longrightarrow>
       0 < (50::int) \<and> length rs = nat 50 \<and> (\<forall>r' \<in> set rs. CreatedAt r \<le> CreatedAt r')"
    and d: "distinct (map RunID rs)"
    using list_runs_spec [OF wf_sample_store permuter_rev, of 2 50] by blast
  have sub: "set rs \<subseteq> {sample_run ''r2'' 2 20}"
  proof
    fix r assume "r \<in> set rs"
    then have t: "TenantID r = 2" and m: "map_of (runs sample_store) (RunID r) = Some r"
      using rs(2) by blast+
    from m have "r \<in> snd ` set (runs sample_store)" by (simp add: run_mem_iff)
    with t show "r \<in> {sample_run ''r2'' 2 20}" by (auto simp: runs_sample_store)
  qed
  then have "length rs \<le> 1"
    using d by (metis card_mono distinct_card distinct_map finite.emptyI finite_insert is_singletonI
        is_singleton_altdef)
  then have "sample_run ''r2'' 2 20 \<in> set rs"
    using rs(3) [rule_format, of "sample_run ''r2'' 2 20"] by (auto simp: runs_sample_store)
  with sub rs(1) show ?thesis by auto
qed

text \<open>Tenant isolation of run reads: a run read for a tenant is that tenant's run under the
  requested identifier, and a run of another tenant is reported as missing.\<close>

theorem get_run_isolated:
  assumes "wf_store s"
  shows "mem_GetRun s tenant i = Inr (Some r) \<longleftrightarrow>
    map_of (runs s) i = Some r \<and> TenantID r = tenant \<and> RunID r = i"
  using assms by (auto simp: mem_GetRun_def wf_store_def split: option.split)

theorem get_run_isolated_witness:
  "mem_GetRun sample_store 1 ''r1'' = Inr (Some (sample_run ''r1'' 1 10)) \<and>
   mem_GetRun sample_store 2 ''r1'' \<noteq> Inr (Some (sample_run ''r1'' 1 10))"
  using get_run_isolated [OF wf_sample_store, of 1 "''r1''" "sample_run ''r1'' 1 10"]
    get_run_isolated [OF wf_sample_store, of 2 "''r1''" "sample_run ''r1'' 1 10"]
  by (simp add: runs_sample_store)

text \<open>The idempotency cache: a stored response is returned under its tenant, endpoint and key
  until it expires and never afterwards, and storing it changes the answer for no other tenant,
  endpoint or key.\<close>

theorem idempotency_cache_spec:
  assumes "wf_store s"
  shows "mem_GetIdempotency now (snd (mem_PutIdempotency t e k rec s)) t' e' k' =
    (if (t', e', k') = (t, e, k) then Inr (if ExpiresAt rec < now then None else Some rec)
     else mem_GetIdempotency now s t' e' k')"
  using mem_idem.iget_put [OF assms] by auto

theorem idempotency_cache_spec_witness:
  "mem_GetIdempotency 5 (snd (mem_PutIdempotency 1 ''/x'' ''k''
     \<lparr>StatusCode = 200, BodyJSON = (), ExpiresAt = 4, IdemCreatedAt = 0\<rparr> sample_store)) 1 ''/x'' ''k'' = Inr None"
  using idempotency_cache_spec [OF wf_sample_store] by simp

end
