(* ===== verification/Tenant_Ctx.thy ===== *)
theory Tenant_Ctx
  imports Prelude
begin

text \<open>
  \<open>internal/api/tenantctx\<close> and \<open>internal/worker/ctx.go\<close>: the values a \<open>context.Context\<close> carries
  through a request or a job. A context has one slot per key type of the code: the tenant and
  the run identifier; \<open>None\<close> is a key that was never set.
\<close>

record Context =
  ctxKeyTenantID :: "uint64 option"
  runIDKey :: "string option"

definition Background :: Context where
  "Background = \<lparr>ctxKeyTenantID = None, runIDKey = None\<rparr>"

definition DefaultTenantID :: uint64 where
  [simp]: "DefaultTenantID = 1"

definition WithTenantID :: "Context \<Rightarrow> uint64 \<Rightarrow> Context" where
  "WithTenantID ctx tenantID = ctx\<lparr>ctxKeyTenantID := Some tenantID\<rparr>"

definition ctx_TenantID :: "Context \<Rightarrow> uint64" where
  "ctx_TenantID ctx =
     (case ctxKeyTenantID ctx of
        None \<Rightarrow> DefaultTenantID
      | Some tid \<Rightarrow> if tid > 0 then tid else DefaultTenantID)"

definition WithRunID :: "Context \<Rightarrow> string \<Rightarrow> Context" where
  "WithRunID ctx runID = (if runID = '''' then ctx else ctx\<lparr>runIDKey := Some runID\<rparr>)"

definition ctx_RunID :: "Context \<Rightarrow> string" where
  "ctx_RunID ctx = (case runIDKey ctx of None \<Rightarrow> '''' | Some s \<Rightarrow> s)"

definition WithTenant :: "Context \<Rightarrow> uint64 \<Rightarrow> Context" where
  "WithTenant ctx tenantID = WithTenantID ctx tenantID"

lemma ctx_TenantID_nonzero: "ctx_TenantID ctx \<noteq> 0"
  by (auto simp: ctx_TenantID_def split: option.split)

lemma ctx_TenantID_With: "ctx_TenantID (WithTenantID ctx t) = (if t = 0 then DefaultTenantID else t)"
  by (simp add: ctx_TenantID_def WithTenantID_def word_gt_0)

lemma ctx_TenantID_WithRunID [simp]: "ctx_TenantID (WithRunID ctx i) = ctx_TenantID ctx"
  by (simp add: ctx_TenantID_def WithRunID_def)

lemma ctx_RunID_WithRunID: "i \<noteq> '''' \<Longrightarrow> ctx_RunID (WithRunID ctx i) = i"
  by (simp add: ctx_RunID_def WithRunID_def)

end
