(* ===== verification/Http.thy ===== *)
theory Http
  imports Memory_Store Tenant_Ctx
begin

text \<open>
  What the API's handlers and middleware use of \<open>net/http\<close>, \<open>bufio\<close>, \<open>crypto/rand\<close> and the
  clock, and the helpers the handlers share (\<open>internal/api/handlers/json.go\<close>,
  \<open>internal/ingest/run_id.go\<close>).

  A handler is a function from the runtime's choices, the request and the state to a response
  and the next state. Every path of the code writes one status and at most one body, so a
  response is a record; a JSON body is the value handed to the encoder, a literal body its text.
  A request body is the bytes that arrive and the error that ends them, if any.
\<close>

record Request =
  Method :: string
  ReqPath :: string
  Query :: "(string, string) gomap"
  Header :: "(string, string) gomap"
  BodyBytes :: string
  BodyErr :: "go_error option"
  ReqCtx :: Context

text \<open>\<open>http.CanonicalHeaderKey\<close> on the header names of the code: a capital at the start and after
  each hyphen, small letters elsewhere.\<close>

definition char_to_upper :: "char \<Rightarrow> char" where
  "char_to_upper c = (if 97 \<le> byte c \<and> byte c \<le> 122 then char_of (byte c - 32) else c)"

fun canonical_from :: "bool \<Rightarrow> string \<Rightarrow> string" where
  "canonical_from start [] = []"
| "canonical_from start (c # cs) =
     (if start then char_to_upper c else char_to_lower c) # canonical_from (c = CHR ''-'') cs"

definition CanonicalHeaderKey :: "string \<Rightarrow> string" where
  "CanonicalHeaderKey k = canonical_from True k"

text \<open>\<open>r.Header.Get\<close> and \<open>r.URL.Query().Get\<close>: the first value, or the empty string. A request
  holds its headers under their canonical names.\<close>

definition HeaderGet :: "Request \<Rightarrow> string \<Rightarrow> string" where
  "HeaderGet r k = (case map_of (Header r) (CanonicalHeaderKey k) of None \<Rightarrow> '''' | Some v \<Rightarrow> v)"

definition QueryGet :: "Request \<Rightarrow> string \<Rightarrow> string" where
  "QueryGet r k = (case map_of (Query r) k of None \<Rightarrow> '''' | Some v \<Rightarrow> v)"

record RunResponse =
  RespRunID :: string
  RespStatus :: RunStatus
  RespPushTriggered :: bool
  RespWarnings :: UnknownKeyWarning
  RespResult :: ProcessOutput

datatype payload =
  PMap "(string \<times> any) list"
| PRun RunResponse
| PRuns "RunRecord list"
| PDetail RunRecord "ProductProcessResult list"

datatype body = EmptyBody | TextBody string | JsonBody payload

record Response =
  RespCode :: nat
  RespHeader :: "(string, string) gomap"
  RespBody :: body

text \<open>The choices of the runtime during one request: the result of reading 16 random bytes, the
  readings of the clock (by the cache lookup, for the run, and twice for the cached response),
  the orders of map iterations and of ties in sorts, and whether a reader reports its end
  together with the last bytes.\<close>

record Runtime =
  RandRead :: "string res"
  NowLookup :: time
  NowRun :: time
  NowCached :: time
  NowExpiry :: time
  RngRuns :: "RunRecord permuter"
  RngProducts :: "ProductProcessResult permuter"
  RngChannels :: "nat \<Rightarrow> string permuter"
  EofWithData :: bool

definition fair_runtime :: "Runtime \<Rightarrow> bool" where
  "fair_runtime rt \<longleftrightarrow> is_permuter (RngRuns rt) \<and> is_permuter (RngProducts rt) \<and> (\<forall>i. is_permuter (RngChannels rt i))"

type_synonym 's handler = "Runtime \<Rightarrow> Request \<Rightarrow> 's \<Rightarrow> Response \<times> 's"

section \<open>Responses\<close>

definition json_header :: "(string, string) gomap" where
  "json_header = [(''Content-Type'', ''application/json; charset=utf-8'')]"

definition writeJSON :: "nat \<Rightarrow> payload \<Rightarrow> Response" where
  "writeJSON status body = \<lparr>RespCode = status, RespHeader = json_header, RespBody = JsonBody body\<rparr>"

definition write_status :: "nat \<Rightarrow> Response" where
  "write_status status = \<lparr>RespCode = status, RespHeader = [], RespBody = EmptyBody\<rparr>"

definition write_text :: "nat \<Rightarrow> string \<Rightarrow> Response" where
  "write_text status text = \<lparr>RespCode = status, RespHeader = json_header, RespBody = TextBody text\<rparr>"

definition error_body :: "string \<Rightarrow> string \<Rightarrow> payload" where
  "error_body err message = PMap [(''error'', AStr err), (''message'', AStr message)]"

definition error_body_with :: "string \<Rightarrow> string \<Rightarrow> string \<Rightarrow> string \<Rightarrow> payload" where
  "error_body_with err message key val =
     PMap [(''error'', AStr err), (''message'', AStr message), (key, AStr val)]"

lemma response_simps [simp]:
  "RespCode (writeJSON st b) = st" "RespBody (writeJSON st b) = JsonBody b"
  "RespCode (write_status st) = st" "RespBody (write_status st) = EmptyBody"
  "RespCode (write_text st x) = st" "RespBody (write_text st x) = TextBody x"
  by (simp_all add: writeJSON_def write_status_def write_text_def)

section \<open>Run identifiers\<close>

definition NewRunID :: "Runtime \<Rightarrow> string res" where
  "NewRunID rt = bind_res (RandRead rt) (\<lambda>b. Inr (''run_'' @ EncodeToString b))"

lemma NewRunID_nonempty: "NewRunID rt = Inr i \<Longrightarrow> i \<noteq> ''''"
  by (auto simp: NewRunID_def bind_res_eq_Inr)

lemma NewRunID_inj:
  "RandRead rt = Inr b \<Longrightarrow> RandRead rt' = Inr b' \<Longrightarrow> NewRunID rt = NewRunID rt' \<Longrightarrow> b = b'"
  by (auto simp: NewRunID_def dest: EncodeToString_inj)

section \<open>Scanning lines\<close>

text \<open>\<open>bufio.Scanner\<close> with \<open>ScanLines\<close> and a buffer of at most 10 MB over a reader that delivers
  \<open>data\<close> and then ends: the lines without their line ends, and whether scanning stopped with
  \<open>ErrTooLong\<close>. A final line without a newline is delivered, also when the reader ends with an
  error; one that fills the buffer exactly passes only if the end was reported with the data.\<close>

definition max_token :: nat where
  "max_token = 10 * 1024 * 1024"

definition drop_cr :: "string \<Rightarrow> string" where
  "drop_cr l = (if l \<noteq> [] \<and> last l = CHR 0x0D then butlast l else l)"

function scan_lines :: "bool \<Rightarrow> string \<Rightarrow> string list \<times> bool" where
  "scan_lines early data =
     (if data = [] then ([], False)
      else let l = takeWhile (\<lambda>c. c \<noteq> CHR 0x0A) data; rest = dropWhile (\<lambda>c. c \<noteq> CHR 0x0A) data in
        if rest = [] then
          (if length l > max_token \<or> (length l = max_token \<and> \<not> early) then ([], True)
           else ([drop_cr l], False))
        else if length l \<ge> max_token then ([], True)
        else let (ls, tooLong) = scan_lines early (tl rest) in (drop_cr l # ls, tooLong))"
  by pat_completeness auto
termination
proof (relation "measure (length \<circ> snd)", simp, goal_cases)
  case (1 early data x xa)
  have "length (dropWhile (\<lambda>c. c \<noteq> CHR 0x0A) data) \<le> length data" by (rule length_dropWhile_le)
  with 1 show ?case by (cases "dropWhile (\<lambda>c. c \<noteq> CHR 0x0A) data") auto
qed

declare scan_lines.simps [simp del]

definition ErrTooLong :: go_error where
  "ErrTooLong = ''bufio.Scanner: token too long''"

text \<open>The lines a scanner yields from a body, and its final \<open>Err()\<close>.\<close>

definition scan_body :: "Runtime \<Rightarrow> string \<times> go_error option \<Rightarrow> string list \<times> go_error option" where
  "scan_body rt b =
     (case scan_lines (EofWithData rt) (fst b) of
        (ls, True) \<Rightarrow> (ls, Some ErrTooLong)
      | (ls, False) \<Rightarrow> (ls, snd b))"

text \<open>Scanning is a left inverse of joining short lines that contain no line ends.\<close>

definition plain_line :: "string \<Rightarrow> bool" where
  "plain_line l \<longleftrightarrow> CHR 0x0A \<notin> set l \<and> CHR 0x0D \<notin> set l \<and> length l < max_token"

lemma drop_cr_plain: "plain_line l \<Longrightarrow> drop_cr l = l"
  unfolding drop_cr_def plain_line_def by (metis last_in_set)

lemma scan_lines_plain:
  "\<forall>l \<in> set ls. plain_line l \<Longrightarrow> scan_lines early (concat (map (\<lambda>l. l @ [CHR 0x0A]) ls)) = (ls, False)"
proof (induction ls)
  case Nil
  show ?case by (simp add: scan_lines.simps)
next
  case (Cons l ls)
  let ?rest = "concat (map (\<lambda>l. l @ [CHR 0x0A]) ls)"
  have l: "plain_line l" using Cons.prems by simp
  then have n: "\<forall>c \<in> set l. c \<noteq> CHR 0x0A" by (auto simp: plain_line_def)
  have "takeWhile (\<lambda>c. c \<noteq> CHR 0x0A) (l @ CHR 0x0A # ?rest) = l"
    "dropWhile (\<lambda>c. c \<noteq> CHR 0x0A) (l @ CHR 0x0A # ?rest) = CHR 0x0A # ?rest"
    using n by (simp_all add: takeWhile_append2 dropWhile_append2)
  moreover have "length l < max_token" using l by (simp add: plain_line_def)
  ultimately show ?case
    using Cons by (subst scan_lines.simps) (simp add: Let_def drop_cr_plain [OF l])
qed

section \<open>Compressed bodies\<close>

text \<open>\<open>compress/gzip\<close> is a parameter: opening a reader on a body either fails or gives the
  decompressed bytes with the error that ends them.\<close>

type_synonym gunzip = "string \<times> go_error option \<Rightarrow> (string \<times> go_error option) res"

definition wrapMaybeGzip ::
  "gunzip \<Rightarrow> string \<times> go_error option \<Rightarrow> string \<Rightarrow> (string \<times> go_error option) res" where
  "wrapMaybeGzip gz b contentEncoding =
     (let enc = ToLower (TrimSpace contentEncoding) in
      if enc = '''' then Inr b
      else if enc \<noteq> ''gzip'' then Inl (''unsupported Content-Encoding: '' @ enc)
      else gz b)"

text \<open>\<open>readCloserChain.Close\<close>: every closer is called, in order, and the first error is returned. The
  handlers defer it and drop its result.\<close>

fun close_loop :: "go_error option \<Rightarrow> ('c \<Rightarrow> go_error option \<times> 'c) list \<Rightarrow> 'c \<Rightarrow> go_error option \<times> 'c" where
  "close_loop firstErr [] c = (firstErr, c)"
| "close_loop firstErr (f # fs) c =
     (case f c of (err, c) \<Rightarrow> close_loop (if err \<noteq> None \<and> firstErr = None then err else firstErr) fs c)"

record 'c readCloserChain =
  Closers :: "('c \<Rightarrow> go_error option \<times> 'c) list"

definition readCloserChain_Close :: "'c readCloserChain \<Rightarrow> 'c \<Rightarrow> go_error option \<times> 'c" where
  "readCloserChain_Close r c = close_loop None (Closers r) c"

lemma close_loop_all: "snd (close_loop e fs c) = fold (\<lambda>f c. snd (f c)) fs c"
  by (induction fs arbitrary: e c) (auto split: prod.split)

lemma Close_gzip:
  assumes "gr c = (e1, c1)" "body c1 = (e2, c2)"
  shows "readCloserChain_Close \<lparr>Closers = [gr, body]\<rparr> c = (case e1 of Some e \<Rightarrow> Some e | None \<Rightarrow> e2, c2)"
  using assms by (simp add: readCloserChain_Close_def split: option.split)

end
