(* ===== verification/Handlers.thy ===== *)
theory Handlers
  imports Http
begin

text \<open>
  \<open>internal/api/handlers\<close>: the endpoints of the API over any store. The loops of the handlers
  are functions that return early with the response of the error they met. The part that both
  upsert handlers spell out in the same words, recording the run and answering, is \<open>finish_run\<close>.
\<close>

record ('s, 'b) DebugUpsertHandler =
  HandlerStore :: "('s, 'b) Store option"
  EnabledChannels :: "string list"

section \<open>Recording a run\<close>

definition run_status :: "ProcessOutput \<Rightarrow> RunStatus" where
  "run_status out =
     (let pushTriggered = Enqueued (Summary out) > 0 in
      if \<not> pushTriggered \<and> Rejected (Summary out) = 0 then RunStatusNoChangeDetected
      else if pushTriggered then RunStatusHasChanges else RunStatusCompleted)"

definition run_record ::
  "string \<Rightarrow> uint64 \<Rightarrow> UnknownKeyWarning \<Rightarrow> ProcessOutput \<Rightarrow> time \<Rightarrow> RunRecord" where
  "run_record runID tenantID warnings out now =
     \<lparr>RunID = runID, TenantID = tenantID, FeedID = None, Status = run_status out,
      PushTriggered = (Enqueued (Summary out) > 0),
      RunReceived = Received (Summary out), RunValid = Valid (Summary out),
      RunRejected = Rejected (Summary out), RunUnchanged = Unchanged (Summary out),
      RunEnqueued = Enqueued (Summary out), RunWarnings = warnings, CreatedAt = now\<rparr>"

definition finish_run ::
  "('s, 'b) Store \<Rightarrow> string \<Rightarrow> uint64 \<Rightarrow> UnknownKeyWarning \<Rightarrow> ProcessOutput \<Rightarrow> time \<Rightarrow> 's \<Rightarrow> Response \<times> 's" where
  "finish_run store runID tenantID warnings out now s =
     (case InsertRun store (run_record runID tenantID warnings out now) s of
        (Some err, s) \<Rightarrow> (writeJSON 500 (error_body_with ''persist_run_failed'' err ''run_id'' runID), s)
      | (None, s) \<Rightarrow>
          (case InsertRunProducts store runID (OutProducts out) s of
             (Some err, s) \<Rightarrow>
               (writeJSON 500 (error_body_with ''persist_run_products_failed'' err ''run_id'' runID), s)
           | (None, s) \<Rightarrow>
               (writeJSON 200 (PRun \<lparr>RespRunID = runID, RespStatus = run_status out,
                  RespPushTriggered = (Enqueued (Summary out) > 0), RespWarnings = warnings,
                  RespResult = out\<rparr>), s)))"

definition persist_failed :: "go_error \<Rightarrow> string \<Rightarrow> Response" where
  "persist_failed err key =
     writeJSON 500 (error_body_with ''persist_product_state_failed'' err ''product'' key)"

definition misconfigured :: Response where
  "misconfigured = writeJSON 500 (error_body ''misconfigured'' ''handler dependencies not configured'')"

section \<open>Upsert of a JSON array\<close>

fun persist_products ::
  "('s, 'b) Store \<Rightarrow> uint64 \<Rightarrow> ProductProcessResult list \<Rightarrow> 's \<Rightarrow> Response option \<times> 's" where
  "persist_products store tenantID [] s = (None, s)"
| "persist_products store tenantID (pr # prs) s =
     (if ResHash pr = '''' then persist_products store tenantID prs s
      else if ResDisposition pr = ProductDispositionEnqueued \<or> ResDisposition pr = ProductDispositionUnchanged then
        (case UpsertProductHash store tenantID (ResProductKey pr) (ResHash pr) s of
           (Some err, s) \<Rightarrow> (Some (persist_failed err (ResProductKey pr)), s)
         | (None, s) \<Rightarrow> persist_products store tenantID prs s)
      else persist_products store tenantID prs s)"

definition DebugUpsert_ServeHTTP :: "('s, 'b) DebugUpsertHandler \<Rightarrow> 's handler" where
  "DebugUpsert_ServeHTTP h rt r s =
     (let tenantID = ctx_TenantID (ReqCtx r) in
      if Method r \<noteq> ''POST'' then (write_status 405, s)
      else case HandlerStore h of
        None \<Rightarrow> (misconfigured, s)
      | Some store \<Rightarrow>
      (case NewRunID rt of
         Inl err \<Rightarrow> (writeJSON 500 (error_body ''run_id_failed'' err), s)
       | Inr runID \<Rightarrow>
      (case BodyErr r of
         Some err \<Rightarrow> (writeJSON 400 (error_body ''read_failed'' err), s)
       | None \<Rightarrow>
      (case ParseProductsAllowUnknown (BodyBytes r) of
         Inl err \<Rightarrow> (writeJSON 400 (error_body ''invalid_json'' err), s)
       | Inr parsed \<Rightarrow>
      (case ProcessProducts (RngChannels rt) (Products parsed) (EnabledChannels h)
              (Some (GetProductHash store s tenantID)) of
         Inl err \<Rightarrow> (writeJSON 500 (error_body ''processing_failed'' err), s)
       | Inr out \<Rightarrow>
      (case persist_products store tenantID (OutProducts out) s of
         (Some resp, s) \<Rightarrow> (resp, s)
       | (None, s) \<Rightarrow> finish_run store runID tenantID (Warnings parsed) out (NowRun rt) s))))))"

section \<open>Upsert of a stream of JSON lines\<close>

definition invalid_line :: "go_error \<Rightarrow> ProductProcessResult" where
  "invalid_line err =
     rejected_result '''' ''invalid_json_line''
       [\<lparr>Path = ''$'', Code = ''invalid_json'', Message = err\<rparr>]"

definition receive_one :: "ProcessOutput \<Rightarrow> ProcessOutput" where
  "receive_one out = out\<lparr>Summary := (Summary out)\<lparr>Received := Received (Summary out) + 1\<rparr>\<rparr>"

text \<open>The loop over the lines; \<open>i\<close> counts the products that were validated.\<close>

fun bulk_loop ::
  "('s, 'b) Store \<Rightarrow> uint64 \<Rightarrow> string list \<Rightarrow> (nat \<Rightarrow> string permuter) \<Rightarrow> nat \<Rightarrow> string list \<Rightarrow>
   ProcessOutput \<Rightarrow> string set \<Rightarrow> 's \<Rightarrow> (Response + ProcessOutput \<times> string set) \<times> 's" where
  "bulk_loop store tenantID enabled rng i [] out unknown s = (Inr (out, unknown), s)"
| "bulk_loop store tenantID enabled rng i (l # ls) out unknown s =
     (let line = TrimSpace l in
      if line = [] then bulk_loop store tenantID enabled rng i ls out unknown s
      else
        (let out = receive_one out in
         case ParseProductObjectAllowUnknown line of
           Inl err \<Rightarrow> bulk_loop store tenantID enabled rng i ls (count_result (invalid_line err) False out) unknown s
         | Inr (prd, unk) \<Rightarrow>
             (let unknown = unknown \<union> unk in
              case ProcessProduct (rng i) prd enabled (Some (GetProductHash store s tenantID)) of
                Inl err \<Rightarrow> (Inl (writeJSON 500 (error_body ''processing_failed'' err)), s)
              | Inr (res, valid) \<Rightarrow>
                  (let out = count_result res valid out in
                   if valid \<and> (ResDisposition res = ProductDispositionUnchanged \<or>
                               ResDisposition res = ProductDispositionEnqueued) \<and> ResHash res \<noteq> '''' then
                     (case UpsertProductHash store tenantID (ResProductKey res) (ResHash res) s of
                        (Some err, s) \<Rightarrow> (Inl (persist_failed err (ResProductKey res)), s)
                      | (None, s) \<Rightarrow> bulk_loop store tenantID enabled rng (Suc i) ls out unknown s)
                   else bulk_loop store tenantID enabled rng (Suc i) ls out unknown s))))"

definition DebugBulkUpsert_ServeHTTP :: "gunzip \<Rightarrow> ('s, 'b) DebugUpsertHandler \<Rightarrow> 's handler" where
  "DebugBulkUpsert_ServeHTTP gz h rt r s =
     (let tenantID = ctx_TenantID (ReqCtx r) in
      if Method r \<noteq> ''POST'' then (write_status 405, s)
      else case HandlerStore h of
        None \<Rightarrow> (misconfigured, s)
      | Some store \<Rightarrow>
      (case NewRunID rt of
         Inl err \<Rightarrow> (writeJSON 500 (error_body ''run_id_failed'' err), s)
       | Inr runID \<Rightarrow>
      (case wrapMaybeGzip gz (BodyBytes r, BodyErr r) (HeaderGet r ''Content-Encoding'') of
         Inl err \<Rightarrow> (writeJSON 400 (error_body ''invalid_encoding'' err), s)
       | Inr reader \<Rightarrow>
      (case scan_body rt reader of (lines, scErr) \<Rightarrow>
      (case bulk_loop store tenantID (EnabledChannels h) (RngChannels rt) 0 lines (init_output 0) {} s of
         (Inl resp, s) \<Rightarrow> (resp, s)
       | (Inr (out, unknown), s) \<Rightarrow>
      (case scErr of
         Some err \<Rightarrow> (writeJSON 400 (error_body ''read_failed'' err), s)
       | None \<Rightarrow>
           finish_run store runID tenantID \<lparr>UnknownKeys = SortedUnknownKeys unknown\<rparr> out (NowRun rt) s))))))"

section \<open>Reading runs\<close>

definition page_limit :: "int \<Rightarrow> int \<Rightarrow> string \<Rightarrow> int" where
  "page_limit dflt maximum v =
     (let limit = dflt;
          limit = (if v \<noteq> '''' then (case Atoi v of Some n \<Rightarrow> n | None \<Rightarrow> limit) else limit);
          limit = (if limit \<le> 0 then dflt else limit)
      in if limit > maximum then maximum else limit)"

text \<open>A handler with a nil store would panic here; the server always has one.\<close>

definition DebugRuns_ServeHTTP :: "('s, 'b) Store \<Rightarrow> 's handler" where
  "DebugRuns_ServeHTTP store rt r s =
     (let tenantID = ctx_TenantID (ReqCtx r) in
      if Method r \<noteq> ''GET'' then (write_status 405, s)
      else
        (case ListRuns store (RngRuns rt) s tenantID (page_limit 50 200 (QueryGet r ''limit'')) of
           Inl err \<Rightarrow> (writeJSON 500 (error_body ''list_runs_failed'' err), s)
         | Inr rs \<Rightarrow> (writeJSON 200 (PRuns rs), s)))"

definition DebugRunDetail_ServeHTTP :: "('s, 'b) Store \<Rightarrow> 's handler" where
  "DebugRunDetail_ServeHTTP store rt r s =
     (let tenantID = ctx_TenantID (ReqCtx r) in
      if Method r \<noteq> ''GET'' then (write_status 405, s)
      else
        (let runID = TrimSpace (TrimPrefix (ReqPath r) ''/v1/debug/runs/'') in
         if runID = '''' \<or> CHR ''/'' \<in> set runID
         then (writeJSON 400 (error_body ''invalid_run_id'' ''run_id missing or invalid''), s)
         else
           (case GetRun store s tenantID runID of
              Inl err \<Rightarrow> (writeJSON 500 (error_body ''get_run_failed'' err), s)
            | Inr None \<Rightarrow> (writeJSON 404 (error_body ''not_found'' ''run not found''), s)
            | Inr (Some run) \<Rightarrow>
                (case ListRunProducts store (RngProducts rt) s runID (page_limit 500 2000 (QueryGet r ''limit'')) of
                   Inl err \<Rightarrow> (writeJSON 500 (error_body ''list_run_products_failed'' err), s)
                 | Inr products \<Rightarrow> (writeJSON 200 (PDetail run products), s)))))"

section \<open>Parsed products can be hashed\<close>

lemma finite_decode_any_map:
  assumes "\<forall>v \<in> ran (map_of dst). finite_any v"
  shows "\<forall>v \<in> ran (map_of (decode_any_map j dst)). finite_any v"
proof (cases j)
  case (JObj ms)
  have "\<forall>v \<in> ran (map_of dst). finite_any v \<Longrightarrow>
      \<forall>v \<in> ran (map_of (fold (\<lambda>(k, v) m. AList.update k (any_of v) m) ms dst)). finite_any v" for ms dst
  proof (induction ms arbitrary: dst)
    case (Cons kv ms)
    obtain k v where kv: "kv = (k, v)" by (cases kv)
    have "\<forall>x \<in> ran (map_of (AList.update k (any_of v) dst)). finite_any x"
      using Cons.prems finite_any_of by (auto simp: ran_def split: if_splits)
    from Cons.IH [OF this] show ?case by (simp only: kv fold_Cons comp_apply prod.case)
  qed simp
  from this [OF assms] JObj show ?thesis by simp
qed (use assms in auto)

lemma finite_parseSingleProduct_attrs: "parseSingleProduct item = Inr (p, u) \<Longrightarrow> finite_Product p"
proof (erule parseSingleProduct_cases)
  fix c assume p: "p = (decode_fields item)\<lparr>Channel := c\<rparr>"
  have "\<forall>v \<in> ran (map_of (Attributes (decode_fields item))). finite_any v"
    using finite_decode_any_map [of "[]"]
    by (simp add: decode_fields_def unmarshalIfPresent_def zero_Product_def split: option.split)
  then show "finite_Product p" by (simp add: finite_Product_def p)
qed

lemma parsed_finite:
  assumes "ParseProductsAllowUnknown body = Inr parsed" "p \<in> set (Products parsed)"
  shows "finite_Product p"
proof -
  from assms(1) obtain items ps u where "parse_items items {} = Inr (ps, u)" "Products parsed = ps"
    by (auto simp: ParseProductsAllowUnknown_def bind_res_eq_Inr)
  then obtain rs where rs: "map parseSingleProduct items = map Inr rs" "Products parsed = map fst rs"
    by (auto simp: parse_items_spec)
  from assms(2) rs(2) obtain x where x: "x \<in> set rs" "fst x = p" by auto
  with rs(1) obtain item where "parseSingleProduct item = Inr x"
    by (metis imageE image_eqI list.set_map)
  with x have "parseSingleProduct item = Inr (p, snd x)" by (metis prod.collapse)
  then show ?thesis by (rule finite_parseSingleProduct_attrs)
qed

section \<open>Persisting hashes\<close>

definition persisted :: "ProductProcessResult \<Rightarrow> bool" where
  "persisted pr \<longleftrightarrow> ResHash pr \<noteq> '''' \<and>
     (ResDisposition pr = ProductDispositionEnqueued \<or> ResDisposition pr = ProductDispositionUnchanged)"

text \<open>The writes of canonical state that a list of results stands for.\<close>

definition hash_writes :: "ProductProcessResult list \<Rightarrow> (string \<times> string) list" where
  "hash_writes prs = map (\<lambda>pr. (ResProductKey pr, ResHash pr)) (filter persisted prs)"

lemma hash_writes_simps [simp]:
  "hash_writes [] = []"
  "hash_writes (pr # prs) =
     (if persisted pr then (ResProductKey pr, ResHash pr) # hash_writes prs else hash_writes prs)"
  "hash_writes (xs @ ys) = hash_writes xs @ hash_writes ys"
  by (simp_all add: hash_writes_def)

context bounded_hashes
begin

lemma persist_products_ok:
  assumes "UpsertProductHash store = put"
  shows "inv s \<Longrightarrow> \<forall>(k, h) \<in> set (hash_writes prs). fits k h \<Longrightarrow>
    persist_products store t prs s = (None, fold (\<lambda>(k, h) s. snd (put t k h s)) (hash_writes prs) s)"
proof (induction prs arbitrary: s)
  case (Cons pr prs)
  show ?case
  proof (cases "persisted pr")
    case True
    have fit: "fits (ResProductKey pr) (ResHash pr)" using Cons.prems(2) True by simp
    obtain e s1 where p: "put t (ResProductKey pr) (ResHash pr) s = (e, s1)"
      by (cases "put t (ResProductKey pr) (ResHash pr) s")
    have "e = None" "inv s1"
      using bput_ok [OF Cons.prems(1) fit, of t] binv_put [OF Cons.prems(1) fit, of t] p
      by simp_all
    with p show ?thesis
      using Cons.IH [OF \<open>inv s1\<close>] Cons.prems(2) True by (auto simp: persisted_def assms)
  next
    case False
    then show ?thesis
      using Cons.IH [OF Cons.prems(1)] Cons.prems(2) by (auto simp: persisted_def)
  qed
qed simp

end

definition mem_puts :: "uint64 \<Rightarrow> (string \<times> string) list \<Rightarrow> 'b MemoryStore \<Rightarrow> 'b MemoryStore" where
  "mem_puts t khs s = fold (\<lambda>(k, h) s. snd (mem_UpsertProductHash t k h s)) khs s"

lemma mem_puts_append: "mem_puts t (xs @ ys) s = mem_puts t ys (mem_puts t xs s)"
  by (simp add: mem_puts_def)

lemma mem_puts_frame [simp]:
  "runs (mem_puts t khs s) = runs s" "runProducts (mem_puts t khs s) = runProducts s" "idem (mem_puts t khs s) = idem s"
proof -
  have "runs (mem_puts t khs s) = runs s \<and> runProducts (mem_puts t khs s) = runProducts s \<and> idem (mem_puts t khs s) = idem s"
    unfolding mem_puts_def
    by (induction khs arbitrary: s) (auto simp: mem_UpsertProductHash_def Let_def)
  then show "runs (mem_puts t khs s) = runs s" "runProducts (mem_puts t khs s) = runProducts s" "idem (mem_puts t khs s) = idem s"
    by blast+
qed

lemma wf_mem_puts [inv_intros]: "wf_store s \<Longrightarrow> wf_store (mem_puts t khs s)"
  unfolding mem_puts_def by (rule mem_hashes.inv_puts)

lemma get_mem_puts:
  "wf_store s \<Longrightarrow> mem_GetProductHash (mem_puts t khs s) t' k =
     (if t' = t then (case map_of (rev khs) k of Some h \<Rightarrow> Inr (Some h) | None \<Rightarrow> mem_GetProductHash s t' k)
      else mem_GetProductHash s t' k)"
  unfolding mem_puts_def by (rule mem_hashes.get_puts)

lemma persist_products_mem:
  "wf_store s \<Longrightarrow> persist_products memory_Store t prs s = (None, mem_puts t (hash_writes prs) s)"
  unfolding mem_puts_def by (rule mem_hashes.bounded.persist_products_ok) simp_all

lemma get_hash_frame [simp]:
  "mem_GetProductHash (s\<lparr>runs := x\<rparr>) t k = mem_GetProductHash s t k"
  "mem_GetProductHash (s\<lparr>runProducts := y\<rparr>) t k = mem_GetProductHash s t k"
  by (simp_all add: mem_GetProductHash_def)

text \<open>Recording a run in the memory store.\<close>

definition record_run :: "RunRecord \<Rightarrow> ProductProcessResult list \<Rightarrow> 'b MemoryStore \<Rightarrow> 'b MemoryStore" where
  "record_run run products s =
     s\<lparr>runs := AList.update (RunID run) run (runs s), runProducts := AList.update (RunID run) products (runProducts s)\<rparr>"

lemma record_run_simps [simp]:
  "runs (record_run r ps s) = AList.update (RunID r) r (runs s)"
  "runProducts (record_run r ps s) = AList.update (RunID r) ps (runProducts s)"
  "idem (record_run r ps s) = idem s"
  "mem_GetProductHash (record_run r ps s) t k = mem_GetProductHash s t k"
  by (simp_all add: record_run_def)

lemma wf_record_run [inv_intros]: "wf_store s \<Longrightarrow> wf_store (record_run r ps s)"
  by (auto simp: wf_store_def record_run_def wf_gomap_update)

definition run_response :: "string \<Rightarrow> UnknownKeyWarning \<Rightarrow> ProcessOutput \<Rightarrow> RunResponse" where
  "run_response runID warnings out =
     \<lparr>RespRunID = runID, RespStatus = run_status out, RespPushTriggered = (Enqueued (Summary out) > 0),
      RespWarnings = warnings, RespResult = out\<rparr>"

lemma finish_run_mem:
  "finish_run memory_Store i t w out now s =
     (writeJSON 200 (PRun (run_response i w out)), record_run (run_record i t w out now) (OutProducts out) s)"
  by (simp add: finish_run_def mem_InsertRun_def mem_InsertRunProducts_def record_run_def run_response_def run_record_def)

lemma ProcessProducts_mem_total:
  assumes "\<forall>p \<in> set ps. finite_Product p"
  shows "\<exists>out. ProcessProducts rng ps en (Some (mem_GetProductHash s t)) = Inr out"
  unfolding ProcessProducts_def
proof (rule process_loop_total)
  fix j assume "j < length ps"
  then have fin: "finite_Product (ps ! j)" using assms by simp
  obtain h where "HashNormalized (ps ! j) = Inr h" using HashNormalized_total [OF fin] by blast
  moreover have "\<exists>v. mem_GetProductHash s t (ProductKey (ps ! j)) = Inr v"
    by (simp add: mem_GetProductHash_def split: option.split)
  ultimately show "\<exists>x. ProcessProduct (rng (0 + j)) (ps ! j) en (Some (mem_GetProductHash s t)) = Inr x"
    by (cases "IsValid (ValidateProductBase (ps ! j))"; cases "IsValid (ValidateChannelControls (rng (0 + j)) (ps ! j) en)")
      (auto simp: ProcessProduct_rejected_base ProcessProduct_rejected_channel ProcessProduct_valid previous_hash_def)
qed

text \<open>The upsert handler over the memory store, on a request whose body parses.\<close>

lemma DebugUpsert_mem:
  assumes "wf_store s" "HandlerStore h = Some memory_Store" "Method r = ''POST''" "NewRunID rt = Inr i"
    "BodyErr r = None" "ParseProductsAllowUnknown (BodyBytes r) = Inr parsed"
  obtains out where
    "ProcessProducts (RngChannels rt) (Products parsed) (EnabledChannels h)
       (Some (mem_GetProductHash s (ctx_TenantID (ReqCtx r)))) = Inr out"
    "DebugUpsert_ServeHTTP h rt r s =
      (writeJSON 200 (PRun (run_response i (Warnings parsed) out)),
       record_run (run_record i (ctx_TenantID (ReqCtx r)) (Warnings parsed) out (NowRun rt)) (OutProducts out)
         (mem_puts (ctx_TenantID (ReqCtx r)) (hash_writes (OutProducts out)) s))"
proof -
  obtain out where "ProcessProducts (RngChannels rt) (Products parsed) (EnabledChannels h)
       (Some (mem_GetProductHash s (ctx_TenantID (ReqCtx r)))) = Inr out"
    using ProcessProducts_mem_total parsed_finite [OF assms(6)] by blast
  with assms show ?thesis
    by (intro that [of out]) (simp_all add: DebugUpsert_ServeHTTP_def Let_def persist_products_mem finish_run_mem)
qed

end
