(* ===== verification/Json_Render.thy ===== *)
theory Json_Render
  imports Go_Json
begin

text \<open>
  \<open>encoding/json\<close> as a writer, and that its reader takes back what it wrote. A document of the
  reader's type \<^typ>\<open>json\<close> is rendered with its members in the given order, as the encoder writes
  the fields of a struct; the encoder's maps, whose keys are sorted, are rendered the same way
  after sorting. The round trip holds for documents whose strings are valid UTF-8, whose numbers
  are integers and whose nesting stays below the reader's limit.
\<close>

section \<open>Valid UTF-8\<close>

function valid_utf8 :: "string \<Rightarrow> bool" where
  "valid_utf8 [] = True"
| "valid_utf8 (c # s) =
     (let (r, w) = decode_rune (c # s) in \<not> (r = RuneError \<and> w = 1) \<and> valid_utf8 (drop w (c # s)))"
  by pat_completeness auto
termination
proof (relation "measure length", goal_cases)
  case (2 c s x r w)
  then have "0 < w" using decode_rune_width_pos [of "c # s"] by (metis list.distinct(1) snd_conv)
  then show ?case by (simp add: diff_less)
qed auto

declare valid_utf8.simps [simp del]

lemma decode_rune_ascii: "byte c < 128 \<Longrightarrow> decode_rune (c # s) = (byte c, 1)"
  by (simp add: decode_rune_def Let_def split: prod.splits)

lemma valid_utf8_ascii: "ascii s \<Longrightarrow> valid_utf8 s"
  by (induction s) (auto simp: valid_utf8.simps decode_rune_ascii RuneError_def)

text \<open>The shapes of a well-formed sequence of more than one byte.\<close>

lemma decode_rune_cases:
  assumes "128 \<le> byte c" "decode_rune (c # s) = (r, w)" "\<not> (r = RuneError \<and> w = 1)"
  obtains
    (two) c1 s' where "s = c1 # s'" "w = 2" "194 \<le> byte c" "byte c < 224" "in_range 128 191 c1"
      "r = (byte c - 192) * 64 + (byte c1 - 128)"
  | (three) c1 c2 s' where "s = c1 # c2 # s'" "w = 3" "224 \<le> byte c" "byte c < 240"
      "in_range (fst (second_range (byte c))) (snd (second_range (byte c))) c1" "in_range 128 191 c2"
      "r = (byte c - 224) * 4096 + (byte c1 - 128) * 64 + (byte c2 - 128)"
  | (four) c1 c2 c3 s' where "s = c1 # c2 # c3 # s'" "w = 4" "240 \<le> byte c" "byte c \<le> 244"
      "in_range (fst (second_range (byte c))) (snd (second_range (byte c))) c1" "in_range 128 191 c2" "in_range 128 191 c3"
      "r = (byte c - 240) * 262144 + (byte c1 - 128) * 4096 + (byte c2 - 128) * 64 + (byte c3 - 128)"
proof -
  have sr: "second_range b = (128, 191)" if "b < 224" for b
    using that by (simp add: second_range_def)
  have lo: "194 \<le> byte c" "byte c \<le> 244" and ne: "s \<noteq> []"
    using assms by (auto simp: decode_rune_def Let_def split: prod.splits if_splits)
  then obtain c1 s1 where s: "s = c1 # s1" by (cases s) auto
  have in1: "in_range (fst (second_range (byte c))) (snd (second_range (byte c))) c1"
    using assms lo by (auto simp: decode_rune_def Let_def s split: prod.splits if_splits)
  show thesis
  proof (cases "byte c < 224")
    case True
    then show thesis
      using assms lo in1 by (intro two [of c1 s1]) (auto simp: decode_rune_def Let_def s sr)
  next
    case False
    with assms lo in1 have "s1 \<noteq> []"
      by (auto simp: decode_rune_def Let_def s split: prod.splits)
    then obtain c2 s2 where s1: "s1 = c2 # s2" by (cases s1) auto
    have in2: "in_range 128 191 c2"
      using assms lo in1 False by (auto simp: decode_rune_def Let_def s s1 split: prod.splits if_splits)
    show thesis
    proof (cases "byte c < 240")
      case True
      then show thesis
        using assms lo in1 in2 False
        by (intro three [of c1 c2 s2]) (auto simp: decode_rune_def Let_def s s1 split: prod.splits)
    next
      case b: False
      with assms lo in1 in2 False have "s2 \<noteq> []"
        by (auto simp: decode_rune_def Let_def s s1 split: prod.splits)
      then obtain c3 s3 where s2: "s2 = c3 # s3" by (cases s2) auto
      have in3: "in_range 128 191 c3"
        using assms lo in1 in2 False b by (auto simp: decode_rune_def Let_def s s1 s2 split: prod.splits if_splits)
      show thesis
        using assms lo in1 in2 in3 False b
        by (intro four [of c1 c2 c3 s3]) (auto simp: decode_rune_def Let_def s s1 s2 split: prod.splits)
    qed
  qed
qed

text \<open>A well-formed sequence is decoded whatever follows it, and encoding its rune gives it back.\<close>

lemma second_range_bounds: "128 \<le> fst (second_range b)" "snd (second_range b) \<le> 191"
  by (simp_all add: second_range_def)

lemma char_of_byte_diff:
  "k \<le> byte c \<Longrightarrow> char_of (k + (byte c - k)) = c"
  by simp

lemma base64_digit:
  fixes m u :: nat
  assumes "u < 64"
  shows "(m * 64 + u) div 64 = m" "(m * 64 + u) mod 64 = u"
  using assms by simp_all

lemma encode_two:
  assumes "194 \<le> b" "b < 224" "128 \<le> y" "y \<le> 191"
  shows "encode_rune ((b - 192) * 64 + (y - 128)) = [char_of b, char_of y]"
proof -
  define p q where "p = b - 192" and "q = y - 128"
  have pq: "2 \<le> p" "p < 32" "q < 64" "b = 192 + p" "y = 128 + q" using assms by (auto simp: p_def q_def)
  then have "(p * 64 + q) div 64 = p" "(p * 64 + q) mod 64 = q" by simp_all
  with pq show ?thesis by (simp add: encode_rune_def)
qed

lemma encode_three:
  assumes "224 \<le> b" "b < 240" "fst (second_range b) \<le> y" "y \<le> snd (second_range b)" "128 \<le> z" "z \<le> 191"
  shows "encode_rune ((b - 224) * 4096 + (y - 128) * 64 + (z - 128)) = [char_of b, char_of y, char_of z]"
proof -
  define p q u where "p = b - 224" and "q = y - 128" and "u = z - 128"
  have y: "128 \<le> y" "y \<le> 191" using assms second_range_bounds [of b] by linarith+
  have pq: "p < 16" "q < 64" "u < 64" "b = 224 + p" "y = 128 + q" "z = 128 + u"
    using assms y by (auto simp: p_def q_def u_def)
  let ?r = "p * 4096 + q * 64 + u"
  have r: "?r = (p * 64 + q) * 64 + u" by simp
  have parts: "?r div 64 = p * 64 + q" "?r mod 64 = u" unfolding r using pq(3) by (rule base64_digit)+
  have top: "?r div 4096 = p"
    using div_mult2_eq [of ?r 64 64] pq(2) by (simp add: parts(1))
  have low: "2048 \<le> ?r"
  proof (cases "p = 0")
    case True
    then have "32 \<le> q" using assms(3) pq by (simp add: second_range_def)
    then show ?thesis by simp
  qed simp
  have surr: "\<not> (55296 \<le> ?r \<and> ?r \<le> 57343)"
  proof (cases "p = 13")
    case True
    then have "q < 32" using assms(4) pq by (simp add: second_range_def)
    then show ?thesis using True pq by linarith
  next
    case False
    then have "p \<le> 12 \<or> 14 \<le> p" by linarith
    then show ?thesis using pq by linarith
  qed
  have high: "?r < 65536" using pq by linarith
  have "(p * 64 + q) mod 64 = q" using pq by simp
  with parts top low surr high have "encode_rune ?r = [char_of (224 + p), char_of (128 + q), char_of (128 + u)]"
    by (simp add: encode_rune_def)
  then show ?thesis by (simp add: pq)
qed

lemma encode_four:
  assumes "240 \<le> b" "b \<le> 244" "fst (second_range b) \<le> y" "y \<le> snd (second_range b)" "128 \<le> z" "z \<le> 191"
    "128 \<le> v" "v \<le> 191"
  shows "encode_rune ((b - 240) * 262144 + (y - 128) * 4096 + (z - 128) * 64 + (v - 128)) =
    [char_of b, char_of y, char_of z, char_of v]"
proof -
  define p q u x where "p = b - 240" and "q = y - 128" and "u = z - 128" and "x = v - 128"
  have y: "128 \<le> y" "y \<le> 191" using assms second_range_bounds [of b] by linarith+
  have pq: "p < 5" "q < 64" "u < 64" "x < 64" "b = 240 + p" "y = 128 + q" "z = 128 + u" "v = 128 + x"
    using assms y by (auto simp: p_def q_def u_def x_def)
  let ?r = "p * 262144 + q * 4096 + u * 64 + x"
  have r: "?r = (p * 4096 + q * 64 + u) * 64 + x" and m: "p * 4096 + q * 64 + u = (p * 64 + q) * 64 + u" by simp_all
  have parts: "?r div 64 = p * 4096 + q * 64 + u" "?r mod 64 = x" unfolding r using pq(4) by (rule base64_digit)+
  have mid: "(p * 4096 + q * 64 + u) div 64 = p * 64 + q" "(p * 4096 + q * 64 + u) mod 64 = u"
    unfolding m using pq(3) by (rule base64_digit)+
  have upper: "?r div 4096 = p * 64 + q" using div_mult2_eq [of ?r 64 64] by (simp add: parts(1) mid(1))
  have top: "?r div 262144 = p" using div_mult2_eq [of ?r 4096 64] pq(2) by (simp add: upper)
  have low: "65536 \<le> ?r"
  proof (cases "p = 0")
    case True
    then have "16 \<le> q" using assms(3) pq by (simp add: second_range_def)
    then show ?thesis by simp
  qed simp
  have high: "?r \<le> 1114111"
  proof (cases "p = 4")
    case True
    then have "q < 16" using assms(4) pq by (simp add: second_range_def)
    then show ?thesis using True pq by linarith
  qed (use pq in linarith)
  have "(p * 64 + q) mod 64 = q" using pq by simp
  with parts mid upper top low high have "encode_rune ?r = [char_of (240 + p), char_of (128 + q), char_of (128 + u), char_of (128 + x)]"
    by (simp add: encode_rune_def)
  then show ?thesis by (simp add: pq)
qed

lemma decode_rune_prefix:
  assumes "128 \<le> byte c" "decode_rune (c # s) = (r, w)" "\<not> (r = RuneError \<and> w = 1)"
  shows "decode_rune (take w (c # s) @ t) = (r, w) \<and> encode_rune r = take w (c # s) \<and>
    (\<forall>x \<in> set (take w (c # s)). 128 \<le> byte x) \<and> hd (take w (c # s)) = c \<and> length (take w (c # s)) = w"
  using assms(1-3)
proof (cases rule: decode_rune_cases)
  case (two c1 s')
  then show ?thesis
    using encode_two [of "byte c" "byte c1"]
    by (auto simp: decode_rune_def Let_def in_range_def second_range_def)
next
  case (three c1 c2 s')
  have "128 \<le> byte c1" using three(5) second_range_bounds(1) [of "byte c"] by (auto simp: in_range_def)
  then show ?thesis
    using three encode_three [of "byte c" "byte c1" "byte c2"]
    by (auto simp: decode_rune_def Let_def in_range_def split: prod.splits)
next
  case (four c1 c2 c3 s')
  have "128 \<le> byte c1" using four(5) second_range_bounds(1) [of "byte c"] by (auto simp: in_range_def)
  then show ?thesis
    using four encode_four [of "byte c" "byte c1" "byte c2" "byte c3"]
    by (auto simp: decode_rune_def Let_def in_range_def split: prod.splits)
qed

section \<open>String literals\<close>

lemma hex_digit_val:
  assumes "n < 16"
  shows "hex_val (hex_digit n) = n \<and> is_hex (hex_digit n)"
proof (cases "n < 10")
  case True
  then show ?thesis by (simp add: hex_digit_def hex_val_def is_hex_def is_digit_def of_char_of)
next
  case False
  then show ?thesis using assms by (simp add: hex_digit_def hex_val_def is_hex_def is_digit_def of_char_of)
qed

lemma hex_pair: "EncodeToString [c] = [hex_digit (byte c div 16), hex_digit (byte c mod 16)]"
  by (simp add: EncodeToString_def)

text \<open>Pieces of a literal that the scanner passes over and the reader turns into given bytes.\<close>

definition lit_piece :: "string \<Rightarrow> string \<Rightarrow> bool" where
  "lit_piece x v \<longleftrightarrow> (\<forall>t. scan_str SPlain (x @ t) = map_sum id (apfst ((@) x)) (scan_str SPlain t)) \<and>
     (\<forall>t. unquote (x @ t) = v @ unquote t)"

lemma lit_pieceD:
  "lit_piece x v \<Longrightarrow> scan_str SPlain (x @ t) = map_sum id (apfst ((@) x)) (scan_str SPlain t)"
  "lit_piece x v \<Longrightarrow> unquote (x @ t) = v @ unquote t"
  by (auto simp: lit_piece_def)

lemma map_sum_apfst_comp:
  "map_sum id (apfst f) (map_sum id (apfst g) x) = map_sum id (apfst (\<lambda>y. f (g y))) x"
  by (cases x) (auto simp: apfst_def)

lemma append_fun:
  "(@) (c # cs) = (\<lambda>y. c # cs @ y)" "(@) [] = (\<lambda>y. y)"
  by auto

lemma lit_piece_append:
  assumes "lit_piece x v" "lit_piece y w"
  shows "lit_piece (x @ y) (v @ w)"
  unfolding lit_piece_def append_assoc
  by (simp add: lit_pieceD [OF assms(1)] lit_pieceD [OF assms(2)] map_sum_apfst_comp)

lemma lit_piece_u4:
  assumes "is_hex h1" "is_hex h2" "is_hex h3" "is_hex h4" "getu4 [h1, h2, h3, h4] = r" "r < 55296"
  shows "lit_piece [CHR 0x5C, CHR ''u'', h1, h2, h3, h4] (encode_rune r)"
proof -
  have g: "getu4 (h1 # h2 # h3 # h4 # t) = r" for t using assms(5) by (simp add: getu4_def)
  show ?thesis
    using assms(1-4,6)
    by (auto simp: lit_piece_def map_sum_apfst_comp unquote.simps(2) Let_def g surrogate_pair_def append_fun)
qed

lemma lit_piece_plain:
  assumes "byte c < 128" "32 \<le> byte c" "c \<noteq> CHR 0x22" "c \<noteq> CHR 0x5C"
  shows "lit_piece [c] [c]"
proof -
  have "encode_rune (byte c) = [c]" using assms(1) by (simp add: encode_rune_def)
  then show ?thesis
    using assms by (auto simp: lit_piece_def unquote.simps(2) decode_rune_ascii append_fun)
qed

lemma lit_piece_simple:
  assumes "e \<in> {CHR ''b'', CHR ''f'', CHR ''n'', CHR ''r'', CHR ''t'', CHR 0x5C, CHR 0x22}"
  shows "lit_piece [CHR 0x5C, e] [simple_escape e]"
  using assms by (auto simp: lit_piece_def unquote.simps(2) map_sum_apfst_comp append_fun)

lemma lit_piece_byte:
  assumes "byte c < 128"
  shows "lit_piece (escape_byte c) [c]"
proof (cases "c \<in> {CHR 0x22, CHR 0x5C, CHR 0x08, CHR 0x0C, CHR 0x0A, CHR 0x0D, CHR 0x09}")
  case True
  then show ?thesis
    using lit_piece_simple [of "CHR 0x22"] lit_piece_simple [of "CHR 0x5C"] lit_piece_simple [of "CHR ''b''"]
      lit_piece_simple [of "CHR ''f''"] lit_piece_simple [of "CHR ''n''"] lit_piece_simple [of "CHR ''r''"]
      lit_piece_simple [of "CHR ''t''"]
    by (auto simp: escape_byte_def simple_escape_def)
next
  case special: False
  show ?thesis
  proof (cases "byte c < 32 \<or> c = CHR ''<'' \<or> c = CHR ''>'' \<or> c = CHR ''&''")
    case True
    let ?h = "hex_digit (byte c div 16)" and ?l = "hex_digit (byte c mod 16)"
    have h: "hex_val ?h = byte c div 16" "is_hex ?h" "hex_val ?l = byte c mod 16" "is_hex ?l"
      using assms by (simp_all add: hex_digit_val)
    have "getu4 [CHR ''0'', CHR ''0'', ?h, ?l] = byte c"
      by (simp add: getu4_def h hex_val_def [of "CHR ''0''"] is_digit_def)
    then have "lit_piece [CHR 0x5C, CHR ''u'', CHR ''0'', CHR ''0'', ?h, ?l] (encode_rune (byte c))"
      using assms h by (intro lit_piece_u4) (auto simp: is_hex_def [of "CHR ''0''"] is_digit_def)
    then show ?thesis
      using True special assms by (auto simp: escape_byte_def hex_pair encode_rune_def)
  next
    case False
    then show ?thesis
      using special assms lit_piece_plain [of c] by (auto simp: escape_byte_def)
  qed
qed

lemma lit_piece_multi:
  assumes "128 \<le> byte c" "decode_rune (c # s) = (r, w)" "\<not> (r = RuneError \<and> w = 1)"
  shows "lit_piece (take w (c # s)) (take w (c # s))"
proof -
  let ?x = "take w (c # s)"
  note p = decode_rune_prefix [OF assms]
  have scan: "\<forall>x \<in> set xs. 128 \<le> byte x \<Longrightarrow> scan_str SPlain (xs @ t) = map_sum id (apfst ((@) xs)) (scan_str SPlain t)" for xs t
  proof (induction xs)
    case Nil
    show ?case by (cases "scan_str SPlain t") (auto simp: append_fun)
  next
    case (Cons x xs)
    then have "x \<noteq> CHR 0x22" "x \<noteq> CHR 0x5C" "\<not> byte x < 32" by auto
    with Cons show ?case by (cases "scan_str SPlain t") (auto simp: append_fun)
  qed
  have "0 < w" using decode_rune_width_pos [of "c # s"] assms(2) by simp
  then have ne: "?x = c # tl ?x" by (cases w) auto
  have "unquote (?x @ t) = ?x @ unquote t" for t
  proof -
    have "c \<noteq> CHR 0x5C" using assms(1) by auto
    moreover have "decode_rune (c # tl ?x @ t) = (r, w)" "drop w (c # tl ?x @ t) = t" "encode_rune r = ?x"
      using p ne by (metis append_Cons, metis append_Cons append_eq_conv_conj, blast)
    ultimately have "unquote (c # tl ?x @ t) = ?x @ unquote t" by (simp add: unquote.simps(2))
    then show ?thesis using ne by (metis append_Cons)
  qed
  then show ?thesis using scan p by (simp add: lit_piece_def)
qed

lemma lit_piece_Nil: "lit_piece [] []"
proof -
  have "x = map_sum id (apfst (\<lambda>y. y)) x" for x :: "string pres" by (cases x) auto
  then show ?thesis by (simp add: lit_piece_def append_fun)
qed

lemma lit_piece_escape: "valid_utf8 s \<Longrightarrow> lit_piece (escape_str s) s"
proof (induction s rule: escape_str.induct)
  case 1
  show ?case by (simp add: escape_str.simps lit_piece_Nil)
next
  case (2 c s)
  show ?case
  proof (cases "byte c < 128")
    case True
    then have "lit_piece (escape_str s) s"
      using 2 by (simp add: valid_utf8.simps(2) decode_rune_ascii)
    then have "lit_piece (escape_byte c @ escape_str s) ([c] @ s)"
      by (intro lit_piece_append lit_piece_byte True)
    then show ?thesis using True by (simp add: escape_str.simps(2))
  next
    case False
    obtain r w where d: "decode_rune (c # s) = (r, w)" by (cases "decode_rune (c # s)")
    then have v: "\<not> (r = RuneError \<and> w = 1)" "valid_utf8 (drop w (c # s))"
      using "2.prems" by (simp_all add: valid_utf8.simps(2))
    have c: "128 \<le> byte c" using False by simp
    have piece: "lit_piece (if r = 8232 \<or> r = 8233 then CHR 0x5C # ''u202'' @ [hex_digit (r mod 16)]
        else take w (c # s)) (take w (c # s))"
    proof (cases "r = 8232 \<or> r = 8233")
      case True
      have "encode_rune r = take w (c # s)" using decode_rune_prefix [OF c d v(1)] by blast
      moreover have "lit_piece [CHR 0x5C, CHR ''u'', CHR ''2'', CHR ''0'', CHR ''2'', hex_digit (r mod 16)] (encode_rune r)"
        using True
        by (intro lit_piece_u4)
          (auto simp: hex_digit_val getu4_def hex_val_def is_hex_def is_digit_def hex_digit_def of_char_of)
      ultimately show ?thesis using True by simp
    qed (simp add: lit_piece_multi [OF c d v(1)])
    have "lit_piece (escape_str (drop w (c # s))) (drop w (c # s))"
      using "2.IH"(2) [OF False refl d [symmetric]] v(2) by (simp add: d)
    from lit_piece_append [OF piece this] show ?thesis
      using False d v(1) by (simp add: escape_str.simps(2)) blast
  qed
qed

text \<open>A quoted string is read back.\<close>

lemma scan_quoted:
  "valid_utf8 s \<Longrightarrow> scan_str SPlain (escape_str s @ CHR 0x22 # t) = Inr (escape_str s, t)"
  using lit_pieceD(1) [OF lit_piece_escape, of s "CHR 0x22 # t"] by simp

lemma unquote_escape: "valid_utf8 s \<Longrightarrow> unquote (escape_str s) = s"
  using lit_pieceD(2) [OF lit_piece_escape, of s "[]"] by (simp add: unquote.simps)

section \<open>Integer literals\<close>

definition nat_token :: "string \<Rightarrow> bool" where
  "nat_token s \<longleftrightarrow> s = ''0'' \<or> s \<noteq> [] \<and> list_all is_digit s \<and> hd s \<noteq> CHR ''0''"

definition int_token :: "string \<Rightarrow> bool" where
  "int_token s \<longleftrightarrow> nat_token s \<or> s \<noteq> [] \<and> hd s = CHR ''-'' \<and> nat_token (tl s)"

text \<open>What may follow a value.\<close>

definition delimited :: "string \<Rightarrow> bool" where
  "delimited t \<longleftrightarrow> t \<noteq> [] \<and> hd t \<in> {CHR '','', CHR '']'', CHR ''}'', CHR 0x20, CHR 0x0A}"

lemma delimited_Nil [simp]: "\<not> delimited []"
  by (simp add: delimited_def)

lemma delimited_Cons [simp]:
  "delimited (c # t) \<longleftrightarrow> c \<in> {CHR '','', CHR '']'', CHR ''}'', CHR 0x20, CHR 0x0A}"
  by (simp add: delimited_def)

lemma scan_frac_delimited: "delimited t \<Longrightarrow> scan_frac t = Inr ([], t)"
  by (cases t) (auto simp: scan_frac_def scan_exp_def)

lemma digits_delimited:
  assumes "list_all is_digit s" "delimited t"
  shows "scan_digits (s @ t) = (s, t)"
proof -
  obtain c u where t: "t = c # u" "\<not> is_digit c" using assms(2) by (cases t) (auto simp: is_digit_def)
  show ?thesis using assms(1) unfolding t(1) scan_digits_def
    by (induction s) (auto simp: t(2))
qed

lemma scan_int_token:
  assumes "nat_token s" "delimited t"
  shows "scan_int (s @ t) = Inr (s, t)"
proof (cases "s = ''0''")
  case True
  then show ?thesis by (simp add: scan_int_def scan_frac_delimited [OF assms(2)])
next
  case False
  then obtain c u where s: "s = c # u" "c \<noteq> CHR ''0''" "is_digit c" "list_all is_digit s"
    using assms(1) by (cases s) (auto simp: nat_token_def)
  then show ?thesis
    using digits_delimited [OF s(4) assms(2)]
    by (simp add: scan_int_def scan_frac_delimited [OF assms(2)])
qed

lemma scan_num_token:
  assumes "int_token s" "delimited t"
  shows "scan_num (s @ t) = Inr (s, t)"
proof (cases "nat_token s")
  case True
  then obtain c u where s: "s = c # u" by (cases s) (auto simp: nat_token_def)
  have "is_digit c" using True s by (auto simp: nat_token_def is_digit_def)
  then have "c \<noteq> CHR ''-''" by (auto simp: is_digit_def)
  with s show ?thesis using scan_int_token [OF True assms(2)] by (simp add: scan_num_def)
next
  case False
  then obtain u where s: "s = CHR ''-'' # u" "nat_token u" using assms(1) by (cases s) (auto simp: int_token_def)
  then show ?thesis using scan_int_token [OF s(2) assms(2)] by (simp add: scan_num_def)
qed

lemma nat_token_digits: "nat_token (nat_to_digits n)"
proof (induction n rule: nat_to_digits.induct)
  case (1 n)
  show ?case
  proof (cases "n < 10")
    case True
    have "hd (nat_to_digits n) = char_of (48 + n)" using True by (simp add: nat_to_digits.simps [of n])
    then have "n \<noteq> 0 \<Longrightarrow> hd (nat_to_digits n) \<noteq> CHR ''0''"
      using True by (auto simp: of_char_of dest!: arg_cong [where f = "of_char :: char \<Rightarrow> nat"])
    then show ?thesis
      using nat_to_digits_props [of n] by (cases "n = 0") (auto simp: nat_token_def nat_to_digits.simps [of 0])
  next
    case False
    then have "nat_to_digits n = nat_to_digits (n div 10) @ [char_of (48 + n mod 10)]"
      by (simp add: nat_to_digits.simps [of n])
    moreover have "n div 10 \<noteq> 0" using False by simp
    moreover have "nat_to_digits (n div 10) \<noteq> ''0''"
      using nat_to_digits_props [of "n div 10"] \<open>n div 10 \<noteq> 0\<close> by (auto simp: digits_val_def digit_val_def)
    ultimately show ?thesis
      using 1 [OF False] nat_to_digits_props [of n] nat_to_digits_props [of "n div 10"] by (auto simp: nat_token_def)
  qed
qed

lemma int_token_Itoa: "int_token (Itoa i)"
  using nat_token_digits by (simp add: Itoa_def int_token_def)

section \<open>Documents\<close>

fun render :: "json \<Rightarrow> string" where
  "render JNull = ''null''"
| "render (JBool b) = (if b then ''true'' else ''false'')"
| "render (JNum s) = s"
| "render (JStr s) = quote_str s"
| "render (JArr vs) = ''['' @ join (map render vs) @ '']''"
| "render (JObj ms) = ''{'' @ join (map (\<lambda>(k, v). quote_str k @ '':'' @ render v) ms) @ ''}''"

fun wf_json :: "json \<Rightarrow> bool" where
  "wf_json (JNum s) = int_token s"
| "wf_json (JStr s) = valid_utf8 s"
| "wf_json (JArr vs) = list_all wf_json vs"
| "wf_json (JObj ms) = list_all (\<lambda>(k, v). valid_utf8 k \<and> wf_json v) ms"
| "wf_json _ = True"

fun json_depth :: "json \<Rightarrow> nat" where
  "json_depth (JArr vs) = Suc (foldr max (map json_depth vs) 0)"
| "json_depth (JObj ms) = Suc (foldr max (map (\<lambda>(k, v). json_depth v) ms) 0)"
| "json_depth _ = 0"

lemma foldr_max_less: "foldr max ns 0 < Suc k \<longleftrightarrow> (\<forall>n \<in> set ns. n \<le> k)"
  by (induction ns) auto

text \<open>A rendered value, then something that may follow it, is read back with fuel for twice its
  length.\<close>

definition reads_back :: "json \<Rightarrow> bool" where
  "reads_back v \<longleftrightarrow> (\<forall>n d t. 2 * length (render v) < n \<longrightarrow> d + json_depth v \<le> max_depth \<longrightarrow> delimited t \<longrightarrow>
     parse_value n d (render v @ t) = Inr (v, t))"

lemma reads_backD:
  "reads_back v \<Longrightarrow> 2 * length (render v) < n \<Longrightarrow> d + json_depth v \<le> max_depth \<Longrightarrow> delimited t \<Longrightarrow>
   parse_value n d (render v @ t) = Inr (v, t)"
  by (simp add: reads_back_def)

lemma skip_ws_Cons: "\<not> json_space c \<Longrightarrow> skip_ws (c # s) = c # s"
  by (simp add: skip_ws_def)

lemma skip_ws_delimiter:
  "skip_ws (CHR '','' # s) = CHR '','' # s" "skip_ws (CHR '']'' # s) = CHR '']'' # s" "skip_ws (CHR ''}'' # s) = CHR ''}'' # s"
  "skip_ws (CHR '':'' # s) = CHR '':'' # s" "skip_ws (CHR 0x22 # s) = CHR 0x22 # s"
  by (simp_all add: skip_ws_def json_space_def)

lemma render_nonempty: "wf_json v \<Longrightarrow> \<exists>c s. render v = c # s \<and> \<not> json_space c \<and> c \<noteq> CHR '']'' \<and> c \<noteq> CHR ''}''"
proof (cases v)
  case (JNum s)
  assume "wf_json v"
  with JNum obtain c u where s: "s = c # u" by (cases s) (auto simp: int_token_def nat_token_def)
  have "c = CHR ''-'' \<or> is_digit c"
    using \<open>wf_json v\<close> JNum s by (auto simp: int_token_def nat_token_def is_digit_def)
  then show ?thesis using JNum s by (auto simp: json_space_def is_digit_def)
qed (auto simp: json_space_def quote_str_def)

lemma parse_elems_render:
  assumes "\<forall>v \<in> set vs. reads_back v \<and> d + json_depth v \<le> max_depth" "vs \<noteq> []"
    "2 * length (join (map render vs)) + 2 \<le> n"
  shows "parse_elems n d (join (map render vs) @ CHR '']'' # t) = Inr (vs, t)"
  using assms
proof (induction vs arbitrary: n)
  case (Cons v vs)
  obtain m where n: "n = Suc m" using Cons.prems(3) by (cases n) auto
  have v: "reads_back v" "d + json_depth v \<le> max_depth" using Cons.prems by simp_all
  show ?case
  proof (cases vs)
    case Nil
    have "parse_value m d (render v @ CHR '']'' # t) = Inr (v, CHR '']'' # t)"
      using Cons.prems(3) Nil n by (intro reads_backD v) auto
    then show ?thesis by (simp add: n Nil skip_ws_delimiter)
  next
    case more: (Cons w ws)
    let ?rest = "join (map render vs) @ CHR '']'' # t"
    have joined: "join (map render (v # vs)) @ CHR '']'' # t = render v @ CHR '','' # ?rest"
      "length (join (map render (v # vs))) = length (render v) + 1 + length (join (map render vs))"
      by (simp_all add: more)
    have "parse_value m d (render v @ CHR '','' # ?rest) = Inr (v, CHR '','' # ?rest)"
      using Cons.prems(3) joined(2) n by (intro reads_backD v) auto
    moreover have "parse_elems m d ?rest = Inr (vs, t)"
      using Cons.prems joined(2) n by (intro Cons.IH) (auto simp: more)
    ultimately show ?thesis by (simp only: joined(1)) (simp add: n skip_ws_delimiter)
  qed
qed simp

lemma parse_members_one:
  assumes "valid_utf8 k" "reads_back v" "d + json_depth v \<le> max_depth" "2 * length (render v) < n" "delimited t"
  shows "parse_members (Suc n) d (quote_str k @ '':'' @ render v @ t) =
    (case skip_ws t of
       [] \<Rightarrow> Inl EndOfInput
     | c3 # r3 \<Rightarrow>
         if c3 = CHR '','' then map_sum id (apfst ((#) (k, v))) (parse_members n d r3)
         else if c3 = CHR ''}'' then Inr ([(k, v)], r3)
         else Inl (BadChar c3 ''after object key:value pair''))"
proof -
  have "unquote (escape_str k) = k" using assms(1) by (rule unquote_escape)
  then show ?thesis
    using assms by (cases "skip_ws t") (simp_all add: quote_str_def skip_ws_delimiter scan_quoted reads_backD)
qed

lemma parse_members_render:
  assumes "\<forall>(k, v) \<in> set ms. valid_utf8 k \<and> reads_back v \<and> d + json_depth v \<le> max_depth" "ms \<noteq> []"
    "2 * length (join (map (\<lambda>(k, v). quote_str k @ '':'' @ render v) ms)) + 2 \<le> n"
  shows "parse_members n d (join (map (\<lambda>(k, v). quote_str k @ '':'' @ render v) ms) @ CHR ''}'' # t) = Inr (ms, t)"
  using assms
proof (induction ms arbitrary: n)
  case (Cons kv ms)
  obtain k v where kv: "kv = (k, v)" by (cases kv)
  obtain m where n: "n = Suc m" using Cons.prems(3) by (cases n) auto
  have v: "valid_utf8 k" "reads_back v" "d + json_depth v \<le> max_depth" using Cons.prems kv by simp_all
  show ?case
  proof (cases ms)
    case Nil
    have "2 * length (render v) < m" using Cons.prems(3) Nil n kv by auto
    then show ?thesis
      using parse_members_one [OF v, of m "CHR ''}'' # t"] by (simp add: n Nil kv skip_ws_delimiter)
  next
    case more: (Cons w ws)
    let ?body = "join (map (\<lambda>(k, v). quote_str k @ '':'' @ render v) ms)"
    let ?rest = "?body @ CHR ''}'' # t"
    have joined: "join (map (\<lambda>(k, v). quote_str k @ '':'' @ render v) (kv # ms)) @ CHR ''}'' # t =
        quote_str k @ '':'' @ render v @ CHR '','' # ?rest"
      "length (join (map (\<lambda>(k, v). quote_str k @ '':'' @ render v) (kv # ms))) =
        length (quote_str k) + 2 + length (render v) + length ?body"
      by (simp_all add: more kv)
    have "2 * length (render v) < m" using Cons.prems(3) joined(2) n by linarith
    moreover have "parse_members m d ?rest = Inr (ms, t)"
      using Cons.prems joined(2) n by (intro Cons.IH) (auto simp: more)
    ultimately show ?thesis
      unfolding joined(1) n using parse_members_one [OF v, of m "CHR '','' # ?rest"]
      by (simp add: skip_ws_delimiter kv)
  qed
qed simp

lemma join_first:
  assumes "xs \<noteq> []" "hd xs = c # s"
  shows "\<exists>s'. join xs = c # s'"
  using assms by (cases xs rule: join.cases) auto

lemma parse_arr:
  assumes "\<forall>v \<in> set vs. reads_back v" "list_all wf_json vs"
  shows "reads_back (JArr vs)"
  unfolding reads_back_def
proof (intro allI impI)
  fix n d t
  assume n: "2 * length (render (JArr vs)) < n" and d: "d + json_depth (JArr vs) \<le> max_depth" and t: "delimited t"
  obtain m where m: "n = Suc m" using n by (cases n) auto
  have lim: "\<not> max_depth \<le> d" using d by simp
  show "parse_value n d (render (JArr vs) @ t) = Inr (JArr vs, t)"
  proof (cases "vs = []")
    case True
    then show ?thesis using lim by (simp add: m skip_ws_def json_space_def)
  next
    case False
    obtain c s where c: "render (hd vs) = c # s" "\<not> json_space c" "c \<noteq> CHR '']''"
      using render_nonempty [of "hd vs"] False assms(2) by (cases vs) auto
    obtain s' where s': "join (map render vs) = c # s'" using join_first [of "map render vs" c s] c(1) False by (auto simp: hd_map)
    have "\<forall>v \<in> set vs. reads_back v \<and> Suc d + json_depth v \<le> max_depth"
    proof
      fix v assume "v \<in> set vs"
      moreover from this have "json_depth v \<le> foldr max (map json_depth vs) 0"
        using foldr_max_less [of "map json_depth vs"] by auto
      ultimately show "reads_back v \<and> Suc d + json_depth v \<le> max_depth" using d assms(1) by auto
    qed
    then have "parse_elems m (Suc d) (join (map render vs) @ CHR '']'' # t) = Inr (vs, t)"
      using n m False by (intro parse_elems_render) auto
    then show ?thesis using lim c by (simp add: m s' skip_ws_Cons json_space_def)
  qed
qed

lemma parse_obj:
  assumes "\<forall>(k, v) \<in> set ms. reads_back v" "wf_json (JObj ms)"
  shows "reads_back (JObj ms)"
  unfolding reads_back_def
proof (intro allI impI)
  fix n d t
  assume n: "2 * length (render (JObj ms)) < n" and d: "d + json_depth (JObj ms) \<le> max_depth" and t: "delimited t"
  obtain m where m: "n = Suc m" using n by (cases n) auto
  have lim: "\<not> max_depth \<le> d" using d by simp
  show "parse_value n d (render (JObj ms) @ t) = Inr (JObj ms, t)"
  proof (cases "ms = []")
    case True
    then show ?thesis using lim by (simp add: m skip_ws_def json_space_def)
  next
    case False
    let ?body = "join (map (\<lambda>(k, v). quote_str k @ '':'' @ render v) ms)"
    obtain s' where s': "?body = CHR 0x22 # s'"
      using False by (cases ms rule: remdups_adj.cases) (auto simp: quote_str_def split: prod.splits)
    have "\<forall>(k, v) \<in> set ms. valid_utf8 k \<and> reads_back v \<and> Suc d + json_depth v \<le> max_depth"
    proof safe
      fix k v assume kv: "(k, v) \<in> set ms"
      show "valid_utf8 k" "reads_back v" using kv assms by (auto simp: list_all_iff)
      have "json_depth v \<in> set (map (\<lambda>(k, v). json_depth v) ms)" using kv by force
      then have "json_depth v \<le> foldr max (map (\<lambda>(k, v). json_depth v) ms) 0"
        using foldr_max_less [of "map (\<lambda>(k, v). json_depth v) ms"] by blast
      then show "Suc d + json_depth v \<le> max_depth" using d by simp
    qed
    then have "parse_members m (Suc d) (?body @ CHR ''}'' # t) = Inr (ms, t)"
      using n m False by (intro parse_members_render) auto
    then have "parse_members m (Suc d) (CHR 0x22 # s' @ CHR ''}'' # t) = Inr (ms, t)" unfolding s' by simp
    moreover have "render (JObj ms) = ''{'' @ (CHR 0x22 # s') @ ''}''" unfolding s' [symmetric] by simp
    ultimately show ?thesis using lim by (simp add: m skip_ws_Cons json_space_def del: render.simps)
  qed
qed

lemma reads_back_wf: "wf_json v \<Longrightarrow> reads_back v"
proof (induction v)
  case (JNum s)
  then obtain c u where s: "s = c # u" by (cases s) (auto simp: int_token_def nat_token_def)
  have c: "c = CHR ''-'' \<or> is_digit c" using JNum s by (auto simp: int_token_def nat_token_def is_digit_def)
  show ?case
    unfolding reads_back_def
  proof (intro allI impI)
    fix n d t
    assume n: "2 * length (render (JNum s)) < n" and t: "delimited t"
    obtain m where m: "n = Suc m" using n by (cases n) auto
    have "scan_num (c # u @ t) = Inr (s, t)" using scan_num_token [of s t] JNum t s by simp
    then have "parse_scalar c (u @ t) = Inr (JNum s, t)"
      using c by (auto simp: parse_scalar_def is_digit_def)
    moreover have "skip_ws (c # u @ t) = c # u @ t" "c \<noteq> CHR ''{''" "c \<noteq> CHR ''[''"
      using c by (auto simp: skip_ws_def json_space_def is_digit_def)
    ultimately show "parse_value n d (render (JNum s) @ t) = Inr (JNum s, t)" by (simp add: m s)
  qed
next
  case (JStr s)
  show ?case
    unfolding reads_back_def
  proof (intro allI impI)
    fix n d t
    assume n: "2 * length (render (JStr s)) < n"
    obtain m where m: "n = Suc m" using n by (cases n) auto
    show "parse_value n d (render (JStr s) @ t) = Inr (JStr s, t)"
      using JStr by (simp add: m quote_str_def skip_ws_delimiter parse_scalar_def scan_quoted unquote_escape)
  qed
next
  case (JArr vs)
  then show ?case by (intro parse_arr) (auto simp: list_all_iff)
next
  case (JObj ms)
  then show ?case by (intro parse_obj) (auto simp: list_all_iff snds.simps)
next
  case (JBool b)
  have "parse_value (Suc m) d (render (JBool b) @ t) = Inr (JBool b, t)" for m d t
    by (simp add: skip_ws_def json_space_def parse_scalar_def scan_lit_value_def)
  then show ?case unfolding reads_back_def by (metis less_nat_zero_code not0_implies_Suc)
next
  case JNull
  have "parse_value (Suc m) d (render JNull @ t) = Inr (JNull, t)" for m d t
    by (simp add: skip_ws_def json_space_def parse_scalar_def scan_lit_value_def)
  then show ?case unfolding reads_back_def by (metis less_nat_zero_code not0_implies_Suc)
qed

text \<open>\<open>json.Unmarshal\<close> and \<open>Decoder.Decode\<close> take back what the encoder wrote.\<close>

lemma unmarshal_render:
  assumes "wf_json v" "json_depth v \<le> max_depth"
  shows "unmarshal_doc (render v) = Inr v"
  using reads_backD [OF reads_back_wf [OF assms(1)], of "2 * length (render v @ '' '') + 1" 0 "'' ''"] assms(2)
  by (simp add: unmarshal_doc_def parse_doc_def skip_ws_def json_space_def)

lemma decode_render:
  assumes "wf_json v" "json_depth v \<le> max_depth"
  shows "decode_doc (render v @ [CHR 0x0A]) = Inr v"
  using reads_backD [OF reads_back_wf [OF assms(1)], of "2 * length (render v @ [CHR 0x0A]) + 1" 0 "[CHR 0x0A]"] assms(2)
  by (simp add: decode_doc_def parse_doc_def)

section \<open>Encoded documents are valid UTF-8\<close>

lemma valid_utf8_append: "valid_utf8 s \<Longrightarrow> valid_utf8 t \<Longrightarrow> valid_utf8 (s @ t)"
proof (induction s rule: valid_utf8.induct)
  case (2 c s)
  obtain r w where d: "decode_rune (c # s) = (r, w)" by (cases "decode_rune (c # s)")
  with "2.prems"(1) have v: "\<not> (r = RuneError \<and> w = 1)" "valid_utf8 (drop w (c # s))"
    by (simp_all add: valid_utf8.simps(2))
  from "2.IH" [OF d [symmetric] refl v(2) "2.prems"(2)] have rest: "valid_utf8 (drop w (c # s) @ t)" .
  show ?case
  proof (cases "byte c < 128")
    case True
    then have "w = 1" using d by (simp add: decode_rune_ascii)
    with True rest show ?thesis by (simp add: valid_utf8.simps(2) decode_rune_ascii RuneError_def)
  next
    case False
    then have c: "128 \<le> byte c" by simp
    note p = decode_rune_prefix [OF c d v(1), of "drop w (c # s) @ t"]
    have eq: "take w (c # s) @ drop w (c # s) @ t = c # s @ t"
      by (metis append_Cons append_assoc append_take_drop_id)
    have "w \<le> length (c # s)" using p by (metis length_take min.absorb_iff2)
    then have "drop w (c # s @ t) = drop w (c # s) @ t" by (metis append_Cons diff_is_0_eq drop0 drop_append)
    with p rest v(1) show ?thesis unfolding eq by (simp add: valid_utf8.simps(2))
  qed
qed simp

lemma valid_utf8_take:
  assumes "128 \<le> byte c" "decode_rune (c # s) = (r, w)" "\<not> (r = RuneError \<and> w = 1)"
  shows "valid_utf8 (take w (c # s))"
proof -
  note p = decode_rune_prefix [OF assms, of "[]"]
  have "0 < w" using decode_rune_width_pos [of "c # s"] assms(2) by simp
  then obtain u where u: "take w (c # s) = c # u" by (cases w) auto
  with p assms(3) show ?thesis by (auto simp: valid_utf8.simps)
qed

lemma ascii_escape_byte: "byte c < 128 \<Longrightarrow> ascii (escape_byte c)"
  by (auto simp: escape_byte_def hex_pair hex_digit_def of_char_of)

lemma valid_utf8_escape: "valid_utf8 (escape_str s)"
proof (induction s rule: escape_str.induct)
  case (2 c s)
  show ?case
  proof (cases "byte c < 128")
    case True
    then show ?thesis
      using "2.IH"(1) by (simp add: escape_str.simps(2) valid_utf8_append valid_utf8_ascii ascii_escape_byte)
  next
    case False
    obtain r w where d: "decode_rune (c # s) = (r, w)" by (cases "decode_rune (c # s)")
    have "valid_utf8 (escape_str (drop w (c # s)))" using "2.IH"(2) [OF False refl d [symmetric]] by (simp add: d)
    moreover have "valid_utf8 (if r = RuneError \<and> w = 1 then CHR 0x5C # ''ufffd''
        else if r = 8232 \<or> r = 8233 then CHR 0x5C # ''u202'' @ [hex_digit (r mod 16)] else take w (c # s))"
      using False valid_utf8_take [OF _ d] by (auto simp: hex_digit_def of_char_of intro!: valid_utf8_ascii)
    ultimately have "valid_utf8 ((if r = RuneError \<and> w = 1 then CHR 0x5C # ''ufffd''
        else if r = 8232 \<or> r = 8233 then CHR 0x5C # ''u202'' @ [hex_digit (r mod 16)] else take w (c # s)) @ escape_str (drop w (c # s)))"
      by (rule valid_utf8_append [rotated])
    with False d show ?thesis by (simp only: escape_str.simps(2) if_False Let_def split_conv)
  qed
qed (simp add: escape_str.simps valid_utf8.simps)

lemma valid_utf8_Cons_ascii: "byte c < 128 \<Longrightarrow> valid_utf8 (c # s) = valid_utf8 s"
  by (simp add: valid_utf8.simps(2) decode_rune_ascii RuneError_def)

lemma valid_utf8_quote: "valid_utf8 (quote_str s)"
  by (simp add: quote_str_def valid_utf8_Cons_ascii valid_utf8_escape valid_utf8_append valid_utf8.simps(1))

lemma valid_utf8_join: "\<forall>x \<in> set xs. valid_utf8 x \<Longrightarrow> valid_utf8 (join xs)"
  by (induction xs rule: join.induct) (simp_all add: valid_utf8_append valid_utf8_Cons_ascii valid_utf8.simps(1))

lemma valid_utf8_render: "wf_json v \<Longrightarrow> valid_utf8 (render v)"
proof (induction v rule: render.induct)
  case (3 s)
  then have "\<forall>c \<in> set s. is_digit c \<or> c = CHR ''-''"
    by (cases s) (auto simp: int_token_def nat_token_def list_all_iff is_digit_def)
  then have "byte c < 128" if "c \<in> set s" for c using that by (force simp: is_digit_def)
  then show ?case by (simp add: ascii_def valid_utf8_ascii)
next
  case (5 vs)
  then have "valid_utf8 (join (map render vs))" by (intro valid_utf8_join) (auto simp: list_all_iff)
  then show ?case by (simp add: valid_utf8_append valid_utf8_Cons_ascii valid_utf8.simps(1))
next
  case (6 ms)
  have "valid_utf8 (quote_str k @ '':'' @ render v)" if "(k, v) \<in> set ms" for k v
    using that 6 by (force simp: list_all_iff valid_utf8_append valid_utf8_Cons_ascii valid_utf8_quote)
  then have "valid_utf8 (join (map (\<lambda>(k, v). quote_str k @ '':'' @ render v) ms))" by (intro valid_utf8_join) auto
  then show ?case by (simp add: valid_utf8_append valid_utf8_Cons_ascii valid_utf8.simps(1))
qed (auto intro!: valid_utf8_ascii simp: valid_utf8_quote)

end
