(* ===== verification/Upsert.thy ===== *)
theory Upsert
  imports Handlers Json_Render
begin

text \<open>
  What the upsert endpoint guarantees over the memory store: which run it records, which
  canonical state it writes, when a worker is woken, what its errors leave behind, and that
  sending the same products again changes nothing.
\<close>

section \<open>Recorded runs\<close>

lemma ProcessProducts_summary_ok:
  "ProcessProducts rng ps en lk = Inr out \<Longrightarrow> summary_ok out"
  unfolding ProcessProducts_def by (erule process_loop_summary_ok) simp

lemma DebugUpsert_mem_out:
  assumes "wf_store s" "HandlerStore h = Some memory_Store" "Method r = ''POST''" "NewRunID rt = Inr i" "BodyErr r = None"
    "ParseProductsAllowUnknown (BodyBytes r) = Inr parsed" "ctx_TenantID (ReqCtx r) = t"
    "ProcessProducts (RngChannels rt) (Products parsed) (EnabledChannels h) (Some (mem_GetProductHash s t)) = Inr out"
  shows "DebugUpsert_ServeHTTP h rt r s =
    (writeJSON 200 (PRun (run_response i (Warnings parsed) out)),
     record_run (run_record i t (Warnings parsed) out (NowRun rt)) (OutProducts out) (mem_puts t (hash_writes (OutProducts out)) s))"
proof -
  obtain out' where o: "ProcessProducts (RngChannels rt) (Products parsed) (EnabledChannels h) (Some (mem_GetProductHash s t)) = Inr out'"
    and d: "DebugUpsert_ServeHTTP h rt r s =
      (writeJSON 200 (PRun (run_response i (Warnings parsed) out')),
       record_run (run_record i t (Warnings parsed) out' (NowRun rt)) (OutProducts out') (mem_puts t (hash_writes (OutProducts out')) s))"
    using DebugUpsert_mem [OF assms(1-6)] unfolding assms(7) by blast
  from o assms(8) have "out' = out" by simp
  with d show ?thesis by simp
qed

lemma claimable_run_record:
  assumes "summary_ok out" "t \<noteq> 0"
  shows "claimable (run_record i t w out now) \<longleftrightarrow>
    (\<exists>pr \<in> set (OutProducts out). ResDisposition pr = ProductDispositionEnqueued)"
proof -
  have "Enqueued (Summary out) = with_disp ProductDispositionEnqueued (OutProducts out)"
    using assms(1) by (simp add: summary_ok_def)
  then show ?thesis
    using assms(2)
    by (auto simp: claimable_def run_record_def run_status_def Let_def with_disp_def filter_empty_conv)
qed

section \<open>Sending the same products again\<close>

text \<open>A product that was stored with its digest is unchanged in the next batch.\<close>

lemma ProcessProduct_again:
  assumes "ProcessProduct rng p en lk = Inr (r, v)" "is_permuter rng" "is_permuter rng'"
    "v \<Longrightarrow> lk' (ProductKey p) = Inr (Some (ResHash r))"
  shows "\<exists>r'. ProcessProduct rng' p en (Some lk') = Inr (r', v) \<and>
    (v \<longrightarrow> ResDisposition r' = ProductDispositionUnchanged)"
  using assms(1)
proof (cases rule: ProcessProduct_cases)
  case (rejected reason issues)
  then have "\<not> (IsValid (ValidateProductBase p) \<and> IsValid (ValidateChannelControls rng' p en))"
    using IsValid_channels_iff [OF assms(2)] IsValid_channels_iff [OF assms(3)] by blast
  then show ?thesis
    using rejected(1)
    by (cases "IsValid (ValidateProductBase p)")
      (auto simp: ProcessProduct_rejected_base ProcessProduct_rejected_channel)
next
  case (valid h prev)
  then have "IsValid (ValidateChannelControls rng' p en)"
    using IsValid_channels_iff [OF assms(2)] IsValid_channels_iff [OF assms(3)] by blast
  moreover have "lk' (ProductKey p) = Inr (Some h)" using assms(4) valid(1,6) by simp
  ultimately show ?thesis
    using valid HashNormalized_nonempty [OF valid(2)]
    by (simp add: ProcessProduct_valid previous_hash_def ComputeDisposition_eqs)
qed

lemma map_of_hash_writes:
  assumes "distinct (map ResProductKey prs)" "pr \<in> set prs" "persisted pr"
  shows "map_of (rev (hash_writes prs)) (ResProductKey pr) = Some (ResHash pr)"
proof -
  have "distinct (map fst (rev (hash_writes prs)))"
    using distinct_map_filter [OF assms(1), of persisted] by (simp add: hash_writes_def comp_def flip: rev_map)
  moreover have "(ResProductKey pr, ResHash pr) \<in> set (rev (hash_writes prs))"
    using assms(2,3) by (force simp: hash_writes_def)
  ultimately show ?thesis by simp
qed

lemma persisted_iff_valid: "ProcessProduct rng p en lk = Inr (r, v) \<Longrightarrow> persisted r = v"
  using ProcessProduct_disposition [of rng p en lk r v]
  by (auto simp: persisted_def is_valid_disposition_def)

text \<open>The results of a batch as a list, with the flag whether the product was valid.\<close>

lemma ProcessProducts_results:
  assumes "ProcessProducts rng ps en lk = Inr out"
  obtains rs where "OutProducts out = map fst rs" "length rs = length ps"
    "\<forall>j < length ps. ProcessProduct (rng j) (ps ! j) en lk = Inr (rs ! j)"
  using process_loop_products [of rng 0 ps en lk "init_output (length ps)" out] assms that
  by (auto simp: ProcessProducts_def init_output_def)

lemma ProcessProducts_well_formed:
  assumes "ProcessProducts rng ps en lk = Inr out"
  shows "Received (Summary out) = length (OutProducts out)" "\<forall>pr \<in> set (OutProducts out). well_formed_result pr"
proof -
  show "Received (Summary out) = length (OutProducts out)"
    using process_loop_products [of rng 0 ps en lk "init_output (length ps)" out] assms
    by (auto simp: ProcessProducts_def init_output_def)
  obtain rs where rs: "OutProducts out = map fst rs" "length rs = length ps"
    "\<forall>j < length ps. ProcessProduct (rng j) (ps ! j) en lk = Inr (rs ! j)"
    using ProcessProducts_results [OF assms] .
  have "well_formed_result (fst (rs ! j))" if "j < length ps" for j
    using rs(3) that ProcessProduct_well_formed [of "rng j" "ps ! j" en lk "fst (rs ! j)" "snd (rs ! j)"] by simp
  then show "\<forall>pr \<in> set (OutProducts out). well_formed_result pr"
    using rs(1,2) by (metis in_set_conv_nth length_map nth_map)
qed

lemma with_disp_rejected:
  assumes "\<And>x. x \<in> set rs \<Longrightarrow> ResDisposition (fst x) = ProductDispositionRejected \<longleftrightarrow> \<not> snd x"
  shows "with_disp ProductDispositionRejected (map fst rs) = length (filter (\<lambda>x. \<not> snd x) rs)"
  using assms by (induction rs) (auto simp: with_disp_def)

lemma rejected_count:
  assumes "ProcessProducts rng ps en lk = Inr out" "OutProducts out = map fst rs" "length rs = length ps"
    "\<forall>j < length ps. ProcessProduct (rng j) (ps ! j) en lk = Inr (rs ! j)"
  shows "Rejected (Summary out) = length (filter (\<lambda>v. \<not> v) (map snd rs))"
proof -
  have "ResDisposition (fst x) = ProductDispositionRejected \<longleftrightarrow> \<not> snd x" if "x \<in> set rs" for x
  proof -
    obtain j where j: "j < length ps" "rs ! j = x" using \<open>x \<in> set rs\<close> assms(3) by (metis in_set_conv_nth)
    then have "ProcessProduct (rng j) (ps ! j) en lk = Inr (fst x, snd x)" using assms(4) by simp
    then show ?thesis using ProcessProduct_disposition(3) by blast
  qed
  then have "with_disp ProductDispositionRejected (map fst rs) = length (filter (\<lambda>x. \<not> snd x) rs)"
    by (rule with_disp_rejected)
  then show ?thesis
    using ProcessProducts_summary_ok [OF assms(1)] assms(2) by (simp add: summary_ok_def filter_map comp_def)
qed

lemma ProcessProducts_keys:
  assumes "OutProducts out = map fst rs" "length rs = length ps"
    "\<forall>j < length ps. ProcessProduct (rng j) (ps ! j) en lk = Inr (rs ! j)"
  shows "map ResProductKey (OutProducts out) = map ProductKey ps"
proof (rule nth_equalityI)
  fix j assume "j < length (map ResProductKey (OutProducts out))"
  then have j: "j < length ps" using assms(1,2) by simp
  then have "ProcessProduct (rng j) (ps ! j) en lk = Inr (fst (rs ! j), snd (rs ! j))" using assms(3) by simp
  then show "map ResProductKey (OutProducts out) ! j = map ProductKey ps ! j"
    using ProcessProduct_disposition(1) [of "rng j" "ps ! j" en lk "fst (rs ! j)" "snd (rs ! j)"] j assms(1,2) by simp
qed (use assms(1,2) in simp)

lemma ProcessProducts_again:
  assumes "ProcessProducts rng ps en lk = Inr out" "\<forall>j. is_permuter (rng j)" "\<forall>j. is_permuter (rng' j)"
    "distinct (map ProductKey ps)"
    "\<And>k h. map_of (rev (hash_writes (OutProducts out))) k = Some h \<Longrightarrow> lk' k = Inr (Some h)"
    "ProcessProducts rng' ps en (Some lk') = Inr out'"
  shows "Enqueued (Summary out') = 0 \<and> Rejected (Summary out') = Rejected (Summary out) \<and>
    Unchanged (Summary out') = Valid (Summary out)"
proof -
  obtain rs where rs: "OutProducts out = map fst rs" "length rs = length ps"
    "\<forall>j < length ps. ProcessProduct (rng j) (ps ! j) en lk = Inr (rs ! j)"
    using ProcessProducts_results [OF assms(1)] .
  obtain rs' where rs': "OutProducts out' = map fst rs'" "length rs' = length ps"
    "\<forall>j < length ps. ProcessProduct (rng' j) (ps ! j) en (Some lk') = Inr (rs' ! j)"
    using ProcessProducts_results [OF assms(6)] .
  have keys: "distinct (map ResProductKey (OutProducts out))"
    using ProcessProducts_keys [OF rs] assms(4) by simp
  have each: "snd (rs' ! j) = snd (rs ! j) \<and> (snd (rs ! j) \<longrightarrow> ResDisposition (fst (rs' ! j)) = ProductDispositionUnchanged)"
    if j: "j < length ps" for j
  proof -
    obtain r v where r: "rs ! j = (r, v)" by (cases "rs ! j")
    have p: "ProcessProduct (rng j) (ps ! j) en lk = Inr (r, v)" using rs(3) j r by simp
    have "lk' (ProductKey (ps ! j)) = Inr (Some (ResHash r))" if v
    proof -
      have "r \<in> set (OutProducts out)" using rs(1,2) j r by (metis fst_conv image_eqI list.set_map nth_mem)
      then have "map_of (rev (hash_writes (OutProducts out))) (ResProductKey r) = Some (ResHash r)"
        using map_of_hash_writes [OF keys] persisted_iff_valid [OF p] that by blast
      then show ?thesis using assms(5) ProcessProduct_disposition(1) [OF p] by simp
    qed
    then obtain r' where "ProcessProduct (rng' j) (ps ! j) en (Some lk') = Inr (r', v)"
      "v \<longrightarrow> ResDisposition r' = ProductDispositionUnchanged"
      using ProcessProduct_again [OF p] assms(2,3) by blast
    with rs'(3) j r show ?thesis by simp
  qed
  have flags: "map snd rs' = map snd rs"
    using each rs(2) rs'(2) by (intro nth_equalityI) simp_all
  then have rej: "Rejected (Summary out') = Rejected (Summary out)"
    using rejected_count [OF assms(6) rs'] rejected_count [OF assms(1) rs] by simp
  have "ResDisposition pr \<noteq> ProductDispositionEnqueued" if "pr \<in> set (OutProducts out')" for pr
  proof -
    obtain j where j: "j < length ps" "fst (rs' ! j) = pr"
      using \<open>pr \<in> set (OutProducts out')\<close> rs'(1,2) by (auto simp: in_set_conv_nth)
    have q: "ProcessProduct (rng' j) (ps ! j) en (Some lk') = Inr (pr, snd (rs' ! j))"
      using rs'(3) j by (metis prod.collapse)
    show ?thesis
      using each [OF j(1)] j(2) ProcessProduct_disposition(3) [OF q] by (cases "snd (rs ! j)") auto
  qed
  then have "with_disp ProductDispositionEnqueued (OutProducts out') = 0"
    by (simp add: with_disp_def filter_empty_conv)
  moreover have "length (OutProducts out) = length (OutProducts out')" using rs(1,2) rs'(1,2) by simp
  ultimately show ?thesis
    using rej ProcessProducts_summary_ok [OF assms(1)] ProcessProducts_summary_ok [OF assms(6)]
    by (simp add: summary_ok_def)
qed

section \<open>A sample request\<close>

definition sample_runtime :: "string \<Rightarrow> time \<Rightarrow> Runtime" where
  "sample_runtime rand now =
     \<lparr>RandRead = Inr rand, NowLookup = now, NowRun = now, NowCached = now, NowExpiry = now,
      RngRuns = (\<lambda>xs. xs), RngProducts = (\<lambda>xs. xs), RngChannels = (\<lambda>_ xs. xs), EofWithData = True\<rparr>"

lemma fair_sample_runtime [simp]: "fair_runtime (sample_runtime b now)"
  by (simp add: fair_runtime_def sample_runtime_def permuter_id)

lemma sample_runtime_channels: "\<forall>j. is_permuter (RngChannels (sample_runtime b now) j)"
  using fair_sample_runtime by (simp add: fair_runtime_def)

lemma NewRunID_sample: "NewRunID (sample_runtime b now) = Inr (''run_'' @ EncodeToString b)"
  by (simp add: NewRunID_def sample_runtime_def)

text \<open>A request of tenant 7 with one item \<open>{"x":1}\<close>, whose only key is unknown.\<close>

definition sample_body :: string where
  "sample_body = [CHR ''['', CHR ''{'', CHR 0x22, CHR ''x'', CHR 0x22, CHR '':'', CHR ''1'', CHR ''}'', CHR '']'']"

definition sample_request :: Request where
  "sample_request =
     \<lparr>Method = ''POST'', ReqPath = ''/v1/debug/products:upsert'', Query = [], Header = [],
      BodyBytes = sample_body, BodyErr = None, ReqCtx = WithTenantID Background 7\<rparr>"

definition sample_handler :: "('b MemoryStore, 'b) DebugUpsertHandler" where
  "sample_handler = \<lparr>HandlerStore = Some memory_Store, EnabledChannels = [''google'']\<rparr>"

lemma sample_request_simps [simp]:
  "Method sample_request = ''POST''" "BodyErr sample_request = None" "BodyBytes sample_request = sample_body"
  "ctx_TenantID (ReqCtx sample_request) = 7"
  "HandlerStore sample_handler = Some memory_Store" "EnabledChannels sample_handler = [''google'']"
  by (simp_all add: sample_request_def sample_handler_def ctx_TenantID_With)

lemma sample_item: "\<exists>u. parseSingleProduct [(''x'', JNum ''1'')] = Inr (zero_Product, u)"
proof -
  have "decode_fields [(''x'', JNum ''1'')] = zero_Product"
    by (simp add: decode_fields_def unmarshalIfPresent_def zero_Product_def)
  then show ?thesis by (simp add: parseSingleProduct_def Let_def)
qed

lemma sample_parse: "\<exists>w. ParseProductsAllowUnknown sample_body = Inr \<lparr>Products = [zero_Product], Warnings = w\<rparr>"
proof -
  have doc: "decode_doc sample_body = Inr (JArr [JObj [(''x'', JNum ''1'')]])"
    by (simp add: sample_body_def json_eval)
  show ?thesis
    using sample_item by (auto simp: ParseProductsAllowUnknown_def doc)
qed

section \<open>A sample product in a request\<close>

text \<open>The product of the repository's tests, as the encoder writes it.\<close>

definition product_item :: "(string \<times> json) list" where
  "product_item =
     [(''product_key'', JStr ''sku1''), (''title'', JStr ''Test''), (''description'', JStr ''Desc''),
      (''link'', JStr ''https://example.com/p''), (''image_link'', JStr ''https://example.com/p.jpg''),
      (''condition'', JStr ''new''), (''availability'', JStr ''in_stock''),
      (''price'', JObj [(''amount_decimal'', JStr ''19.99''), (''currency'', JStr ''USD'')]),
      (''channel'', JObj [(''google'', JObj [(''control'', JObj [(''state'', JStr ''active'')])])])]"

definition product_body :: string where
  "product_body = render (JArr [JObj product_item]) @ [CHR 0x0A]"

lemma product_item_wf: "wf_json (JObj product_item)" "json_depth (JArr [JObj product_item]) \<le> max_depth"
  by (simp_all add: product_item_def valid_utf8_ascii max_depth_def)

lemma product_item_raw: "fold (\<lambda>(k, v) m. AList.update k v m) product_item [] = product_item"
  by (simp add: product_item_def)

lemma product_item_fields:
  "decode_fields product_item = (sample_product ''sku1'')\<lparr>Channel := zero_ChannelFields\<rparr>"
  by (simp add: product_item_def decode_fields_def unmarshalIfPresent_def sample_product_def zero_Product_def
      decode_money_field_def EqualFold_ascii char_to_lower_def zero_Money_def)

lemma product_item_channel:
  "parseChannel (JObj [(''google'', JObj [(''control'', JObj [(''state'', JStr ''active'')])])]) zero_ChannelFields =
     Inr ({}, Channel (sample_product ''sku1''))"
  by (simp add: parseChannel_def knownChannels_def decode_channel_field_def decode_control_field_def EqualFold_ascii
      char_to_lower_def sample_product_def zero_Product_def zero_ChannelFields_def zero_ChannelControl_def)

lemma product_item_parse: "parseSingleProduct product_item = Inr (sample_product ''sku1'', {})"
proof -
  have u: "{k \<in> fst ` set product_item. k \<notin> knownTopLevelKeys} = {}"
    by (auto simp: product_item_def knownTopLevelKeys_def)
  have ch: "map_of product_item ''channel'' =
      Some (JObj [(''google'', JObj [(''control'', JObj [(''state'', JStr ''active'')])])])"
    by (simp add: product_item_def)
  show ?thesis
    unfolding parseSingleProduct_def Let_def u ch
    by (simp add: product_item_fields product_item_channel normalize_unknown_def)
qed

lemma product_parse:
  "ParseProductsAllowUnknown product_body = Inr \<lparr>Products = [sample_product ''sku1''], Warnings = \<lparr>UnknownKeys = []\<rparr>\<rparr>"
proof -
  have "decode_doc product_body = Inr (JArr [JObj product_item])"
    unfolding product_body_def using product_item_wf by (intro decode_render) simp_all
  then show ?thesis
    by (simp add: ParseProductsAllowUnknown_def product_item_raw product_item_parse setToSortedSlice_def)
qed
definition product_request :: Request where
  "product_request = sample_request\<lparr>BodyBytes := product_body\<rparr>"

lemma product_request_simps [simp]:
  "Method product_request = ''POST''" "BodyErr product_request = None" "BodyBytes product_request = product_body"
  "ctx_TenantID (ReqCtx product_request) = 7" "ReqPath product_request = ''/v1/debug/products:upsert''"
  "HeaderGet product_request k = ''''"
  by (simp_all add: product_request_def sample_request_def ctx_TenantID_With HeaderGet_def)

text \<open>A product that is not known yet is enqueued.\<close>

definition enqueued_output :: "string \<Rightarrow> ProcessOutput" where
  "enqueued_output h =
     \<lparr>Summary = \<lparr>Received = 1, Valid = 1, Rejected = 0, Unchanged = 0, Enqueued = 1\<rparr>,
      OutProducts = [\<lparr>ResProductKey = ''sku1'', ResHash = h, ResDisposition = ProductDispositionEnqueued,
        ResReason = ''new_product'', ResIssues = []\<rparr>]\<rparr>"

lemma product_processed_out:
  assumes "HashNormalized (sample_product ''sku1'') = Inr h" "\<forall>j. is_permuter (rng j)" "lk ''sku1'' = Inr None"
  shows "ProcessProducts rng [sample_product ''sku1''] [''google''] (Some lk) = Inr (enqueued_output h)"
proof -
  have "TrimSpace ''sku1'' \<noteq> ''''" by (simp add: TrimSpace_id)
  then have "ProcessProduct (rng 0) (sample_product ''sku1'') [''google''] (Some lk) =
      Inr (\<lparr>ResProductKey = ''sku1'', ResHash = h, ResDisposition = ProductDispositionEnqueued,
        ResReason = ''new_product'', ResIssues = []\<rparr>, True)"
    using sample_product_base [of "''sku1''"] sample_product_channels assms
    by (simp add: ProcessProduct_valid previous_hash_def ComputeDisposition_def)
  then show ?thesis by (simp add: ProcessProducts_def count_result_def init_output_def enqueued_output_def)
qed

lemma product_digest:
  obtains h where "HashNormalized (sample_product ''sku1'') = Inr h" "length h = 64" "set h \<subseteq> set ''0123456789abcdef''"
  using HashNormalized_total [of "sample_product ''sku1''"] HashNormalized_length HashNormalized_hex
  by (metis sample_product_wf(2))

lemma product_processed:
  assumes "\<forall>j. is_permuter (rng j)" "lk ''sku1'' = Inr None"
  obtains out pr where "ProcessProducts rng [sample_product ''sku1''] [''google''] (Some lk) = Inr out"
    "OutProducts out = [pr]" "ResProductKey pr = ''sku1''" "ResDisposition pr = ProductDispositionEnqueued"
    "length (ResHash pr) = 64" "Enqueued (Summary out) = 1"
proof -
  obtain h where h: "HashNormalized (sample_product ''sku1'') = Inr h" "length h = 64" by (rule product_digest)
  show ?thesis using product_processed_out [of h rng lk] h assms by (intro that) (auto simp: enqueued_output_def)
qed

section \<open>Properties\<close>

text \<open>(C4) A successful upsert: over the memory store, a POST whose body arrives whole and parses
  answers 200 with the result of processing against the tenant's canonical state, records
  exactly one run under the new identifier for the tenant, with the result's counters, and its
  products; it writes the digest of every valid product to the tenant's state (the last one of
  a repeated key) and changes no state of another tenant, no other run and no cached response.\<close>

theorem upsert_records_run:
  assumes "wf_store s" "HandlerStore h = Some memory_Store" "Method r = ''POST''" "NewRunID rt = Inr i"
    "BodyErr r = None" "ParseProductsAllowUnknown (BodyBytes r) = Inr parsed" "ctx_TenantID (ReqCtx r) = t"
  shows "\<exists>out s'. DebugUpsert_ServeHTTP h rt r s = (writeJSON 200 (PRun (run_response i (Warnings parsed) out)), s') \<and>
    ProcessProducts (RngChannels rt) (Products parsed) (EnabledChannels h) (Some (mem_GetProductHash s t)) = Inr out \<and>
    wf_store s' \<and> idem s' = idem s \<and>
    map_of (runs s') = (map_of (runs s))(i \<mapsto> run_record i t (Warnings parsed) out (NowRun rt)) \<and>
    map_of (runProducts s') = (map_of (runProducts s))(i \<mapsto> OutProducts out) \<and>
    (\<forall>t' k. mem_GetProductHash s' t' k =
       (if t' = t then (case map_of (rev (hash_writes (OutProducts out))) k of
            Some hash \<Rightarrow> Inr (Some hash) | None \<Rightarrow> mem_GetProductHash s t' k)
        else mem_GetProductHash s t' k))"
proof -
  from DebugUpsert_mem [OF assms(1-6)] assms(7) obtain out where
    p: "ProcessProducts (RngChannels rt) (Products parsed) (EnabledChannels h) (Some (mem_GetProductHash s t)) = Inr out"
    and d: "DebugUpsert_ServeHTTP h rt r s =
      (writeJSON 200 (PRun (run_response i (Warnings parsed) out)),
       record_run (run_record i t (Warnings parsed) out (NowRun rt)) (OutProducts out)
         (mem_puts t (hash_writes (OutProducts out)) s))" by metis
  have id: "RunID (run_record i t (Warnings parsed) out (NowRun rt)) = i" by (simp add: run_record_def)
  show ?thesis
    unfolding d
    by (intro exI [of _ out] exI conjI, rule refl)
      (simp_all add: p id get_mem_puts [OF assms(1)] wf_record_run wf_mem_puts assms(1))
qed

theorem upsert_records_run_witness:
  "\<exists>out s' run. DebugUpsert_ServeHTTP sample_handler (sample_runtime ''0123456789abcdef'' 5) product_request sample_store =
      (writeJSON 200 (PRun out), s') \<and> mem_GetProductHash s' 1 ''sku1'' = Inr None \<and>
    (\<exists>h. mem_GetProductHash s' 7 ''sku1'' = Inr (Some h) \<and> length h = 64) \<and>
    map_of (runs s') (''run_'' @ EncodeToString ''0123456789abcdef'') = Some run \<and> Status run = ''has_changes''"
proof -
  have none: "mem_GetProductHash sample_store t k = Inr None" for t k
    by (simp add: sample_store_def NewMemoryStore_def mem_InsertRun_def mem_GetProductHash_def)
  obtain out pr where out: "ProcessProducts (RngChannels (sample_runtime ''0123456789abcdef'' 5)) [sample_product ''sku1''] [''google'']
      (Some (mem_GetProductHash sample_store 7)) = Inr out"
    "OutProducts out = [pr]" "ResProductKey pr = ''sku1''" "ResDisposition pr = ProductDispositionEnqueued"
    "length (ResHash pr) = 64" "Enqueued (Summary out) = 1"
    by (rule product_processed [OF sample_runtime_channels none])
  have w: "ParseProductsAllowUnknown (BodyBytes product_request) =
      Inr \<lparr>Products = [sample_product ''sku1''], Warnings = \<lparr>UnknownKeys = []\<rparr>\<rparr>" by (simp add: product_parse)
  from upsert_records_run [OF wf_sample_store sample_request_simps(5) product_request_simps(1) NewRunID_sample product_request_simps(2) w
      product_request_simps(4), of "''0123456789abcdef''" 5] out(1)
  obtain s' where "DebugUpsert_ServeHTTP sample_handler (sample_runtime ''0123456789abcdef'' 5) product_request sample_store =
      (writeJSON 200 (PRun (run_response (''run_'' @ EncodeToString ''0123456789abcdef'') \<lparr>UnknownKeys = []\<rparr> out)), s')"
    "map_of (runs s') (''run_'' @ EncodeToString ''0123456789abcdef'') =
       Some (run_record (''run_'' @ EncodeToString ''0123456789abcdef'') 7 \<lparr>UnknownKeys = []\<rparr> out
         (NowRun (sample_runtime ''0123456789abcdef'' 5)))"
    "\<forall>t' k. mem_GetProductHash s' t' k = (if t' = 7 then (case map_of (rev (hash_writes (OutProducts out))) k of
            Some hash \<Rightarrow> Inr (Some hash) | None \<Rightarrow> mem_GetProductHash sample_store t' k)
        else mem_GetProductHash sample_store t' k)"
    by auto
  moreover have "persisted pr" using out(4,5) by (auto simp: persisted_def)
  ultimately show ?thesis
    using out(2-6) none
    by (intro exI [of _ "run_response (''run_'' @ EncodeToString ''0123456789abcdef'') \<lparr>UnknownKeys = []\<rparr> out"] exI [of _ s'])
      (simp add: run_record_def run_status_def)
qed

text \<open>(C5) Sending the same products again is recognised: after a successful upsert of products with
  distinct keys, a second upsert of the same body for the same tenant, whatever the runtime
  chooses, finds the same products invalid and every valid one unchanged, enqueues nothing and
  triggers no push.\<close>

theorem upsert_again_unchanged:
  assumes "wf_store s" "HandlerStore h = Some memory_Store" "Method r = ''POST''" "Method r' = ''POST''"
    "NewRunID rt = Inr i" "NewRunID rt' = Inr i'" "fair_runtime rt" "fair_runtime rt'"
    "BodyErr r = None" "BodyErr r' = None" "BodyBytes r' = BodyBytes r"
    "ParseProductsAllowUnknown (BodyBytes r) = Inr parsed" "distinct (map ProductKey (Products parsed))"
    "ctx_TenantID (ReqCtx r') = ctx_TenantID (ReqCtx r)"
    "DebugUpsert_ServeHTTP h rt r s = (writeJSON 200 (PRun resp), s1)"
  shows "\<exists>resp' s2. DebugUpsert_ServeHTTP h rt' r' s1 = (writeJSON 200 (PRun resp'), s2) \<and>
    \<not> RespPushTriggered resp' \<and> Enqueued (Summary (RespResult resp')) = 0 \<and>
    Rejected (Summary (RespResult resp')) = Rejected (Summary (RespResult resp)) \<and>
    Unchanged (Summary (RespResult resp')) = Valid (Summary (RespResult resp))"
proof -
  let ?t = "ctx_TenantID (ReqCtx r)"
  obtain out where out: "ProcessProducts (RngChannels rt) (Products parsed) (EnabledChannels h)
       (Some (mem_GetProductHash s ?t)) = Inr out"
    "DebugUpsert_ServeHTTP h rt r s =
      (writeJSON 200 (PRun (run_response i (Warnings parsed) out)),
       record_run (run_record i ?t (Warnings parsed) out (NowRun rt)) (OutProducts out)
         (mem_puts ?t (hash_writes (OutProducts out)) s))"
    using DebugUpsert_mem [OF assms(1,2,3,5,9,12)] by blast
  have resp: "resp = run_response i (Warnings parsed) out"
    and s1: "s1 = record_run (run_record i ?t (Warnings parsed) out (NowRun rt)) (OutProducts out)
         (mem_puts ?t (hash_writes (OutProducts out)) s)"
    using out(2) assms(15) by (simp_all add: writeJSON_def)
  have wf1: "wf_store s1" unfolding s1 by (intro inv_intros assms(1))
  have parsed': "ParseProductsAllowUnknown (BodyBytes r') = Inr parsed" using assms(11,12) by simp
  obtain out' where out': "ProcessProducts (RngChannels rt') (Products parsed) (EnabledChannels h)
       (Some (mem_GetProductHash s1 ?t)) = Inr out'"
    "\<exists>s2. DebugUpsert_ServeHTTP h rt' r' s1 = (writeJSON 200 (PRun (run_response i' (Warnings parsed) out')), s2)"
    using DebugUpsert_mem [OF wf1 assms(2,4,6,10) parsed'] assms(14) by metis
  have hash: "mem_GetProductHash s1 ?t k = Inr (Some hsh)"
    if "map_of (rev (hash_writes (OutProducts out))) k = Some hsh" for k hsh
    using that by (simp add: s1 get_mem_puts [OF assms(1)])
  have "\<forall>j. is_permuter (RngChannels rt j)" "\<forall>j. is_permuter (RngChannels rt' j)"
    using assms(7,8) by (simp_all add: fair_runtime_def)
  from ProcessProducts_again [OF out(1) this assms(13) hash out'(1)]
  show ?thesis using out'(2) unfolding resp by (auto simp: run_response_def)
qed

theorem upsert_again_unchanged_witness:
  "\<exists>resp s1 resp' s2.
     DebugUpsert_ServeHTTP sample_handler (sample_runtime ''a'' 5) product_request sample_store = (writeJSON 200 (PRun resp), s1) \<and>
     DebugUpsert_ServeHTTP sample_handler (sample_runtime ''b'' 6) product_request s1 = (writeJSON 200 (PRun resp'), s2) \<and>
     Enqueued (Summary (RespResult resp')) = 0"
proof -
  have w: "ParseProductsAllowUnknown (BodyBytes product_request) =
      Inr \<lparr>Products = [sample_product ''sku1''], Warnings = \<lparr>UnknownKeys = []\<rparr>\<rparr>" by (simp add: product_parse)
  obtain out s1 where one: "DebugUpsert_ServeHTTP sample_handler (sample_runtime ''a'' 5) product_request sample_store =
      (writeJSON 200 (PRun out), s1)"
    using DebugUpsert_mem [OF wf_sample_store sample_request_simps(5) product_request_simps(1) NewRunID_sample product_request_simps(2) w]
    by metis
  from upsert_again_unchanged [OF wf_sample_store sample_request_simps(5) product_request_simps(1,1) NewRunID_sample NewRunID_sample
      fair_sample_runtime fair_sample_runtime product_request_simps(2,2) refl w _ refl one, of "''b''" 6]
  show ?thesis using one by auto
qed

text \<open>A worker is woken exactly for changes: the run a successful upsert records waits to be
  claimed if and only if some product of the batch was enqueued, and the response's
  push flag says so.\<close>

theorem upsert_wakes_worker_iff:
  assumes "wf_store s" "HandlerStore h = Some memory_Store" "Method r = ''POST''" "NewRunID rt = Inr i"
    "BodyErr r = None" "ParseProductsAllowUnknown (BodyBytes r) = Inr parsed"
    "DebugUpsert_ServeHTTP h rt r s = (writeJSON 200 (PRun resp), s')"
  shows "\<exists>run. map_of (runs s') i = Some run \<and> RespRunID resp = i \<and>
    (claimable run \<longleftrightarrow> (\<exists>pr \<in> set (OutProducts (RespResult resp)). ResDisposition pr = ProductDispositionEnqueued)) \<and>
    (RespPushTriggered resp \<longleftrightarrow> claimable run)"
proof -
  let ?t = "ctx_TenantID (ReqCtx r)"
  obtain out where out: "ProcessProducts (RngChannels rt) (Products parsed) (EnabledChannels h)
       (Some (mem_GetProductHash s ?t)) = Inr out"
    "DebugUpsert_ServeHTTP h rt r s =
      (writeJSON 200 (PRun (run_response i (Warnings parsed) out)),
       record_run (run_record i ?t (Warnings parsed) out (NowRun rt)) (OutProducts out)
         (mem_puts ?t (hash_writes (OutProducts out)) s))"
    using DebugUpsert_mem [OF assms(1-6)] by blast
  have resp: "resp = run_response i (Warnings parsed) out"
    and s': "map_of (runs s') i = Some (run_record i ?t (Warnings parsed) out (NowRun rt))"
    using out(2) assms(7) by (auto simp: writeJSON_def run_record_def)
  have c: "claimable (run_record i ?t (Warnings parsed) out (NowRun rt)) \<longleftrightarrow>
    (\<exists>pr \<in> set (OutProducts out). ResDisposition pr = ProductDispositionEnqueued)"
    by (rule claimable_run_record [OF ProcessProducts_summary_ok [OF out(1)] ctx_TenantID_nonzero])
  have "claimable (run_record i ?t (Warnings parsed) out (NowRun rt)) \<longleftrightarrow> Enqueued (Summary out) > 0"
    using ctx_TenantID_nonzero [of "ReqCtx r"] by (auto simp: claimable_def run_record_def run_status_def Let_def)
  with c s' show ?thesis by (simp add: resp run_response_def)
qed

theorem upsert_wakes_worker_iff_witness:
  "\<exists>resp s' run. DebugUpsert_ServeHTTP sample_handler (sample_runtime ''a'' 5) sample_request sample_store = (writeJSON 200 (PRun resp), s') \<and>
     map_of (runs s') (''run_'' @ EncodeToString ''a'') = Some run \<and> RespPushTriggered resp = claimable run"
proof -
  obtain w where w: "ParseProductsAllowUnknown (BodyBytes sample_request) = Inr \<lparr>Products = [zero_Product], Warnings = w\<rparr>"
    using sample_parse by auto
  obtain out s1 where one: "DebugUpsert_ServeHTTP sample_handler (sample_runtime ''a'' 5) sample_request sample_store =
      (writeJSON 200 (PRun out), s1)"
    using DebugUpsert_mem [OF wf_sample_store sample_request_simps(5,1) NewRunID_sample sample_request_simps(2) w]
    by metis
  from upsert_wakes_worker_iff [OF wf_sample_store sample_request_simps(5,1) NewRunID_sample sample_request_simps(2) w one]
  show ?thesis using one by auto
qed

text \<open>The errors of the upsert endpoint: over the memory store the status is 405 for another
  method, 500 when no identifier can be drawn, 400 when the body cannot be read or parsed, and
  200 otherwise; every answer but 200 leaves the store as it was.\<close>

theorem upsert_errors:
  assumes "wf_store s" "HandlerStore h = Some memory_Store"
  shows "RespCode (fst (DebugUpsert_ServeHTTP h rt r s)) =
      (if Method r \<noteq> ''POST'' then 405
       else case NewRunID rt of Inl _ \<Rightarrow> 500 | Inr _ \<Rightarrow>
         if BodyErr r \<noteq> None then 400
         else case ParseProductsAllowUnknown (BodyBytes r) of Inl _ \<Rightarrow> 400 | Inr _ \<Rightarrow> 200) \<and>
    (RespCode (fst (DebugUpsert_ServeHTTP h rt r s)) \<noteq> 200 \<longrightarrow> snd (DebugUpsert_ServeHTTP h rt r s) = s)"
proof (cases "Method r = ''POST'' \<and> (\<exists>i. NewRunID rt = Inr i) \<and> BodyErr r = None \<and>
    (\<exists>p. ParseProductsAllowUnknown (BodyBytes r) = Inr p)")
  case True
  then obtain i parsed where h: "Method r = ''POST''" "NewRunID rt = Inr i" "BodyErr r = None"
    "ParseProductsAllowUnknown (BodyBytes r) = Inr parsed" by blast
  obtain out where "\<exists>s'. DebugUpsert_ServeHTTP h rt r s = (writeJSON 200 (PRun (run_response i (Warnings parsed) out)), s')"
    using DebugUpsert_mem [OF assms h] by metis
  then show ?thesis using h by auto
next
  case False
  then show ?thesis
    using assms(2)
    by (cases "NewRunID rt"; cases "ParseProductsAllowUnknown (BodyBytes r)"; cases "BodyErr r")
      (auto simp: DebugUpsert_ServeHTTP_def Let_def)
qed

theorem upsert_errors_witness:
  "DebugUpsert_ServeHTTP sample_handler (sample_runtime ''a'' 5) (sample_request\<lparr>Method := ''GET''\<rparr>) sample_store =
     (write_status 405, sample_store) \<and>
   RespCode (fst (DebugUpsert_ServeHTTP sample_handler (sample_runtime ''a'' 5)
     (sample_request\<lparr>BodyErr := Some ''unexpected EOF''\<rparr>) sample_store)) = 400"
  using upsert_errors [OF wf_sample_store sample_request_simps(5), of "sample_runtime ''a'' 5" "sample_request\<lparr>Method := ''GET''\<rparr>"]
    upsert_errors [OF wf_sample_store sample_request_simps(5), of "sample_runtime ''a'' 5"
      "sample_request\<lparr>BodyErr := Some ''unexpected EOF''\<rparr>"]
  by (simp add: NewRunID_sample DebugUpsert_ServeHTTP_def)

end
