(* ===== verification/Bulk.thy ===== *)
theory Bulk
  imports Upsert
begin

text \<open>
  What the streaming endpoint guarantees: its counters for any stream and any store, that on
  well-formed lines with distinct keys it does exactly what the array endpoint does, and what a
  stream that breaks off leaves behind.
\<close>

section \<open>Counting lines\<close>

lemma receive_one_simps [simp]:
  "OutProducts (receive_one out) = OutProducts out"
  "Received (Summary (receive_one out)) = Suc (Received (Summary out))"
  by (simp_all add: receive_one_def)

lemma summary_ok_receive_one [simp]: "summary_ok (receive_one out) = summary_ok out"
  by (simp add: summary_ok_def receive_one_def)

lemma summary_ok_invalid_line: "summary_ok out \<Longrightarrow> summary_ok (count_result (invalid_line err) False out)"
  by (rule summary_ok_count_result)
    (simp_all add: is_valid_disposition_def invalid_line_def rejected_result_def)

definition content_lines :: "string list \<Rightarrow> string list" where
  "content_lines ls = filter (\<lambda>l. TrimSpace l \<noteq> []) ls"

lemma bulk_loop_summary:
  "bulk_loop store t en rng i ls out unk s = (Inr (out', unk'), s') \<Longrightarrow> summary_ok out \<Longrightarrow>
   summary_ok out' \<and> Received (Summary out') = Received (Summary out) + length (content_lines ls) \<and>
   length (OutProducts out') = length (OutProducts out) + length (content_lines ls)"
proof (induction store t en rng i ls out unk s rule: bulk_loop.induct)
  case (1 store t en rng i out unk s)
  then show ?case by (simp add: content_lines_def)
next
  case (2 store t en rng i l ls out unk s)
  show ?case
  proof (cases "TrimSpace l = []")
    case True
    then show ?thesis using 2 by (simp add: content_lines_def)
  next
    case line: False
    note IH = "2.IH"(2-) [OF refl line refl]
    show ?thesis
    proof (cases "ParseProductObjectAllowUnknown (TrimSpace l)")
      case (Inl err)
      then show ?thesis
        using IH(1) [OF Inl] "2.prems" line summary_ok_invalid_line [of "receive_one out" err]
        by (simp add: content_lines_def)
    next
      case (Inr pu)
      obtain p u where pu: "pu = (p, u)" by (cases pu)
      show ?thesis
      proof (cases "ProcessProduct (rng i) p en (Some (GetProductHash store s t))")
        case (Inl e)
        then show ?thesis using "2.prems"(1) line Inr pu by simp
      next
        case rv: (Inr rv)
        obtain r v where r: "rv = (r, v)" by (cases rv)
        have ok: "summary_ok (count_result r v (receive_one out))"
          using "2.prems"(2) ProcessProduct_disposition(2,3) [of "rng i" p en _ r v] rv r
          by (intro summary_ok_count_result) simp_all
        show ?thesis
          using "2.prems"(1) line Inr pu rv r ok IH(2,3) [OF Inr [unfolded pu] refl refl rv [unfolded r] refl refl]
          by (auto simp: content_lines_def Let_def split: if_splits prod.splits option.splits)
      qed
    qed
  qed
qed

section \<open>Streaming does what the array endpoint does\<close>

definition add_received :: "nat \<Rightarrow> ProcessOutput \<Rightarrow> ProcessOutput" where
  "add_received n out = out\<lparr>Summary := (Summary out)\<lparr>Received := Received (Summary out) + n\<rparr>\<rparr>"

lemma add_received_0 [simp]: "add_received 0 out = out"
  by (simp add: add_received_def)

lemma add_received_Suc: "add_received (Suc n) out = add_received n (receive_one out)"
  by (simp add: add_received_def receive_one_def)

lemma count_add_received: "count_result r v (add_received n out) = add_received n (count_result r v out)"
  by (simp add: count_result_def add_received_def Let_def)

lemma OutProducts_add_received [simp]: "OutProducts (add_received n out) = OutProducts out"
  by (simp add: add_received_def)

lemma ProcessProduct_lookup_cong:
  "lk (ProductKey p) = lk' (ProductKey p) \<Longrightarrow> ProcessProduct rng p en (Some lk) = ProcessProduct rng p en (Some lk')"
  by (simp only: ProcessProduct_def option.case)

lemma mem_Upsert_other:
  "wf_store s \<Longrightarrow> k' \<noteq> k \<Longrightarrow> mem_GetProductHash (snd (mem_UpsertProductHash t k h s)) t k' = mem_GetProductHash s t k'"
  by (simp add: mem_hashes.get_put)

text \<open>The loop over lines that parse to products with distinct keys is the batch loop, with the
  writes of the results so far already in the store.\<close>

lemma bulk_loop_batch:
  assumes "wf_store s" "\<forall>l \<in> set ls. TrimSpace l \<noteq> []"
    "map (ParseProductObjectAllowUnknown \<circ> TrimSpace) ls = map Inr rs"
    "distinct (map (ProductKey \<circ> fst) rs)" "\<forall>x \<in> set rs. mem_GetProductHash s t (ProductKey (fst x)) = lk (ProductKey (fst x))"
    "process_loop rng i (map fst rs) en (Some lk) (add_received (length ls) out) = Inr out'"
  shows "\<exists>rest. OutProducts out' = OutProducts out @ rest \<and>
    bulk_loop memory_Store t en rng i ls out unk s =
      (Inr (out', unk \<union> \<Union> (set (map snd rs))), mem_puts t (hash_writes rest) s)"
  using assms
proof (induction ls arbitrary: s rs i out unk)
  case Nil
  then show ?case by (simp add: mem_puts_def)
next
  case (Cons l ls)
  then obtain p u rs' where rs: "rs = (p, u) # rs'" by (cases rs) auto
  have line: "TrimSpace l \<noteq> []" "ParseProductObjectAllowUnknown (TrimSpace l) = Inr (p, u)"
    and rest: "map (ParseProductObjectAllowUnknown \<circ> TrimSpace) ls = map Inr rs'"
    using Cons.prems(2,3) rs by (simp_all add: comp_def)
  have lk: "mem_GetProductHash s t (ProductKey p) = lk (ProductKey p)"
    using Cons.prems(5) rs by simp
  obtain r v where pp: "ProcessProduct (rng i) p en (Some lk) = Inr (r, v)"
    and loop: "process_loop rng (Suc i) (map fst rs') en (Some lk)
        (add_received (length ls) (count_result r v (receive_one out))) = Inr out'"
    using Cons.prems(6) rs by (auto simp: bind_res_eq_Inr add_received_Suc count_add_received)
  have pp': "ProcessProduct (rng i) p en (Some (mem_GetProductHash s t)) = Inr (r, v)"
    using ProcessProduct_lookup_cong [of "mem_GetProductHash s t" p lk] lk pp by simp
  have key: "ResProductKey r = ProductKey p" and pv: "persisted r = v"
    using ProcessProduct_disposition(1) [OF pp] persisted_iff_valid [OF pp] by auto
  define s1 where "s1 = (if v then snd (mem_UpsertProductHash t (ResProductKey r) (ResHash r) s) else s)"
  have wf1: "wf_store s1" using wf_store_UpsertProductHash [OF Cons.prems(1)] Cons.prems(1) by (simp add: s1_def)
  have "mem_GetProductHash s1 t (ProductKey (fst x)) = lk (ProductKey (fst x))" if x: "x \<in> set rs'" for x
  proof -
    have "ProductKey (fst x) \<noteq> ProductKey p"
      using Cons.prems(4) rs x by (metis (no_types, lifting) comp_apply distinct.simps(2) fst_conv image_eqI list.set_map list.simps(9))
    then show ?thesis using Cons.prems(1,5) rs x key by (simp add: s1_def mem_Upsert_other)
  qed
  then have lk1: "\<forall>x \<in> set rs'. mem_GetProductHash s1 t (ProductKey (fst x)) = lk (ProductKey (fst x))" by blast
  have blanks: "\<forall>l \<in> set ls. TrimSpace l \<noteq> []" and dist: "distinct (map (ProductKey \<circ> fst) rs')"
    using Cons.prems(2,4) rs by (simp_all add: comp_def)
  obtain more where more: "OutProducts out' = OutProducts (count_result r v (receive_one out)) @ more"
    "bulk_loop memory_Store t en rng (Suc i) ls (count_result r v (receive_one out)) (unk \<union> u) s1 =
      (Inr (out', (unk \<union> u) \<union> \<Union> (set (map snd rs'))), mem_puts t (hash_writes more) s1)"
    using Cons.IH [OF wf1 blanks rest dist lk1 loop, of "unk \<union> u"] by blast
  have step: "bulk_loop memory_Store t en rng i (l # ls) out unk s =
      bulk_loop memory_Store t en rng (Suc i) ls (count_result r v (receive_one out)) (unk \<union> u) s1"
    using line pp' pv by (auto simp: Let_def persisted_def s1_def mem_UpsertProductHash_def)
  have "mem_puts t (hash_writes (r # more)) s = mem_puts t (hash_writes more) s1"
    using pv by (simp add: mem_puts_def s1_def)
  with more step rs show ?case
    by (intro exI [of _ "r # more"]) (simp add: Un_assoc)
qed

lemma bulk_loop_mem:
  assumes "wf_store s" "\<forall>l \<in> set ls. TrimSpace l \<noteq> []"
    "map (ParseProductObjectAllowUnknown \<circ> TrimSpace) ls = map Inr rs"
    "distinct (map (ProductKey \<circ> fst) rs)"
  obtains out where
    "ProcessProducts rng (map fst rs) en (Some (mem_GetProductHash s t)) = Inr out"
    "bulk_loop memory_Store t en rng 0 ls (init_output 0) {} s =
      (Inr (out, \<Union> (set (map snd rs))), mem_puts t (hash_writes (OutProducts out)) s)"
proof -
  have "finite_Product p" if p: "p \<in> set (map fst rs)" for p
  proof -
    obtain x where x: "x \<in> set rs" "fst x = p" using p by auto
    then have "Inr x \<in> set (map (ParseProductObjectAllowUnknown \<circ> TrimSpace) ls)" unfolding assms(3) by simp
    then obtain l where "ParseProductObjectAllowUnknown l = Inr (p, snd x)" using x(2) by auto
    then show ?thesis
      by (auto simp: ParseProductObjectAllowUnknown_def bind_res_eq_Inr dest: finite_parseSingleProduct_attrs)
  qed
  then obtain out where out: "ProcessProducts rng (map fst rs) en (Some (mem_GetProductHash s t)) = Inr out"
    using ProcessProducts_mem_total by blast
  have "length rs = length ls" using assms(3) by (metis length_map)
  then have "process_loop rng 0 (map fst rs) en (Some (mem_GetProductHash s t)) (add_received (length ls) (init_output 0)) = Inr out"
    using out by (simp add: ProcessProducts_def add_received_def init_output_def)
  from bulk_loop_batch [OF assms _ this, of t "{}"]
  obtain rest where "OutProducts out = rest"
    "bulk_loop memory_Store t en rng 0 ls (init_output 0) {} s =
      (Inr (out, \<Union> (set (map snd rs))), mem_puts t (hash_writes rest) s)"
    by (auto simp: init_output_def)
  with out show ?thesis by (intro that [of out]) simp_all
qed

text \<open>A body of lines, each ended by a newline.\<close>

definition ndjson :: "string list \<Rightarrow> string" where
  "ndjson ls = concat (map (\<lambda>l. l @ [CHR 0x0A]) ls)"

lemma scan_ndjson: "\<forall>l \<in> set ls. plain_line l \<Longrightarrow> scan_body rt (ndjson ls, e) = (ls, e)"
  by (simp add: scan_body_def ndjson_def scan_lines_plain)

lemma no_encoding [simp]: "wrapMaybeGzip gz b '''' = Inr b"
  by (simp add: wrapMaybeGzip_def ToLower_ascii)

lemma DebugBulk_mem:
  assumes "wf_store s" "HandlerStore h = Some memory_Store" "Method r = ''POST''" "NewRunID rt = Inr i"
    "HeaderGet r ''Content-Encoding'' = ''''" "BodyBytes r = ndjson ls" "\<forall>l \<in> set ls. plain_line l \<and> TrimSpace l \<noteq> []"
    "map (ParseProductObjectAllowUnknown \<circ> TrimSpace) ls = map Inr rs" "distinct (map (ProductKey \<circ> fst) rs)"
  obtains out where
    "ProcessProducts (RngChannels rt) (map fst rs) (EnabledChannels h)
       (Some (mem_GetProductHash s (ctx_TenantID (ReqCtx r)))) = Inr out"
    "DebugBulkUpsert_ServeHTTP gz h rt r s =
      (case BodyErr r of
         Some err \<Rightarrow> (writeJSON 400 (error_body ''read_failed'' err),
                     mem_puts (ctx_TenantID (ReqCtx r)) (hash_writes (OutProducts out)) s)
       | None \<Rightarrow> (writeJSON 200 (PRun (run_response i \<lparr>UnknownKeys = SortedUnknownKeys (\<Union> (set (map snd rs)))\<rparr> out)),
           record_run (run_record i (ctx_TenantID (ReqCtx r)) \<lparr>UnknownKeys = SortedUnknownKeys (\<Union> (set (map snd rs)))\<rparr>
             out (NowRun rt)) (OutProducts out)
             (mem_puts (ctx_TenantID (ReqCtx r)) (hash_writes (OutProducts out)) s)))"
proof -
  have blanks: "\<forall>l \<in> set ls. TrimSpace l \<noteq> []" and plain: "\<forall>l \<in> set ls. plain_line l" using assms(7) by blast+
  obtain out where out: "ProcessProducts (RngChannels rt) (map fst rs) (EnabledChannels h)
       (Some (mem_GetProductHash s (ctx_TenantID (ReqCtx r)))) = Inr out"
    and loop: "bulk_loop memory_Store (ctx_TenantID (ReqCtx r)) (EnabledChannels h) (RngChannels rt) 0 ls (init_output 0) {} s =
      (Inr (out, \<Union> (set (map snd rs))), mem_puts (ctx_TenantID (ReqCtx r)) (hash_writes (OutProducts out)) s)"
    by (rule bulk_loop_mem [OF assms(1) blanks assms(8,9)])
  show ?thesis
    using assms(2-6)
    by (intro that [OF out])
      (simp add: DebugBulkUpsert_ServeHTTP_def Let_def scan_ndjson [OF plain] loop finish_run_mem
        split: option.split)
qed

section \<open>Sample lines\<close>

definition sample_line :: string where
  "sample_line = [CHR ''{'', CHR 0x22, CHR ''x'', CHR 0x22, CHR '':'', CHR ''1'', CHR ''}'']"

definition sample_bulk_request :: "go_error option \<Rightarrow> Request" where
  "sample_bulk_request err = sample_request\<lparr>BodyBytes := ndjson [sample_line], BodyErr := err\<rparr>"

lemma TrimSpace_sample_line: "TrimSpace sample_line = sample_line"
  by (rule TrimSpace_id) (simp_all add: sample_line_def)

lemma sample_line_plain: "\<forall>l \<in> set [sample_line]. plain_line l \<and> TrimSpace l \<noteq> []"
  by (simp add: TrimSpace_sample_line plain_line_def max_token_def) (simp add: sample_line_def)

lemma sample_line_parse:
  obtains u where "map (ParseProductObjectAllowUnknown \<circ> TrimSpace) [sample_line] = map Inr [(zero_Product, u)]"
    "ParseProductsAllowUnknown sample_body =
       Inr \<lparr>Products = map fst [(zero_Product, u)],
            Warnings = \<lparr>UnknownKeys = SortedUnknownKeys (\<Union> (set (map snd [(zero_Product, u)])))\<rparr>\<rparr>"
proof -
  obtain u where u: "parseSingleProduct [(''x'', JNum ''1'')] = Inr (zero_Product, u)"
    using sample_item by blast
  have "unmarshal_doc sample_line = Inr (JObj [(''x'', JNum ''1'')])"
    by (simp add: sample_line_def json_eval)
  moreover have "decode_doc sample_body = Inr (JArr [JObj [(''x'', JNum ''1'')]])"
    by (simp add: sample_body_def json_eval)
  ultimately show ?thesis
    by (intro that [of u])
      (simp_all add: TrimSpace_sample_line ParseProductObjectAllowUnknown_def ParseProductsAllowUnknown_def u
        SortedUnknownKeys_def)
qed

lemma sample_bulk_simps [simp]:
  "Method (sample_bulk_request e) = ''POST''" "BodyErr (sample_bulk_request e) = e"
  "BodyBytes (sample_bulk_request e) = ndjson [sample_line]" "ReqCtx (sample_bulk_request e) = ReqCtx sample_request"
  "HeaderGet (sample_bulk_request e) k = ''''"
  by (simp_all add: sample_bulk_request_def sample_request_def HeaderGet_def)

text \<open>The product of the repository's tests as a line.\<close>

definition product_line :: string where
  "product_line = render (JObj product_item)"

definition product_bulk_request :: "go_error option \<Rightarrow> Request" where
  "product_bulk_request err = sample_request\<lparr>BodyBytes := ndjson [product_line], BodyErr := err\<rparr>"

lemma product_bulk_simps [simp]:
  "Method (product_bulk_request e) = ''POST''" "BodyErr (product_bulk_request e) = e"
  "BodyBytes (product_bulk_request e) = ndjson [product_line]" "ReqCtx (product_bulk_request e) = ReqCtx sample_request"
  "HeaderGet (product_bulk_request e) k = ''''"
  by (simp_all add: product_bulk_request_def sample_request_def HeaderGet_def)

lemma quote_plain:
  assumes "list_all (\<lambda>c. byte c < 128 \<and> escape_byte c = [c]) s"
  shows "quote_str s = CHR 0x22 # s @ [CHR 0x22]"
proof -
  have "escape_str s = s" using assms by (induction s) (simp_all add: escape_str.simps)
  then show ?thesis by (simp add: quote_str_def)
qed

lemma product_line_plain_text: "plain_line product_line"
  by (simp add: product_line_def product_item_def quote_plain escape_byte_def plain_line_def max_token_def)

lemma TrimSpace_product_line: "TrimSpace product_line = product_line"
  by (rule TrimSpace_id) (simp_all add: product_line_def)

lemma product_line_plain: "\<forall>l \<in> set [product_line]. plain_line l \<and> TrimSpace l \<noteq> []"
  using product_line_plain_text TrimSpace_product_line by (simp add: product_line_def)

lemma product_line_parse:
  "map (ParseProductObjectAllowUnknown \<circ> TrimSpace) [product_line] = map Inr [(sample_product ''sku1'', {})]"
proof -
  have "unmarshal_doc product_line = Inr (JObj product_item)"
    unfolding product_line_def using product_item_wf by (intro unmarshal_render) simp_all
  then show ?thesis
    using TrimSpace_product_line by (simp add: ParseProductObjectAllowUnknown_def product_item_raw product_item_parse)
qed

section \<open>Properties\<close>

text \<open>(C6) The streaming and the array endpoint agree: for lines that parse to the same products with
  distinct keys, sent whole and uncompressed, the streaming handler gives the same response and
  leaves the same store as the array handler, with the same run, products, hashes and warnings.\<close>

theorem bulk_equals_upsert:
  assumes "wf_store s" "HandlerStore h = Some memory_Store" "Method r = ''POST''" "Method rb = ''POST''"
    "NewRunID rt = Inr i" "BodyErr r = None" "BodyErr rb = None" "ReqCtx rb = ReqCtx r"
    "HeaderGet rb ''Content-Encoding'' = ''''" "BodyBytes rb = ndjson ls"
    "\<forall>l \<in> set ls. plain_line l \<and> TrimSpace l \<noteq> []"
    "map (ParseProductObjectAllowUnknown \<circ> TrimSpace) ls = map Inr rs" "distinct (map (ProductKey \<circ> fst) rs)"
    "ParseProductsAllowUnknown (BodyBytes r) =
       Inr \<lparr>Products = map fst rs, Warnings = \<lparr>UnknownKeys = SortedUnknownKeys (\<Union> (set (map snd rs)))\<rparr>\<rparr>"
  shows "DebugBulkUpsert_ServeHTTP gz h rt rb s = DebugUpsert_ServeHTTP h rt r s"
proof -
  let ?t = "ctx_TenantID (ReqCtx r)" and ?w = "\<lparr>UnknownKeys = SortedUnknownKeys (\<Union> (set (map snd rs)))\<rparr>"
  obtain out where out: "ProcessProducts (RngChannels rt) (map fst rs) (EnabledChannels h) (Some (mem_GetProductHash s ?t)) = Inr out"
    "DebugUpsert_ServeHTTP h rt r s =
      (writeJSON 200 (PRun (run_response i ?w out)),
       record_run (run_record i ?t ?w out (NowRun rt)) (OutProducts out) (mem_puts ?t (hash_writes (OutProducts out)) s))"
    using DebugUpsert_mem [OF assms(1,2,3,5,6,14)] by auto
  obtain out' where "ProcessProducts (RngChannels rt) (map fst rs) (EnabledChannels h) (Some (mem_GetProductHash s ?t)) = Inr out'"
    "DebugBulkUpsert_ServeHTTP gz h rt rb s =
      (writeJSON 200 (PRun (run_response i ?w out')),
       record_run (run_record i ?t ?w out' (NowRun rt)) (OutProducts out') (mem_puts ?t (hash_writes (OutProducts out')) s))"
    using DebugBulk_mem [OF assms(1,2,4,5,9-13), where gz = gz] assms(7,8) by auto
  with out show ?thesis by simp
qed

theorem bulk_equals_upsert_witness:
  "DebugBulkUpsert_ServeHTTP (\<lambda>b. Inl ''gzip: invalid header'') sample_handler (sample_runtime ''a'' 5) (sample_bulk_request None) sample_store =
   DebugUpsert_ServeHTTP sample_handler (sample_runtime ''a'' 5) sample_request sample_store"
proof -
  obtain u where "map (ParseProductObjectAllowUnknown \<circ> TrimSpace) [sample_line] = map Inr [(zero_Product, u)]"
    "ParseProductsAllowUnknown (BodyBytes sample_request) =
       Inr \<lparr>Products = map fst [(zero_Product, u)],
            Warnings = \<lparr>UnknownKeys = SortedUnknownKeys (\<Union> (set (map snd [(zero_Product, u)])))\<rparr>\<rparr>"
    using sample_line_parse by (metis sample_request_simps(3))
  from bulk_equals_upsert [OF wf_sample_store sample_request_simps(5,1) sample_bulk_simps(1) NewRunID_sample
      sample_request_simps(2) sample_bulk_simps(2,4,5,3) sample_line_plain this(1) _ this(2)]
  show ?thesis by simp
qed

text \<open>The counters of a stream: whatever the lines, the store and its errors, when the loop over
  the lines ends its summary counts one received product per line that is more than white
  space, one result for each of them, received = valid + rejected, and valid = unchanged +
  enqueued.\<close>

theorem bulk_counters:
  assumes "bulk_loop store t enabled rng 0 ls (init_output 0) {} s = (Inr (out, unknown), s')"
  shows "Received (Summary out) = length (filter (\<lambda>l. TrimSpace l \<noteq> []) ls) \<and>
    length (OutProducts out) = Received (Summary out) \<and>
    Received (Summary out) = Valid (Summary out) + Rejected (Summary out) \<and>
    Valid (Summary out) = Unchanged (Summary out) + Enqueued (Summary out) \<and>
    Enqueued (Summary out) = with_disp ProductDispositionEnqueued (OutProducts out)"
  using bulk_loop_summary [OF assms]
  by (auto simp: summary_ok_def content_lines_def init_output_def with_disp_def)

theorem bulk_counters_witness:
  "\<exists>out u s'. bulk_loop memory_Store 7 [''google''] (\<lambda>_ xs. xs) 0 [sample_line, '''', sample_line] (init_output 0) {} sample_store
      = (Inr (out, u), s') \<and> Received (Summary out) = 2"
proof -
  obtain u where u: "ParseProductObjectAllowUnknown sample_line = Inr (zero_Product, u)"
    using sample_line_parse by (auto simp: TrimSpace_sample_line)
  have p: "\<exists>r. \<forall>lk. ProcessProduct (\<lambda>xs. xs) zero_Product [''google''] lk = Inr (r, False)"
    by (auto simp: ProcessProduct_rejected_base IsValid_base_iff zero_Product_def)
  have ne: "sample_line \<noteq> []" by (simp add: sample_line_def)
  have "\<exists>out v s'. bulk_loop memory_Store 7 [''google''] (\<lambda>_ xs. xs) 0 [sample_line, '''', sample_line] (init_output 0) {} sample_store
      = (Inr (out, v), s')"
    using p u ne by (auto simp: TrimSpace_sample_line)
  then obtain out v s' where b: "bulk_loop memory_Store 7 [''google''] (\<lambda>_ xs. xs) 0 [sample_line, '''', sample_line] (init_output 0) {} sample_store
      = (Inr (out, v), s')" by blast
  show ?thesis using b bulk_counters [OF b] ne by (simp add: TrimSpace_sample_line)
qed

text \<open>(C33) A stream that breaks off loses its changes: when the body ends with a read error after lines
  that parse to products with distinct keys, the answer is 400 and no run is recorded, but the
  digests of the valid products are stored; sending the same lines again, whole, finds nothing
  to enqueue, so no worker is ever woken for these changes.\<close>

theorem bulk_read_error_then_retry:
  assumes "wf_store s" "HandlerStore h = Some memory_Store" "Method r = ''POST''" "NewRunID rt = Inr i" "NewRunID rt' = Inr i'"
    "fair_runtime rt" "fair_runtime rt'" "HeaderGet r ''Content-Encoding'' = ''''" "BodyBytes r = ndjson ls"
    "\<forall>l \<in> set ls. plain_line l \<and> TrimSpace l \<noteq> []"
    "map (ParseProductObjectAllowUnknown \<circ> TrimSpace) ls = map Inr rs" "distinct (map (ProductKey \<circ> fst) rs)"
    "BodyErr r = Some err"
  shows "\<exists>s1 resp s2. DebugBulkUpsert_ServeHTTP gz h rt r s = (writeJSON 400 (error_body ''read_failed'' err), s1) \<and>
    runs s1 = runs s \<and> runProducts s1 = runProducts s \<and>
    DebugBulkUpsert_ServeHTTP gz h rt' (r\<lparr>BodyErr := None\<rparr>) s1 = (writeJSON 200 (PRun resp), s2) \<and>
    Enqueued (Summary (RespResult resp)) = 0 \<and> \<not> RespPushTriggered resp"
proof -
  let ?t = "ctx_TenantID (ReqCtx r)"
  obtain out where out: "ProcessProducts (RngChannels rt) (map fst rs) (EnabledChannels h) (Some (mem_GetProductHash s ?t)) = Inr out"
    and one: "DebugBulkUpsert_ServeHTTP gz h rt r s =
      (writeJSON 400 (error_body ''read_failed'' err), mem_puts ?t (hash_writes (OutProducts out)) s)"
    using DebugBulk_mem [OF assms(1-4,8-12), where gz = gz] assms(13) by auto
  define s1 where "s1 = mem_puts ?t (hash_writes (OutProducts out)) s"
  have wf1: "wf_store s1" unfolding s1_def by (intro inv_intros assms(1))
  have r': "Method (r\<lparr>BodyErr := None\<rparr>) = ''POST''" "HeaderGet (r\<lparr>BodyErr := None\<rparr>) ''Content-Encoding'' = ''''"
    "BodyBytes (r\<lparr>BodyErr := None\<rparr>) = ndjson ls" using assms(3,8,9) by (simp_all add: HeaderGet_def)
  obtain out' where out': "ProcessProducts (RngChannels rt') (map fst rs) (EnabledChannels h) (Some (mem_GetProductHash s1 ?t)) = Inr out'"
    and two: "\<exists>w s2. DebugBulkUpsert_ServeHTTP gz h rt' (r\<lparr>BodyErr := None\<rparr>) s1 = (writeJSON 200 (PRun (run_response i' w out')), s2)"
  proof (rule DebugBulk_mem [OF wf1 assms(2) r'(1) assms(5) r'(2,3) assms(10-12), where gz = gz])
    fix out' :: ProcessOutput
    assume "ProcessProducts (RngChannels rt') (map fst rs) (EnabledChannels h)
        (Some (mem_GetProductHash s1 (ctx_TenantID (ReqCtx (r\<lparr>BodyErr := None\<rparr>))))) = Inr out'"
      "DebugBulkUpsert_ServeHTTP gz h rt' (r\<lparr>BodyErr := None\<rparr>) s1 = (case BodyErr (r\<lparr>BodyErr := None\<rparr>) of
         Some err \<Rightarrow> (writeJSON 400 (error_body ''read_failed'' err),
             mem_puts (ctx_TenantID (ReqCtx (r\<lparr>BodyErr := None\<rparr>))) (hash_writes (OutProducts out')) s1)
       | None \<Rightarrow> (writeJSON 200 (PRun (run_response i' \<lparr>UnknownKeys = SortedUnknownKeys (\<Union> (set (map snd rs)))\<rparr> out')),
           record_run (run_record i' (ctx_TenantID (ReqCtx (r\<lparr>BodyErr := None\<rparr>))) \<lparr>UnknownKeys = SortedUnknownKeys (\<Union> (set (map snd rs)))\<rparr>
             out' (NowRun rt')) (OutProducts out')
             (mem_puts (ctx_TenantID (ReqCtx (r\<lparr>BodyErr := None\<rparr>))) (hash_writes (OutProducts out')) s1)))"
    then show ?thesis by (intro that [of out']) auto
  qed
  have "mem_GetProductHash s1 ?t k = Inr (Some hsh)" if "map_of (rev (hash_writes (OutProducts out))) k = Some hsh" for k hsh
    using that by (simp add: s1_def get_mem_puts [OF assms(1)])
  moreover have "\<forall>j. is_permuter (RngChannels rt j)" "\<forall>j. is_permuter (RngChannels rt' j)"
    using assms(6,7) by (simp_all add: fair_runtime_def)
  moreover have "distinct (map ProductKey (map fst rs))" using assms(12) by simp
  ultimately have "Enqueued (Summary out') = 0" using ProcessProducts_again [OF out _ _ _ _ out'] by blast
  with one two show ?thesis by (auto simp: s1_def run_response_def)
qed

theorem bulk_read_error_then_retry_witness:
  "\<exists>s1 resp s2. DebugBulkUpsert_ServeHTTP (\<lambda>b. Inr b) sample_handler (sample_runtime ''a'' 5) (product_bulk_request (Some ''unexpected EOF'')) sample_store
      = (writeJSON 400 (error_body ''read_failed'' ''unexpected EOF''), s1) \<and> runs s1 = runs sample_store \<and>
     DebugBulkUpsert_ServeHTTP (\<lambda>b. Inr b) sample_handler (sample_runtime ''b'' 6) (product_bulk_request (Some ''unexpected EOF'')\<lparr>BodyErr := None\<rparr>) s1
      = (writeJSON 200 (PRun resp), s2) \<and> \<not> RespPushTriggered resp"
  using bulk_read_error_then_retry [OF wf_sample_store sample_request_simps(5) product_bulk_simps(1) NewRunID_sample NewRunID_sample
      fair_sample_runtime fair_sample_runtime product_bulk_simps(5,3) product_line_plain product_line_parse _ product_bulk_simps(2),
      of "\<lambda>b. Inr b" "''a''" 5 "''unexpected EOF''" "''b''" 6]
  by auto

end
