(* ===== verification/Middleware.thy ===== *)
theory Middleware
  imports Http
begin

text \<open>
  \<open>internal/api/middleware\<close> and \<open>internal/api/auth\<close>: the handlers that wrap other handlers. The
  JWT library is a parameter: parsing a token with the accepted algorithms, the leeway and a key
  function gives the claims and the token's validity, or an error.
\<close>

section \<open>Tenant\<close>

definition TenantHeaderKey :: string where
  [simp]: "TenantHeaderKey = ''X-Tenant-ID''"

definition is_dev :: "string \<Rightarrow> bool" where
  "is_dev env \<longleftrightarrow> EqualFold (TrimSpace env) ''dev''"

definition invalid_tenant_text :: string where
  \<open>invalid_tenant_text = ''{"error":"invalid_tenant_id","message":"X-Tenant-ID must be a positive integer"}''\<close>

definition with_tenant :: "Request \<Rightarrow> uint64 \<Rightarrow> Request" where
  "with_tenant r t = r\<lparr>ReqCtx := WithTenantID (ReqCtx r) t\<rparr>"

definition Tenant_ServeHTTP :: "string \<Rightarrow> 's handler option \<Rightarrow> 's handler" where
  "Tenant_ServeHTTP env nxt rt r s =
     (case nxt of
        None \<Rightarrow> (write_status 500, s)
      | Some serve \<Rightarrow>
          (let raw = TrimSpace (HeaderGet r TenantHeaderKey) in
           if is_dev env \<and> raw \<noteq> '''' then
             (case ParseUint raw of
                None \<Rightarrow> (write_text 400 invalid_tenant_text, s)
              | Some v \<Rightarrow> if v = 0 then (write_text 400 invalid_tenant_text, s)
                         else serve rt (with_tenant r v) s)
           else serve rt (with_tenant r DefaultTenantID) s))"

section \<open>Authentication\<close>

record Claims =
  ClaimsTenantID :: uint64

type_synonym 'k jwt_parser =
  "string list \<Rightarrow> int \<Rightarrow> string \<Rightarrow> (string \<Rightarrow> 'k res) \<Rightarrow> (Claims \<times> bool) res"

definition ParseAndValidateRS256 :: "'k jwt_parser \<Rightarrow> string \<Rightarrow> 'k option \<Rightarrow> Claims res" where
  "ParseAndValidateRS256 jwt tokenString pub =
     (case pub of
        None \<Rightarrow> Inl ''public key is nil''
      | Some key \<Rightarrow>
          (case jwt [''RS256''] (30 * 1000000000) tokenString
                  (\<lambda>alg. if alg \<noteq> ''RS256'' then Inl (''unexpected alg: '' @ alg) else Inr key) of
             Inl err \<Rightarrow> Inl err
           | Inr (claims, valid) \<Rightarrow>
               if \<not> valid then Inl ''invalid token''
               else if ClaimsTenantID claims = 0 then Inl ''tenant_id missing''
               else Inr claims))"

text \<open>\<open>LoadRSAPublicKeyFromEnv\<close>: the variable's value is given; parsing PEM is the library's.\<close>

definition LoadRSAPublicKeyFromEnv :: "(string \<Rightarrow> 'k res) \<Rightarrow> (string \<Rightarrow> string) \<Rightarrow> string \<Rightarrow> 'k res" where
  "LoadRSAPublicKeyFromEnv parse_pem getenv envKey =
     (let raw = TrimSpace (getenv envKey) in
      if raw = '''' then Inl (envKey @ '' is not set'')
      else case parse_pem (ReplaceAll raw (CHR 0x5C # ''n'') [CHR 0x0A]) of
             Inl err \<Rightarrow> Inl (''parse public key pem failed: '' @ err)
           | Inr pub \<Rightarrow> Inr pub)"

definition unauthorized :: "string \<Rightarrow> Response" where
  \<open>unauthorized message = write_text 401 (''{"error":"unauthorized","message":"'' @ message @ ''"}'')\<close>

definition Auth_ServeHTTP :: "'k jwt_parser \<Rightarrow> string \<Rightarrow> 'k option \<Rightarrow> 's handler option \<Rightarrow> 's handler" where
  "Auth_ServeHTTP jwt env pub nxt rt r s =
     (case nxt of
        None \<Rightarrow> (write_status 500, s)
      | Some serve \<Rightarrow>
          if is_dev env \<and> (ctx_TenantID (ReqCtx r) \<noteq> DefaultTenantID \<or> TrimSpace (HeaderGet r ''Authorization'') = '''')
          then serve rt r s
          else
            (let authz = TrimSpace (HeaderGet r ''Authorization'') in
             if \<not> HasPrefix authz ''Bearer '' then (unauthorized ''missing bearer token'', s)
             else
               (let tokenString = TrimSpace (TrimPrefix authz ''Bearer '') in
                if tokenString = '''' then (unauthorized ''empty bearer token'', s)
                else
                  (case ParseAndValidateRS256 jwt tokenString pub of
                     Inl err \<Rightarrow> (unauthorized ''invalid token'', s)
                   | Inr claims \<Rightarrow> serve rt (with_tenant r (ClaimsTenantID claims)) s))))"

section \<open>Idempotency\<close>

definition IdempotencyHeaderKey :: string where
  [simp]: "IdempotencyHeaderKey = ''Idempotency-Key''"

definition lookup_failed_text :: string where
  \<open>lookup_failed_text = ''{"error":"idempotency_lookup_failed"}''\<close>

definition day :: time where
  "day = 24 * 60 * 60 * 1000000000"

text \<open>The key under which a request's response is cached: tenant, endpoint and key digest.\<close>

definition idem_endpoint :: "Request \<Rightarrow> string" where
  "idem_endpoint r = (let endpoint = TrimSpace (ReqPath r) in if endpoint = '''' then ''/'' else endpoint)"

definition idem_key :: "Request \<Rightarrow> string" where
  "idem_key r = TrimSpace (HeaderGet r IdempotencyHeaderKey)"

definition sha256Hex :: "string \<Rightarrow> string" where
  "sha256Hex s = sha256_hex s"

text \<open>Before the wrapped handler runs, the body is read to its end and replaced by what arrived;
  the error of that read is dropped.\<close>

definition Idempotency_ServeHTTP :: "('s, body) Store option \<Rightarrow> 's handler option \<Rightarrow> 's handler" where
  "Idempotency_ServeHTTP st nxt rt r s =
     (case (nxt, st) of
        (Some serve, Some store) \<Rightarrow>
          if Method r \<notin> {''POST'', ''PUT'', ''PATCH'', ''DELETE''} then serve rt r s
          else if idem_key r = '''' then serve rt r s
          else
            (let endpoint = idem_endpoint r; tenantID = ctx_TenantID (ReqCtx r); keyHash = sha256Hex (idem_key r) in
             case GetIdempotency store (NowLookup rt) s tenantID endpoint keyHash of
               Inl err \<Rightarrow> (write_text 500 lookup_failed_text, s)
             | Inr (Some rec) \<Rightarrow>
                 (\<lparr>RespCode = (if StatusCode rec = 0 then 200 else StatusCode rec), RespHeader = json_header,
                   RespBody = BodyJSON rec\<rparr>, s)
             | Inr None \<Rightarrow>
                 (let (rr, s) = serve rt (r\<lparr>BodyErr := None\<rparr>) s;
                      status = (if RespCode rr = 0 then 200 else RespCode rr);
                      rec = \<lparr>StatusCode = status, BodyJSON = RespBody rr,
                             ExpiresAt = NowExpiry rt + day, IdemCreatedAt = NowCached rt\<rparr>
                  in (rr\<lparr>RespCode := status\<rparr>, snd (PutIdempotency store tenantID endpoint keyHash rec s))))
      | _ \<Rightarrow> (write_status 500, s))"

section \<open>The cache as the middleware sees it\<close>

definition cached_response :: "Response \<Rightarrow> time \<Rightarrow> time \<Rightarrow> body IdempotencyRecord" where
  "cached_response rr now expiry =
     \<lparr>StatusCode = RespCode rr, BodyJSON = RespBody rr, ExpiresAt = expiry + day, IdemCreatedAt = now\<rparr>"

definition keyed_write :: "Request \<Rightarrow> bool" where
  "keyed_write r \<longleftrightarrow> Method r \<in> {''POST'', ''PUT'', ''PATCH'', ''DELETE''} \<and> idem_key r \<noteq> ''''"

definition same_key :: "Request \<Rightarrow> Request \<Rightarrow> bool" where
  "same_key r r' \<longleftrightarrow> ctx_TenantID (ReqCtx r) = ctx_TenantID (ReqCtx r') \<and> idem_endpoint r = idem_endpoint r' \<and>
     idem_key r = idem_key r'"

lemma Idempotency_miss:
  assumes "keyed_write r"
    "GetIdempotency store (NowLookup rt) s (ctx_TenantID (ReqCtx r)) (idem_endpoint r) (sha256Hex (idem_key r)) = Inr None"
    "serve rt (r\<lparr>BodyErr := None\<rparr>) s = (rr, s1)" "RespCode rr \<noteq> 0"
  shows "Idempotency_ServeHTTP (Some store) (Some serve) rt r s =
    (rr, snd (PutIdempotency store (ctx_TenantID (ReqCtx r)) (idem_endpoint r) (sha256Hex (idem_key r))
           (cached_response rr (NowCached rt) (NowExpiry rt)) s1))"
  using assms by (auto simp: Idempotency_ServeHTTP_def keyed_write_def Let_def cached_response_def)

lemma Idempotency_hit:
  assumes "keyed_write r"
    "GetIdempotency store (NowLookup rt) s (ctx_TenantID (ReqCtx r)) (idem_endpoint r) (sha256Hex (idem_key r)) = Inr (Some rec)"
    "StatusCode rec \<noteq> 0"
  shows "Idempotency_ServeHTTP (Some store) (Some serve) rt r s =
    (\<lparr>RespCode = StatusCode rec, RespHeader = json_header, RespBody = BodyJSON rec\<rparr>, s)"
  using assms by (auto simp: Idempotency_ServeHTTP_def keyed_write_def Let_def)

text \<open>The cache of responses, and what a client of it can rely on.\<close>

locale response_cache = idempotency_cache get put inv
  for get :: "time \<Rightarrow> 's \<Rightarrow> uint64 \<Rightarrow> string \<Rightarrow> string \<Rightarrow> body IdempotencyRecord option res"
    and put :: "uint64 \<Rightarrow> string \<Rightarrow> string \<Rightarrow> body IdempotencyRecord \<Rightarrow> 's \<Rightarrow> go_error option \<times> 's"
    and inv :: "'s \<Rightarrow> bool"
begin

lemma replay:
  assumes "GetIdempotency store = get" "PutIdempotency store = put" "inv s1" "keyed_write r" "keyed_write r'" "same_key r r'"
    "RespCode rr \<noteq> 0" "NowLookup rt' \<le> NowExpiry rt + day"
    "s2 = snd (put (ctx_TenantID (ReqCtx r)) (idem_endpoint r) (sha256Hex (idem_key r))
             (cached_response rr (NowCached rt) (NowExpiry rt)) s1)"
  shows "Idempotency_ServeHTTP (Some store) (Some serve) rt' r' s2 =
    (\<lparr>RespCode = RespCode rr, RespHeader = json_header, RespBody = RespBody rr\<rparr>, s2)"
proof -
  have "get (NowLookup rt') s2 (ctx_TenantID (ReqCtx r')) (idem_endpoint r') (sha256Hex (idem_key r')) =
      Inr (Some (cached_response rr (NowCached rt) (NowExpiry rt)))"
    using assms(6,8) unfolding assms(9)
    by (simp add: iget_put [OF assms(3)] same_key_def cached_response_def)
  then show ?thesis
    using Idempotency_hit [OF assms(5), of store rt' s2 "cached_response rr (NowCached rt) (NowExpiry rt)" serve] assms(1,7)
    by (simp add: cached_response_def)
qed

end

interpretation mem_responses: response_cache mem_GetIdempotency mem_PutIdempotency wf_store
  by unfold_locales

section \<open>Samples\<close>

definition keyed_request :: "uint64 \<Rightarrow> Request" where
  "keyed_request t =
     \<lparr>Method = ''POST'', ReqPath = ''/x'', Query = [], Header = [(''Idempotency-Key'', ''abc'')],
      BodyBytes = '''', BodyErr = None, ReqCtx = WithTenantID Background t\<rparr>"

definition plain_runtime :: "time \<Rightarrow> Runtime" where
  "plain_runtime now =
     \<lparr>RandRead = Inr '''', NowLookup = now, NowRun = now, NowCached = now, NowExpiry = now,
      RngRuns = (\<lambda>xs. xs), RngProducts = (\<lambda>xs. xs), RngChannels = (\<lambda>_ xs. xs), EofWithData = True\<rparr>"

lemma plain_runtime_simps [simp]:
  "NowLookup (plain_runtime now) = now" "NowExpiry (plain_runtime now) = now" "NowCached (plain_runtime now) = now"
  by (simp_all add: plain_runtime_def)

lemma canonical_idem [simp]: "CanonicalHeaderKey ''Idempotency-Key'' = ''Idempotency-Key''"
  by (simp add: CanonicalHeaderKey_def char_to_upper_def char_to_lower_def)

lemma keyed_request_simps [simp]:
  "idem_key (keyed_request t) = ''abc''" "keyed_write (keyed_request t)" "idem_endpoint (keyed_request t) = ''/x''"
  "ReqCtx (keyed_request t) = WithTenantID Background t"
proof -
  show k: "idem_key (keyed_request t) = ''abc''"
    by (simp add: idem_key_def HeaderGet_def keyed_request_def TrimSpace_id)
  show "keyed_write (keyed_request t)" using k by (simp add: keyed_write_def keyed_request_def)
  show "idem_endpoint (keyed_request t) = ''/x''"
    by (simp add: idem_endpoint_def keyed_request_def TrimSpace_id)
qed (simp add: keyed_request_def)

section \<open>Properties\<close>

text \<open>(C9) Idempotent replay: a keyed write that was served and cached is answered from the cache for
  every later request of the same tenant, endpoint and key within a day of the first answer: the
  same status and body, the wrapped handler is not called and the store does not change.\<close>

theorem idempotent_replay:
  assumes "keyed_write r" "keyed_write r'" "same_key r r'"
    "mem_GetIdempotency (NowLookup rt) s (ctx_TenantID (ReqCtx r)) (idem_endpoint r) (sha256Hex (idem_key r)) = Inr None"
    "serve rt (r\<lparr>BodyErr := None\<rparr>) s = (rr, s1)" "RespCode rr \<noteq> 0" "wf_store s1"
    "NowLookup rt' \<le> NowExpiry rt + day"
  shows "\<exists>s2. Idempotency_ServeHTTP (Some memory_Store) (Some serve) rt r s = (rr, s2) \<and>
    (\<forall>serve'. Idempotency_ServeHTTP (Some memory_Store) (Some serve') rt' r' s2 =
       (\<lparr>RespCode = RespCode rr, RespHeader = json_header, RespBody = RespBody rr\<rparr>, s2))"
proof -
  define s2 where "s2 = snd (mem_PutIdempotency (ctx_TenantID (ReqCtx r)) (idem_endpoint r) (sha256Hex (idem_key r))
           (cached_response rr (NowCached rt) (NowExpiry rt)) s1)"
  have "Idempotency_ServeHTTP (Some memory_Store) (Some serve) rt r s = (rr, s2)"
    unfolding s2_def using Idempotency_miss [OF assms(1), of memory_Store rt s serve rr s1] assms(4-6) by simp
  moreover have "Idempotency_ServeHTTP (Some memory_Store) (Some serve') rt' r' s2 =
       (\<lparr>RespCode = RespCode rr, RespHeader = json_header, RespBody = RespBody rr\<rparr>, s2)" for serve'
    using mem_responses.replay [OF _ _ assms(7,1,2,3,6,8) s2_def, of memory_Store serve'] by simp
  ultimately show ?thesis by blast
qed

theorem idempotent_replay_witness:
  "\<exists>s2. Idempotency_ServeHTTP (Some memory_Store) (Some (\<lambda>rt r s. (write_status 201, s))) (plain_runtime 5) (keyed_request 7) NewMemoryStore
      = (write_status 201, s2) \<and>
     (\<forall>serve'. Idempotency_ServeHTTP (Some memory_Store) (Some serve') (plain_runtime 6) (keyed_request 7) s2 =
       (\<lparr>RespCode = 201, RespHeader = json_header, RespBody = EmptyBody\<rparr>, s2))"
  using idempotent_replay [of "keyed_request 7" "keyed_request 7" "plain_runtime 5" NewMemoryStore
      "\<lambda>rt r s. (write_status 201, s)" "write_status 201" NewMemoryStore "plain_runtime 6"]
  by (simp add: same_key_def mem_GetIdempotency_def NewMemoryStore_def day_def) (simp add: NewMemoryStore_def [symmetric])

text \<open>Cached responses never cross tenants, endpoints or keys: a request that differs from the
  cached one in any of the three, and has nothing cached itself, is served by its handler, in
  the state that the first request left.\<close>

theorem idempotency_scoped:
  assumes "keyed_write r" "keyed_write r'"
    "ctx_TenantID (ReqCtx r') \<noteq> ctx_TenantID (ReqCtx r) \<or> idem_endpoint r' \<noteq> idem_endpoint r \<or>
       sha256Hex (idem_key r') \<noteq> sha256Hex (idem_key r)"
    "mem_GetIdempotency (NowLookup rt) s (ctx_TenantID (ReqCtx r)) (idem_endpoint r) (sha256Hex (idem_key r)) = Inr None"
    "serve rt (r\<lparr>BodyErr := None\<rparr>) s = (rr, s1)" "RespCode rr \<noteq> 0" "wf_store s1"
    "mem_GetIdempotency (NowLookup rt') s1 (ctx_TenantID (ReqCtx r')) (idem_endpoint r') (sha256Hex (idem_key r')) = Inr None"
    "Idempotency_ServeHTTP (Some memory_Store) (Some serve) rt r s = (resp, s2)"
    "serve' rt' (r'\<lparr>BodyErr := None\<rparr>) s2 = (rr', s3)" "RespCode rr' \<noteq> 0"
  shows "fst (Idempotency_ServeHTTP (Some memory_Store) (Some serve') rt' r' s2) = rr'"
proof -
  have s2: "s2 = snd (mem_PutIdempotency (ctx_TenantID (ReqCtx r)) (idem_endpoint r) (sha256Hex (idem_key r))
           (cached_response rr (NowCached rt) (NowExpiry rt)) s1)"
    using Idempotency_miss [OF assms(1), of memory_Store rt s serve rr s1] assms(4-6,9) by simp
  have "mem_GetIdempotency (NowLookup rt') s2 (ctx_TenantID (ReqCtx r')) (idem_endpoint r') (sha256Hex (idem_key r')) = Inr None"
    using assms(3,8) unfolding s2 by (auto simp: mem_idem.iget_put [OF assms(7)])
  then show ?thesis
    using Idempotency_miss [OF assms(2), of memory_Store rt' s2 serve' rr' s3] assms(10,11) by simp
qed

theorem idempotency_scoped_witness:
  "\<exists>resp s2. Idempotency_ServeHTTP (Some memory_Store) (Some (\<lambda>rt r s. (write_status 201, s))) (plain_runtime 5) (keyed_request 7) NewMemoryStore
      = (resp, s2) \<and>
     fst (Idempotency_ServeHTTP (Some memory_Store) (Some (\<lambda>rt r s. (write_status 409, s))) (plain_runtime 6) (keyed_request 8) s2) = write_status 409"
proof -
  let ?serve = "\<lambda>rt r s. (write_status 201, s)" and ?serve' = "\<lambda>rt r s. (write_status 409, s)"
  obtain resp s2 where one: "Idempotency_ServeHTTP (Some memory_Store) (Some ?serve) (plain_runtime 5) (keyed_request 7) NewMemoryStore = (resp, s2)"
    by (cases "Idempotency_ServeHTTP (Some memory_Store) (Some ?serve) (plain_runtime 5) (keyed_request 7) NewMemoryStore")
  have none: "mem_GetIdempotency now NewMemoryStore t e k = Inr None" for now t e k
    by (simp add: mem_GetIdempotency_def NewMemoryStore_def)
  have ne: "ctx_TenantID (ReqCtx (keyed_request 8)) \<noteq> ctx_TenantID (ReqCtx (keyed_request 7))"
    by (simp add: ctx_TenantID_With)
  show ?thesis
    using one idempotency_scoped [OF keyed_request_simps(2,2) disjI1 [OF ne] none _ _ _ none one,
        where rr = "write_status 201" and serve' = ?serve' and rr' = "write_status 409" and rt' = "plain_runtime 6"]
    by auto
qed

text \<open>(C34) A keyed write hides a broken body: with an idempotency key the request is served exactly as
  if its body had arrived whole, whatever error ended it.\<close>

theorem idempotency_drops_read_error:
  assumes "keyed_write r"
  shows "Idempotency_ServeHTTP (Some store) (Some serve) rt (r\<lparr>BodyErr := e\<rparr>) s =
    Idempotency_ServeHTTP (Some store) (Some serve) rt (r\<lparr>BodyErr := None\<rparr>) s"
proof -
  have eqs: "idem_key (r\<lparr>BodyErr := e\<rparr>) = idem_key r" "idem_endpoint (r\<lparr>BodyErr := e\<rparr>) = idem_endpoint r"
    "Method (r\<lparr>BodyErr := e\<rparr>) = Method r" "ReqCtx (r\<lparr>BodyErr := e\<rparr>) = ReqCtx r"
    "(r\<lparr>BodyErr := e\<rparr>)\<lparr>BodyErr := None\<rparr> = r\<lparr>BodyErr := None\<rparr>" for e
    by (simp_all add: idem_key_def idem_endpoint_def HeaderGet_def)
  have "Method r \<in> {''POST'', ''PUT'', ''PATCH'', ''DELETE''}" "idem_key r \<noteq> ''''"
    using assms by (simp_all add: keyed_write_def)
  then show ?thesis
    unfolding Idempotency_ServeHTTP_def prod.case option.case eqs by (simp only: if_True if_False not_True_eq_False)
qed

theorem idempotency_drops_read_error_witness:
  "Idempotency_ServeHTTP (Some memory_Store) (Some (\<lambda>rt r s. (write_status (if BodyErr r = None then 200 else 400), s)))
     (plain_runtime 5) ((keyed_request 7)\<lparr>BodyErr := Some ''unexpected EOF''\<rparr>) NewMemoryStore =
   Idempotency_ServeHTTP (Some memory_Store) (Some (\<lambda>rt r s. (write_status (if BodyErr r = None then 200 else 400), s)))
     (plain_runtime 5) ((keyed_request 7)\<lparr>BodyErr := None\<rparr>) NewMemoryStore"
  by (rule idempotency_drops_read_error) (rule keyed_request_simps(2))

text \<open>A request carries a token that the server accepts: the \<open>Authorization\<close> header is the word
  \<open>Bearer\<close>, a space and a token, and the JWT library, told to take RS256 only, with the configured key
  and a leeway of 30 seconds, finds the token valid and issued for a tenant.\<close>

definition accepts_token :: "'k jwt_parser \<Rightarrow> 'k option \<Rightarrow> Request \<Rightarrow> Claims \<Rightarrow> bool" where
  "accepts_token jwt pub r claims \<longleftrightarrow>
     (\<exists>key rest. pub = Some key \<and> TrimSpace (HeaderGet r ''Authorization'') = ''Bearer '' @ rest \<and> TrimSpace rest \<noteq> '''' \<and>
        jwt [''RS256''] (30 * 1000000000) (TrimSpace rest)
          (\<lambda>alg. if alg \<noteq> ''RS256'' then Inl (''unexpected alg: '' @ alg) else Inr key) = Inr (claims, True) \<and>
        ClaimsTenantID claims \<noteq> 0)"

lemma ParseAndValidateRS256_iff:
  "ParseAndValidateRS256 jwt tok pub = Inr claims \<longleftrightarrow>
     (\<exists>key. pub = Some key \<and>
        jwt [''RS256''] (30 * 1000000000) tok
          (\<lambda>alg. if alg \<noteq> ''RS256'' then Inl (''unexpected alg: '' @ alg) else Inr key) = Inr (claims, True) \<and>
        ClaimsTenantID claims \<noteq> 0)"
  by (cases pub) (auto simp: ParseAndValidateRS256_def split: sum.split prod.split)

lemma accepts_token_eq:
  "accepts_token jwt pub r claims \<longleftrightarrow>
     (\<exists>rest. TrimSpace (HeaderGet r ''Authorization'') = ''Bearer '' @ rest \<and> TrimSpace rest \<noteq> '''' \<and>
        ParseAndValidateRS256 jwt (TrimSpace rest) pub = Inr claims)"
  unfolding accepts_token_def ParseAndValidateRS256_iff by blast

lemma Auth_bearer:
  assumes "\<not> is_dev env" "TrimSpace (HeaderGet r ''Authorization'') = ''Bearer '' @ rest"
  shows "Auth_ServeHTTP jwt env pub (Some serve) rt r s =
    (if TrimSpace rest = '''' then (unauthorized ''empty bearer token'', s)
     else case ParseAndValidateRS256 jwt (TrimSpace rest) pub of
       Inl err \<Rightarrow> (unauthorized ''invalid token'', s)
     | Inr claims \<Rightarrow> serve rt (with_tenant r (ClaimsTenantID claims)) s)"
  using assms by (simp add: Auth_ServeHTTP_def Let_def HasPrefix_def TrimPrefix_def)

text \<open>(C12) Authentication guards everything outside dev: a request is served exactly when it carries a
  bearer token that the JWT library accepts for the configured key, with a tenant other than 0, and
  then with the tenant of its token; every other request is answered 401 and changes nothing.\<close>

theorem auth_guards:
  assumes "\<not> is_dev env"
  shows "(\<forall>claims. accepts_token jwt pub r claims \<longrightarrow>
       Auth_ServeHTTP jwt env pub (Some serve) rt r s = serve rt (with_tenant r (ClaimsTenantID claims)) s \<and>
       ctx_TenantID (ReqCtx (with_tenant r (ClaimsTenantID claims))) = ClaimsTenantID claims) \<and>
    ((\<nexists>claims. accepts_token jwt pub r claims) \<longrightarrow>
       (\<exists>message. Auth_ServeHTTP jwt env pub (Some serve) rt r s = (unauthorized message, s)))"
proof (intro conjI allI impI)
  fix claims
  assume "accepts_token jwt pub r claims"
  then obtain rest where rest: "TrimSpace (HeaderGet r ''Authorization'') = ''Bearer '' @ rest" "TrimSpace rest \<noteq> ''''"
    "ParseAndValidateRS256 jwt (TrimSpace rest) pub = Inr claims"
    unfolding accepts_token_eq by (elim exE conjE)
  then show "Auth_ServeHTTP jwt env pub (Some serve) rt r s = serve rt (with_tenant r (ClaimsTenantID claims)) s"
    by (simp add: Auth_bearer [OF assms rest(1)])
  have "ClaimsTenantID claims \<noteq> 0" using rest(3) unfolding ParseAndValidateRS256_iff by (elim exE conjE)
  then show "ctx_TenantID (ReqCtx (with_tenant r (ClaimsTenantID claims))) = ClaimsTenantID claims"
    by (simp add: with_tenant_def ctx_TenantID_With)
next
  assume no: "\<nexists>claims. accepts_token jwt pub r claims"
  show "\<exists>message. Auth_ServeHTTP jwt env pub (Some serve) rt r s = (unauthorized message, s)"
  proof (cases "\<exists>rest. TrimSpace (HeaderGet r ''Authorization'') = ''Bearer '' @ rest")
    case True
    then obtain rest where rest: "TrimSpace (HeaderGet r ''Authorization'') = ''Bearer '' @ rest" ..
    show ?thesis
    proof (cases "ParseAndValidateRS256 jwt (TrimSpace rest) pub")
      case (Inl e)
      then show ?thesis unfolding Auth_bearer [OF assms rest] by (cases "TrimSpace rest = ''''") (simp_all, blast+)
    next
      case (Inr claims)
      then have "accepts_token jwt pub r claims" if "TrimSpace rest \<noteq> ''''"
        unfolding accepts_token_eq using rest that by (intro exI [of _ rest] conjI)
      then have "TrimSpace rest = ''''" using no by blast
      then show ?thesis unfolding Auth_bearer [OF assms rest] by (intro exI [of _ "''empty bearer token''"]) simp
    qed
  next
    case False
    then have "\<not> HasPrefix (TrimSpace (HeaderGet r ''Authorization'')) ''Bearer ''"
      unfolding HasPrefix_def prefix_def .
    then show ?thesis using assms by (intro exI [of _ "''missing bearer token''"]) (simp add: Auth_ServeHTTP_def Let_def)
  qed
qed

text \<open>With a library that takes the token \<open>t42\<close> and a handler that counts its calls: the header
  \<open>Bearer t42\<close> is served, the header \<open>t42\<close> is not.\<close>

theorem auth_guards_witness:
  "(let jwt = (\<lambda>algs leeway tok keyfn. if tok = ''t42'' then Inr (\<lparr>ClaimsTenantID = 42\<rparr>, True) else Inl ''bad'');
       serve = (\<lambda>rt r s. (write_status 200, Suc s));
       good = (keyed_request 7)\<lparr>Header := [(''Authorization'', ''Bearer t42'')]\<rparr>;
       bad = (keyed_request 7)\<lparr>Header := [(''Authorization'', ''t42'')]\<rparr> in
   Auth_ServeHTTP jwt ''prod'' (Some ()) (Some serve) (plain_runtime 5) good 0 = (write_status 200, 1) \<and>
   (\<exists>message. Auth_ServeHTTP jwt ''prod'' (Some ()) (Some serve) (plain_runtime 5) bad 0 = (unauthorized message, 0)))"
proof -
  let ?jwt = "\<lambda>algs leeway tok keyfn. if tok = ''t42'' then Inr (\<lparr>ClaimsTenantID = 42\<rparr>, True) else Inl ''bad''"
  have env: "\<not> is_dev ''prod''" by (simp add: is_dev_def TrimSpace_id EqualFold_ascii char_to_lower_def)
  have "CanonicalHeaderKey ''Authorization'' = ''Authorization''"
    by (simp add: CanonicalHeaderKey_def char_to_upper_def char_to_lower_def)
  then have h: "TrimSpace (HeaderGet ((keyed_request 7)\<lparr>Header := [(''Authorization'', v)]\<rparr>) ''Authorization'') = TrimSpace v" for v
    by (simp add: HeaderGet_def)
  have "accepts_token ?jwt (Some ()) ((keyed_request 7)\<lparr>Header := [(''Authorization'', ''Bearer t42'')]\<rparr>) \<lparr>ClaimsTenantID = 42\<rparr>"
    unfolding accepts_token_def h by (simp add: TrimSpace_id)
  moreover have "\<nexists>claims. accepts_token ?jwt (Some ()) ((keyed_request 7)\<lparr>Header := [(''Authorization'', ''t42'')]\<rparr>) claims"
    unfolding accepts_token_def h by (simp add: TrimSpace_id)
  ultimately show ?thesis
    using auth_guards [OF env, of ?jwt "Some ()" "(keyed_request 7)\<lparr>Header := [(''Authorization'', ''Bearer t42'')]\<rparr>"
        "\<lambda>rt r s. (write_status 200, Suc s)" "plain_runtime 5" 0]
      auth_guards [OF env, of ?jwt "Some ()" "(keyed_request 7)\<lparr>Header := [(''Authorization'', ''t42'')]\<rparr>"
        "\<lambda>rt r s. (write_status 200, Suc s)" "plain_runtime 5" 0]
    by (simp add: Let_def)
qed

end
