(* ===== verification/Server.thy ===== *)
theory Server
  imports Bulk Middleware
begin

text \<open>
  \<open>cmd/api/main.go\<close>: the routes of the API and the order of its middleware, and the properties of
  the read endpoints. The multiplexer selects a registered pattern for a clean path; what it
  answers itself otherwise (404, or a redirect to the cleaned path) is a parameter.
\<close>

section \<open>Routes\<close>

fun split_slash :: "string \<Rightarrow> string list" where
  "split_slash [] = [[]]"
| "split_slash (c # cs) =
     (if c = CHR ''/'' then [] # split_slash cs
      else case split_slash cs of [] \<Rightarrow> [[c]] | seg # segs \<Rightarrow> (c # seg) # segs)"

definition clean_path :: "string \<Rightarrow> bool" where
  "clean_path p \<longleftrightarrow>
     (case split_slash p of
        [] # segs \<Rightarrow> segs \<noteq> [] \<and> [] \<notin> set (butlast segs) \<and> ''.'' \<notin> set segs \<and> ''..'' \<notin> set segs
      | _ \<Rightarrow> False)"

text \<open>\<open>/healthz\<close>: \<open>ping\<close> is the database's answer, \<open>None\<close> when there is no database.\<close>

definition healthz :: "string \<Rightarrow> go_error option option \<Rightarrow> Response" where
  "healthz backend ping =
     (case ping of
        None \<Rightarrow> writeJSON 200 (PMap [(''ok'', ABool True), (''backend'', AStr backend)])
      | Some (Some err) \<Rightarrow>
          writeJSON 503 (PMap [(''ok'', ABool False), (''backend'', AStr backend), (''db_ok'', ABool False),
            (''error'', AStr err)])
      | Some None \<Rightarrow>
          writeJSON 200 (PMap [(''ok'', ABool True), (''backend'', AStr backend), (''db_ok'', ABool True)]))"

record ('s, 'k) ApiConfig =
  Env :: string
  Backend :: string
  Ping :: "Runtime \<Rightarrow> go_error option option"
  PublicKey :: "'k option"
  ApiStore :: "('s, body) Store"
  Gunzip :: gunzip
  Jwt :: "'k jwt_parser"
  MuxOther :: "Request \<Rightarrow> Response"

definition api_mux :: "('s, 'k) ApiConfig \<Rightarrow> 's handler" where
  "api_mux cfg rt r s =
     (let h = \<lparr>HandlerStore = Some (ApiStore cfg), EnabledChannels = [''google'']\<rparr>; p = ReqPath r in
      if p = ''/healthz'' then (healthz (Backend cfg) (Ping cfg rt), s)
      else if p = ''/v1/debug/products:upsert'' then
        Idempotency_ServeHTTP (Some (ApiStore cfg)) (Some (DebugUpsert_ServeHTTP h)) rt r s
      else if p = ''/v1/debug/products:upsert-bulk'' then
        Idempotency_ServeHTTP (Some (ApiStore cfg)) (Some (DebugBulkUpsert_ServeHTTP (Gunzip cfg) h)) rt r s
      else if p = ''/v1/debug/runs'' then DebugRuns_ServeHTTP (ApiStore cfg) rt r s
      else if HasPrefix p ''/v1/debug/runs/'' \<and> clean_path p then DebugRunDetail_ServeHTTP (ApiStore cfg) rt r s
      else (MuxOther cfg r, s))"

text \<open>The chain as the server builds it: authentication outside the tenant middleware.\<close>

definition api_root :: "('s, 'k) ApiConfig \<Rightarrow> 's handler" where
  "api_root cfg =
     Auth_ServeHTTP (Jwt cfg) (Env cfg) (PublicKey cfg) (Some (Tenant_ServeHTTP (Env cfg) (Some (api_mux cfg))))"

section \<open>What a request can write\<close>

text \<open>What a recorded run says of its products: the counters count their dispositions, a push was
  triggered exactly when something is enqueued, the status is one that such a run can be in, and
  every result is well-formed.\<close>

definition summarises :: "RunRecord \<Rightarrow> ProductProcessResult list \<Rightarrow> bool" where
  "summarises run ps \<longleftrightarrow>
     RunReceived run = length ps \<and>
     RunRejected run = with_disp ProductDispositionRejected ps \<and>
     RunUnchanged run = with_disp ProductDispositionUnchanged ps \<and>
     RunEnqueued run = with_disp ProductDispositionEnqueued ps \<and>
     RunValid run = RunUnchanged run + RunEnqueued run \<and>
     PushTriggered run = (RunEnqueued run > 0) \<and>
     Status run \<in> (if RunEnqueued run > 0 then {''has_changes'', ''processing'', ''completed'', ''failed''}
                   else if RunRejected run > 0 then {''completed''} else {''no_change_detected''}) \<and>
     (\<forall>pr \<in> set ps. well_formed_result pr)"

lemma summarises_run_record:
  assumes "summary_ok out" "Received (Summary out) = length (OutProducts out)" "\<forall>pr \<in> set (OutProducts out). well_formed_result pr"
  shows "summarises (run_record i t w out now) (OutProducts out)"
  using assms by (simp add: summarises_def summary_ok_def run_record_def run_status_def)

lemma with_disp_total:
  assumes "\<forall>pr \<in> set ps. well_formed_result pr"
  shows "length ps = with_disp ProductDispositionUnchanged ps + with_disp ProductDispositionEnqueued ps +
    with_disp ProductDispositionRejected ps"
proof -
  have "\<forall>pr \<in> set ps. ResDisposition pr \<in> {ProductDispositionUnchanged, ProductDispositionEnqueued, ProductDispositionRejected}"
    using assms by (auto simp: well_formed_result_def split: if_splits)
  then show ?thesis by (induction ps) (auto simp: with_disp_def)
qed

text \<open>The results that are not rejected have their keys among the digests written.\<close>

definition stored_in :: "(string \<times> string) list \<Rightarrow> ProductProcessResult list \<Rightarrow> bool" where
  "stored_in khs prs \<longleftrightarrow>
     (\<forall>pr \<in> set prs. ResDisposition pr \<noteq> ProductDispositionRejected \<longrightarrow> ResProductKey pr \<in> fst ` set khs)"

text \<open>The states a request of tenant \<open>t\<close> can lead to over the memory store, the cache aside: some
  digests of the tenant were written and possibly one run of the tenant was recorded under the
  identifier that was drawn, with its products, the digests of which were all written.\<close>

definition api_writes :: "uint64 \<Rightarrow> Runtime \<Rightarrow> 'b MemoryStore \<Rightarrow> 'b MemoryStore \<Rightarrow> bool" where
  "api_writes t rt s s' \<longleftrightarrow>
     (\<exists>khs. s' = mem_puts t khs s \<or>
       (\<exists>run ps. s' = record_run run ps (mem_puts t khs s) \<and> TenantID run = t \<and> NewRunID rt = Inr (RunID run) \<and>
          summarises run ps \<and> stored_in khs ps))"

lemma api_writes_refl [simp]: "api_writes t rt s s"
  unfolding api_writes_def by (rule exI [of _ "[]"]) (simp add: mem_puts_def)

lemma api_writes_finish:
  assumes "NewRunID rt = Inr i" "summary_ok out" "Received (Summary out) = length (OutProducts out)"
    "\<forall>pr \<in> set (OutProducts out). well_formed_result pr" "stored_in khs (OutProducts out)"
  shows "api_writes t rt s (snd (finish_run memory_Store i t w out now (mem_puts t khs s)))"
  unfolding api_writes_def finish_run_mem snd_conv
  using assms(1,5) summarises_run_record [OF assms(2-4)]
  by (intro exI [of _ khs] disjI2 exI [of _ "run_record i t w out now"] exI [of _ "OutProducts out"])
    (simp add: run_record_def)

lemma stored_in_hash_writes:
  assumes "\<forall>pr \<in> set prs. well_formed_result pr"
  shows "stored_in (hash_writes prs) prs"
  unfolding stored_in_def
proof (intro ballI impI)
  fix pr
  assume pr: "pr \<in> set prs" "ResDisposition pr \<noteq> ProductDispositionRejected"
  then have "well_formed_result pr" using assms by blast
  then have "persisted pr" using pr(2) by (auto simp: persisted_def well_formed_result_def)
  with pr(1) show "ResProductKey pr \<in> fst ` set (hash_writes prs)" by (auto simp: hash_writes_def image_image)
qed

lemma DebugUpsert_writes:
  assumes "wf_store s" "HandlerStore h = Some memory_Store"
  shows "api_writes (ctx_TenantID (ReqCtx r)) rt s (snd (DebugUpsert_ServeHTTP h rt r s))"
proof -
  let ?t = "ctx_TenantID (ReqCtx r)"
  have fin: "api_writes ?t rt s (snd (finish_run memory_Store i ?t w out now (mem_puts ?t (hash_writes (OutProducts out)) s)))"
    if "NewRunID rt = Inr i" "ProcessProducts rng ps en lk = Inr out" for i w now rng ps en lk out
    using that(1) ProcessProducts_summary_ok [OF that(2)] ProcessProducts_well_formed [OF that(2)]
      stored_in_hash_writes by (intro api_writes_finish)
  show ?thesis
    using assms by (auto simp: DebugUpsert_ServeHTTP_def Let_def persist_products_mem intro: fin split: sum.split option.split)
qed

lemma mem_puts_Cons: "mem_puts t ((k, h) # khs) s = mem_puts t khs (snd (mem_UpsertProductHash t k h s))"
  by (simp add: mem_puts_def)

lemma well_formed_invalid_line [simp]: "well_formed_result (invalid_line err)"
  by (simp add: well_formed_result_def invalid_line_def rejected_result_def)

text \<open>A step of the loop in the memory store.\<close>

lemma bulk_loop_mem_step:
  assumes "TrimSpace l \<noteq> []" "ParseProductObjectAllowUnknown (TrimSpace l) = Inr (p, u)"
    "ProcessProduct (rng i) p en (Some (mem_GetProductHash s t)) = Inr (x, v)"
  shows "bulk_loop memory_Store t en rng i (l # ls) out unk s =
    bulk_loop memory_Store t en rng (Suc i) ls (count_result x v (receive_one out)) (unk \<union> u)
      (if v then snd (mem_UpsertProductHash t (ResProductKey x) (ResHash x) s) else s)"
proof -
  obtain s1 where "mem_UpsertProductHash t (ResProductKey x) (ResHash x) s = (None, s1)"
    by (simp add: mem_UpsertProductHash_def Let_def)
  moreover have "persisted x = v" using persisted_iff_valid [OF assms(3)] .
  ultimately show ?thesis
    using assms by (cases v) (auto simp: Let_def persisted_def)
qed

lemma bulk_loop_puts:
  "\<exists>khs. snd (bulk_loop memory_Store t en rng i ls out unk s) = mem_puts t khs s \<and>
    (\<forall>out' unk'. fst (bulk_loop memory_Store t en rng i ls out unk s) = Inr (out', unk') \<longrightarrow>
       (\<exists>xs. OutProducts out' = OutProducts out @ xs \<and> stored_in khs xs \<and> (\<forall>pr \<in> set xs. well_formed_result pr)))"
proof (induction ls arbitrary: i out unk s)
  case Nil
  show ?case by (rule exI [of _ "[]"]) (simp add: mem_puts_def stored_in_def)
next
  case (Cons l ls)
  show ?case
  proof (cases "TrimSpace l = []")
    case True
    then show ?thesis using Cons.IH by simp
  next
    case line: False
    show ?thesis
    proof (cases "ParseProductObjectAllowUnknown (TrimSpace l)")
      case (Inl e)
      let ?out = "count_result (invalid_line e) False (receive_one out)"
      obtain khs where khs: "snd (bulk_loop memory_Store t en rng i ls ?out unk s) = mem_puts t khs s"
        "\<forall>out' unk'. fst (bulk_loop memory_Store t en rng i ls ?out unk s) = Inr (out', unk') \<longrightarrow>
           (\<exists>xs. OutProducts out' = OutProducts ?out @ xs \<and> stored_in khs xs \<and> (\<forall>pr \<in> set xs. well_formed_result pr))"
        using Cons.IH by blast
      have "bulk_loop memory_Store t en rng i (l # ls) out unk s = bulk_loop memory_Store t en rng i ls ?out unk s"
        using Inl line by (simp add: Let_def)
      moreover have "stored_in khs (invalid_line e # xs)" if "stored_in khs xs" for xs
        using that by (simp add: stored_in_def invalid_line_def rejected_result_def)
      ultimately show ?thesis using khs by (intro exI [of _ khs]) fastforce
    next
      case (Inr pu)
      obtain p u where pu: "pu = (p, u)" by (cases pu)
      show ?thesis
      proof (cases "ProcessProduct (rng i) p en (Some (mem_GetProductHash s t))")
        case (Inl e)
        then show ?thesis
          using Inr pu line by (intro exI [of _ "[]"]) (simp add: Let_def mem_puts_def)
      next
        case rv: (Inr rv)
        obtain x v where x: "rv = (x, v)" by (cases rv)
        let ?out = "count_result x v (receive_one out)"
        define s1 where "s1 = (if v then snd (mem_UpsertProductHash t (ResProductKey x) (ResHash x) s) else s)"
        define new where "new = (if v then [(ResProductKey x, ResHash x)] else [])"
        have step: "bulk_loop memory_Store t en rng i (l # ls) out unk s = bulk_loop memory_Store t en rng (Suc i) ls ?out (unk \<union> u) s1"
          unfolding s1_def using line Inr pu rv x by (intro bulk_loop_mem_step) simp_all
        obtain khs where khs: "snd (bulk_loop memory_Store t en rng (Suc i) ls ?out (unk \<union> u) s1) = mem_puts t khs s1"
          "\<forall>out' unk'. fst (bulk_loop memory_Store t en rng (Suc i) ls ?out (unk \<union> u) s1) = Inr (out', unk') \<longrightarrow>
             (\<exists>xs. OutProducts out' = OutProducts ?out @ xs \<and> stored_in khs xs \<and> (\<forall>pr \<in> set xs. well_formed_result pr))"
          using Cons.IH by blast
        have wf: "well_formed_result x" "ResDisposition x \<noteq> ProductDispositionRejected \<longleftrightarrow> v"
          using ProcessProduct_well_formed ProcessProduct_disposition(3) rv x by blast+
        have "mem_puts t khs s1 = mem_puts t (new @ khs) s"
          by (simp add: s1_def new_def mem_puts_Cons)
        moreover have "stored_in (new @ khs) (x # xs)" if "stored_in khs xs" for xs
          using that wf(2) by (auto simp: stored_in_def new_def)
        ultimately show ?thesis
          unfolding step using khs wf(1) by (intro exI [of _ "new @ khs"]) fastforce
      qed
    qed
  qed
qed

lemma DebugBulk_writes:
  assumes "wf_store s" "HandlerStore h = Some memory_Store"
  shows "api_writes (ctx_TenantID (ReqCtx r)) rt s (snd (DebugBulkUpsert_ServeHTTP gz h rt r s))"
proof -
  let ?t = "ctx_TenantID (ReqCtx r)"
  let ?loop = "\<lambda>ls. bulk_loop memory_Store ?t (EnabledChannels h) (RngChannels rt) 0 ls (init_output 0) {} s"
  have puts: "api_writes ?t rt s s'" if "?loop ls = (res, s')" for ls res s'
    using bulk_loop_puts [of ?t "EnabledChannels h" "RngChannels rt" 0 ls "init_output 0" "{}" s] that
    by (auto simp: api_writes_def)
  have fin: "api_writes ?t rt s (snd (finish_run memory_Store i ?t w out now s'))"
    if l: "?loop ls = (Inr (out, unk), s')" and i: "NewRunID rt = Inr i" for ls out unk s' i w now
  proof -
    obtain khs where khs: "s' = mem_puts ?t khs s" "stored_in khs (OutProducts out)"
      "\<forall>pr \<in> set (OutProducts out). well_formed_result pr"
      using bulk_loop_puts [of ?t "EnabledChannels h" "RngChannels rt" 0 ls "init_output 0" "{}" s] l
      by (auto simp: init_output_def)
    have "summary_ok out" "Received (Summary out) = length (OutProducts out)"
      using bulk_loop_summary [OF l] by (simp_all add: init_output_def summary_ok_def with_disp_def)
    then show ?thesis unfolding khs(1) using i khs(2,3) by (intro api_writes_finish)
  qed
  show ?thesis
    using assms(2)
    by (auto simp: DebugBulkUpsert_ServeHTTP_def Let_def intro: puts fin split: sum.split option.split prod.split)
qed

text \<open>What a tenant can see of the store: its digests, its cached responses, its runs, and the products
  of the runs that are its own.\<close>

definition tenant_view ::
  "uint64 \<Rightarrow> 'b MemoryStore \<Rightarrow> (string \<Rightarrow> string option res) \<times> (time \<Rightarrow> string \<Rightarrow> string \<Rightarrow> 'b IdempotencyRecord option res)
     \<times> (string \<Rightarrow> RunRecord option res) \<times> (ProductProcessResult permuter \<Rightarrow> string \<Rightarrow> int \<Rightarrow> ProductProcessResult list res)" where
  "tenant_view t s =
     (mem_GetProductHash s t, (\<lambda>now. mem_GetIdempotency now s t), mem_GetRun s t,
      (\<lambda>rng i limit. if mem_GetRun s t i = Inr None then Inr [] else mem_ListRunProducts rng s i limit))"

lemma tenant_view_record_run:
  assumes "TenantID run \<noteq> t'" "map_of (runs s) (RunID run) = None"
  shows "tenant_view t' (record_run run ps s) = tenant_view t' s"
proof -
  have runs: "mem_GetRun (record_run run ps s) t' = mem_GetRun s t'"
    using assms by (auto simp: mem_GetRun_def fun_eq_iff)
  have "mem_ListRunProducts rng (record_run run ps s) i l = mem_ListRunProducts rng s i l"
    if "mem_GetRun s t' i \<noteq> Inr None" for rng i l
  proof -
    have "i \<noteq> RunID run" using that assms(2) by (auto simp: mem_GetRun_def)
    then show ?thesis by (simp add: mem_ListRunProducts_def)
  qed
  then show ?thesis
    by (auto simp: tenant_view_def runs mem_GetIdempotency_def fun_eq_iff)
qed

lemma api_writes_view:
  assumes "api_writes t rt s s'" "wf_store s" "t' \<noteq> t" "\<And>i. NewRunID rt = Inr i \<Longrightarrow> map_of (runs s) i = None"
  shows "tenant_view t' s' = tenant_view t' s"
proof -
  have puts: "tenant_view t' (mem_puts t khs s) = tenant_view t' s" for khs
    using assms(3)
    by (auto simp: tenant_view_def get_mem_puts [OF assms(2)] mem_GetIdempotency_def mem_GetRun_def mem_ListRunProducts_def fun_eq_iff)
  consider khs where "s' = mem_puts t khs s"
    | khs run ps where "s' = record_run run ps (mem_puts t khs s)" "TenantID run = t" "NewRunID rt = Inr (RunID run)"
    using assms(1) unfolding api_writes_def by blast
  then show ?thesis
  proof cases
    case 2
    then show ?thesis
      using assms(3,4) puts tenant_view_record_run [of run t' "mem_puts t khs s" ps] by simp
  qed (simp add: puts)
qed

text \<open>The records are consistent: every run has its products recorded, summarises them, and for every
  product that was not rejected the tenant of the run has a digest.\<close>

definition consistent :: "'b MemoryStore \<Rightarrow> bool" where
  "consistent s \<longleftrightarrow> wf_store s \<and>
     (\<forall>i run. map_of (runs s) i = Some run \<longrightarrow>
        (\<exists>ps. map_of (runProducts s) i = Some ps \<and> summarises run ps \<and>
           (\<forall>pr \<in> set ps. ResDisposition pr \<noteq> ProductDispositionRejected \<longrightarrow>
              (\<exists>h. mem_GetProductHash s (TenantID run) (ResProductKey pr) = Inr (Some h)))))"

lemma consistent_puts:
  assumes "consistent s"
  shows "consistent (mem_puts t khs s)"
proof -
  have wf: "wf_store s" using assms by (simp add: consistent_def)
  have "\<exists>h. mem_GetProductHash (mem_puts t khs s) t' k = Inr (Some h)" if "mem_GetProductHash s t' k = Inr (Some h)" for t' k h
    using that by (auto simp: get_mem_puts [OF wf] split: option.split)
  then show ?thesis
    using assms wf_mem_puts [OF wf, of t khs] unfolding consistent_def mem_puts_frame by meson
qed

lemma consistent_record_run:
  assumes "consistent s" "summarises run ps"
    "\<forall>pr \<in> set ps. ResDisposition pr \<noteq> ProductDispositionRejected \<longrightarrow>
       (\<exists>h. mem_GetProductHash s (TenantID run) (ResProductKey pr) = Inr (Some h))"
  shows "consistent (record_run run ps s)"
  unfolding consistent_def
proof (intro conjI allI impI)
  show "wf_store (record_run run ps s)" using assms(1) by (simp add: consistent_def wf_record_run)
  fix i q
  assume q: "map_of (runs (record_run run ps s)) i = Some q"
  show "\<exists>ps'. map_of (runProducts (record_run run ps s)) i = Some ps' \<and> summarises q ps' \<and>
      (\<forall>pr \<in> set ps'. ResDisposition pr \<noteq> ProductDispositionRejected \<longrightarrow>
         (\<exists>h. mem_GetProductHash (record_run run ps s) (TenantID q) (ResProductKey pr) = Inr (Some h)))"
  proof (cases "i = RunID run")
    case True
    with q have "q = run" by simp
    with True assms(2,3) show ?thesis by simp
  next
    case False
    with q assms(1) show ?thesis by (simp add: consistent_def)
  qed
qed

lemma consistent_writes:
  assumes "api_writes t rt s s'" "consistent s"
  shows "consistent s'"
proof -
  have wf: "wf_store s" using assms(2) by (simp add: consistent_def)
  have "consistent (record_run run ps (mem_puts t khs s))"
    if "TenantID run = t" "summarises run ps" "stored_in khs ps" for run ps khs
  proof (rule consistent_record_run [OF consistent_puts [OF assms(2)] that(2)], intro ballI impI)
    fix pr assume "pr \<in> set ps" "ResDisposition pr \<noteq> ProductDispositionRejected"
    then have "ResProductKey pr \<in> fst ` set (rev khs)" using that(3) by (simp add: stored_in_def)
    then obtain h where "map_of (rev khs) (ResProductKey pr) = Some h" by (metis map_of_eq_None_iff not_Some_eq)
    then show "\<exists>h. mem_GetProductHash (mem_puts t khs s) (TenantID run) (ResProductKey pr) = Inr (Some h)"
      using that(1) by (simp add: get_mem_puts [OF wf])
  qed
  then show ?thesis using assms consistent_puts by (auto simp: api_writes_def)
qed

lemma consistent_put_idem: "consistent s \<Longrightarrow> consistent (snd (mem_PutIdempotency t e k rec s))"
  using wf_store_PutIdempotency [of s t e k rec]
  by (simp add: consistent_def mem_PutIdempotency_def mem_GetProductHash_def Let_def)

lemma api_writes_wf: "api_writes t rt s s' \<Longrightarrow> wf_store s \<Longrightarrow> wf_store s'"
  by (auto simp: api_writes_def intro: inv_intros)

lemma put_idem_view:
  assumes "t' \<noteq> t" "wf_store s"
  shows "tenant_view t' (snd (mem_PutIdempotency t e k rec s)) = tenant_view t' s"
proof -
  have "mem_GetProductHash (snd (mem_PutIdempotency t e k rec s)) = mem_GetProductHash s"
    "mem_GetRun (snd (mem_PutIdempotency t e k rec s)) = mem_GetRun s"
    "mem_ListRunProducts rng (snd (mem_PutIdempotency t e k rec s)) = mem_ListRunProducts rng s" for rng
    by (simp_all add: mem_GetProductHash_def mem_GetRun_def mem_ListRunProducts_def mem_PutIdempotency_def Let_def fun_eq_iff)
  then show ?thesis using assms by (simp add: tenant_view_def mem_idem.iget_put fun_eq_iff)
qed

text \<open>The idempotency middleware around a handler that writes for the request's tenant only.\<close>

lemma Idempotency_writes:
  assumes "wf_store s" "\<And>r'. ReqCtx r' = ReqCtx r \<Longrightarrow> api_writes (ctx_TenantID (ReqCtx r)) rt s (snd (serve rt r' s))"
  shows "(consistent s \<longrightarrow> consistent (snd (Idempotency_ServeHTTP (Some memory_Store) (Some serve) rt r s))) \<and>
    (\<forall>t'. t' \<noteq> ctx_TenantID (ReqCtx r) \<longrightarrow> (\<forall>i. NewRunID rt = Inr i \<longrightarrow> map_of (runs s) i = None) \<longrightarrow>
       tenant_view t' (snd (Idempotency_ServeHTTP (Some memory_Store) (Some serve) rt r s)) = tenant_view t' s)"
proof -
  let ?t = "ctx_TenantID (ReqCtx r)"
  have w1: "api_writes ?t rt s (snd (serve rt r s))" and w2: "api_writes ?t rt s (snd (serve rt (r\<lparr>BodyErr := None\<rparr>) s))"
    using assms(2) by simp_all
  note wf = api_writes_wf [OF w2 assms(1)]
  have "snd (Idempotency_ServeHTTP (Some memory_Store) (Some serve) rt r s) \<in>
      {s, snd (serve rt r s)} \<union> {snd (mem_PutIdempotency ?t e k rec (snd (serve rt (r\<lparr>BodyErr := None\<rparr>) s))) | e k rec. True}"
    by (auto simp: Idempotency_ServeHTTP_def Let_def split: sum.split option.split prod.split)
  then consider "snd (Idempotency_ServeHTTP (Some memory_Store) (Some serve) rt r s) = s"
    | "snd (Idempotency_ServeHTTP (Some memory_Store) (Some serve) rt r s) = snd (serve rt r s)"
    | e k rec where "snd (Idempotency_ServeHTTP (Some memory_Store) (Some serve) rt r s) =
        snd (mem_PutIdempotency ?t e k rec (snd (serve rt (r\<lparr>BodyErr := None\<rparr>) s)))" by blast
  then show ?thesis
  proof cases
    case 1
    then show ?thesis using assms(1) by simp
  next
    case 2
    then show ?thesis using consistent_writes [OF w1] api_writes_view [OF w1 assms(1)] by simp
  next
    case (3 e k rec)
    then show ?thesis
      using wf consistent_put_idem [OF consistent_writes [OF w2]] api_writes_view [OF w2 assms(1)] put_idem_view by metis
  qed
qed

lemma api_mux_writes:
  assumes "wf_store s" "ApiStore cfg = memory_Store"
  shows "(consistent s \<longrightarrow> consistent (snd (api_mux cfg rt r s))) \<and>
    (\<forall>t'. t' \<noteq> ctx_TenantID (ReqCtx r) \<longrightarrow> (\<forall>i. NewRunID rt = Inr i \<longrightarrow> map_of (runs s) i = None) \<longrightarrow>
       tenant_view t' (snd (api_mux cfg rt r s)) = tenant_view t' s)"
proof -
  let ?h = "\<lparr>HandlerStore = Some memory_Store, EnabledChannels = [''google'']\<rparr>"
  have up: "api_writes (ctx_TenantID (ReqCtx r)) rt s (snd (DebugUpsert_ServeHTTP ?h rt r' s))"
    if "ReqCtx r' = ReqCtx r" for r'
    using DebugUpsert_writes [OF assms(1), of ?h r' rt] that by simp
  have bulk: "api_writes (ctx_TenantID (ReqCtx r)) rt s (snd (DebugBulkUpsert_ServeHTTP (Gunzip cfg) ?h rt r' s))"
    if "ReqCtx r' = ReqCtx r" for r'
    using DebugBulk_writes [OF assms(1), of ?h r' rt "Gunzip cfg"] that by simp
  have runs: "snd (DebugRuns_ServeHTTP memory_Store rt r s) = s" "snd (DebugRunDetail_ServeHTTP memory_Store rt r s) = s"
    by (simp_all add: DebugRuns_ServeHTTP_def DebugRunDetail_ServeHTTP_def Let_def split: sum.split option.split)
  show ?thesis
    using Idempotency_writes [where serve = "DebugUpsert_ServeHTTP ?h", OF assms(1) up]
      Idempotency_writes [where serve = "DebugBulkUpsert_ServeHTTP (Gunzip cfg) ?h", OF assms(1) bulk] assms runs
    by (simp add: api_mux_def Let_def)
qed

lemma ctx_with_tenant [simp]: "ctx_TenantID (ReqCtx (with_tenant r t)) = (if t = 0 then DefaultTenantID else t)"
  by (simp add: with_tenant_def ctx_TenantID_With)

lemma with_tenant_twice [simp]: "with_tenant (with_tenant r t) t' = with_tenant r t'"
  by (simp add: with_tenant_def WithTenantID_def)

section \<open>Properties\<close>

lemma api_root_consistent:
  assumes "consistent s" "ApiStore cfg = memory_Store"
  shows "consistent (snd (api_root cfg rt r s))"
proof -
  have wf: "wf_store s" using assms(1) by (simp add: consistent_def)
  have "consistent (snd (Tenant_ServeHTTP (Env cfg) (Some (api_mux cfg)) rt r' s))" for r'
    using api_mux_writes [OF wf assms(2)] assms(1) by (simp add: Tenant_ServeHTTP_def Let_def split: option.split)
  then show ?thesis
    using assms(1) by (simp add: api_root_def Auth_ServeHTTP_def Let_def split: sum.split)
qed

definition sample_config :: "(body MemoryStore, unit) ApiConfig" where
  "sample_config =
     \<lparr>Env = ''prod'', Backend = ''memory'', Ping = (\<lambda>rt. None), PublicKey = Some (), ApiStore = memory_Store,
      Gunzip = (\<lambda>b. Inl ''gzip: invalid header''),
      Jwt = (\<lambda>algs leeway tok keyfn. if tok = ''t42'' then Inr (\<lparr>ClaimsTenantID = 42\<rparr>, True) else Inl ''token is malformed''),
      MuxOther = (\<lambda>r. write_status 404)\<rparr>"

text \<open>(C8) Writes stay with their tenant: a request that the routes serve for a tenant, with a run
  identifier that is not in use, changes nothing that another tenant can read: neither its
  canonical product hashes, nor its cached responses, nor its runs, nor the products of its runs.\<close>

theorem api_tenant_isolation:
  assumes "wf_store s" "ApiStore cfg = memory_Store" "t' \<noteq> ctx_TenantID (ReqCtx r)"
    "\<And>i. NewRunID rt = Inr i \<Longrightarrow> map_of (runs s) i = None"
  shows "tenant_view t' (snd (api_mux cfg rt r s)) = tenant_view t' s"
  using api_mux_writes [OF assms(1,2)] assms(3,4) by blast

theorem api_tenant_isolation_witness:
  "tenant_view 1 (snd (api_mux sample_config (sample_runtime ''a'' 5) product_request NewMemoryStore)) = tenant_view 1 NewMemoryStore \<and>
   mem_GetRun (snd (api_mux sample_config (sample_runtime ''a'' 5) product_request NewMemoryStore)) 7 (''run_'' @ EncodeToString ''a'')
     \<noteq> Inr None"
proof
  show "tenant_view 1 (snd (api_mux sample_config (sample_runtime ''a'' 5) product_request NewMemoryStore)) = tenant_view 1 NewMemoryStore"
    by (rule api_tenant_isolation) (simp_all add: sample_config_def, simp add: NewMemoryStore_def)
  have w: "ParseProductsAllowUnknown (BodyBytes product_request) =
      Inr \<lparr>Products = [sample_product ''sku1''], Warnings = \<lparr>UnknownKeys = []\<rparr>\<rparr>" by (simp add: product_parse)
  have mux: "api_mux sample_config (sample_runtime ''a'' 5) product_request NewMemoryStore =
      DebugUpsert_ServeHTTP \<lparr>HandlerStore = Some memory_Store, EnabledChannels = [''google'']\<rparr> (sample_runtime ''a'' 5) product_request NewMemoryStore"
    by (simp add: api_mux_def sample_config_def Idempotency_ServeHTTP_def idem_key_def)
  obtain out where "DebugUpsert_ServeHTTP \<lparr>HandlerStore = Some memory_Store, EnabledChannels = [''google'']\<rparr> (sample_runtime ''a'' 5) product_request
      (NewMemoryStore :: body MemoryStore) =
      (writeJSON 200 (PRun (run_response (''run_'' @ EncodeToString ''a'') \<lparr>UnknownKeys = []\<rparr> out)),
       record_run (run_record (''run_'' @ EncodeToString ''a'') 7 \<lparr>UnknownKeys = []\<rparr> out (NowRun (sample_runtime ''a'' 5)))
         (OutProducts out) (mem_puts 7 (hash_writes (OutProducts out)) NewMemoryStore))"
    using DebugUpsert_mem [OF wf_store_New _ product_request_simps(1) NewRunID_sample product_request_simps(2) w,
        of "\<lparr>HandlerStore = Some memory_Store, EnabledChannels = [''google'']\<rparr>" "''a''" 5] by auto
  then show "mem_GetRun (snd (api_mux sample_config (sample_runtime ''a'' 5) product_request NewMemoryStore)) 7 (''run_'' @ EncodeToString ''a'')
     \<noteq> Inr None"
    unfolding mux by (simp add: mem_GetRun_def run_record_def)
qed

text \<open>(C7) In the server's chain the tenant of the token is lost: outside dev every request is either
  rejected with 401 and no effect, or handled for the default tenant 1, whatever tenant its
  token was issued for.\<close>

theorem server_serves_default_tenant_only:
  assumes "\<not> is_dev (Env cfg)"
  shows "(\<exists>message. api_root cfg rt r s = (unauthorized message, s)) \<or>
    api_root cfg rt r s = api_mux cfg rt (with_tenant r 1) s"
proof -
  have t: "Tenant_ServeHTTP (Env cfg) (Some (api_mux cfg)) rt (with_tenant r t) s = api_mux cfg rt (with_tenant r 1) s" for t
    using assms by (simp add: Tenant_ServeHTTP_def Let_def)
  show ?thesis
    using assms t by (auto simp: api_root_def Auth_ServeHTTP_def Let_def split: sum.split)
qed

theorem server_serves_default_tenant_only_witness:
  "api_root sample_config (plain_runtime 5)
     (sample_request\<lparr>Header := [(''Authorization'', ''Bearer t42'')], ReqPath := ''/v1/debug/runs'', Method := ''GET''\<rparr>) NewMemoryStore
   = api_mux sample_config (plain_runtime 5)
     (with_tenant (sample_request\<lparr>Header := [(''Authorization'', ''Bearer t42'')], ReqPath := ''/v1/debug/runs'', Method := ''GET''\<rparr>) 1) NewMemoryStore"
proof -
  let ?r = "sample_request\<lparr>Header := [(''Authorization'', ''Bearer t42'')], ReqPath := ''/v1/debug/runs'', Method := ''GET''\<rparr>"
  have dev: "\<not> is_dev (Env sample_config)"
    by (simp add: sample_config_def is_dev_def TrimSpace_id EqualFold_ascii char_to_lower_def)
  have "CanonicalHeaderKey ''Authorization'' = ''Authorization''"
    by (simp add: CanonicalHeaderKey_def char_to_upper_def char_to_lower_def)
  then have h: "HeaderGet ?r ''Authorization'' = ''Bearer t42''" by (simp add: HeaderGet_def)
  have "RespCode (fst (api_root sample_config (plain_runtime 5) ?r NewMemoryStore)) = 200"
    using dev h
    by (simp add: api_root_def Auth_ServeHTTP_def Let_def TrimSpace_id HasPrefix_def TrimPrefix_def ParseAndValidateRS256_def
        sample_config_def)
      (simp add: Tenant_ServeHTTP_def api_mux_def DebugRuns_ServeHTTP_def mem_ListRuns_def Let_def with_tenant_def)
  then show ?thesis
    using server_serves_default_tenant_only [OF dev, of "plain_runtime 5" ?r NewMemoryStore]
    by (auto simp: unauthorized_def)
qed

text \<open>Page sizes are bounded: whatever the \<open>limit\<close> parameter, a page of runs has between 1 and 200
  entries as its limit and a page of products between 1 and 2000; a parameter in range is taken
  as it is.\<close>

theorem page_limit_bounds:
  "1 \<le> page_limit 50 200 v \<and> page_limit 50 200 v \<le> 200 \<and> 1 \<le> page_limit 500 2000 v \<and> page_limit 500 2000 v \<le> 2000 \<and>
   (case Atoi v of None \<Rightarrow> page_limit 50 200 v = 50
    | Some n \<Rightarrow> page_limit 50 200 v = (if n \<le> 0 then 50 else if n \<ge> 200 then 200 else n))"
  by (auto simp: page_limit_def Let_def Atoi_def split: option.split)

text \<open>Reading one run: over the memory store a GET for \<open>/v1/debug/runs/{id}\<close>, with an identifier that
  is trimmed, not empty and without a slash, answers 200 with the run and its products exactly
  when the run is the tenant's, 404 otherwise, and never changes the store; a run of another
  tenant looks like one that does not exist.\<close>

theorem run_detail_spec:
  assumes "wf_store s" "Method r = ''GET''" "ReqPath r = ''/v1/debug/runs/'' @ i" "TrimSpace i = i" "i \<noteq> ''''" "CHR ''/'' \<notin> set i"
    "ctx_TenantID (ReqCtx r) = t"
  shows "DebugRunDetail_ServeHTTP memory_Store rt r s =
    (case map_of (runs s) i of
       Some run \<Rightarrow>
         if TenantID run = t
         then (writeJSON 200 (PDetail run (case mem_ListRunProducts (RngProducts rt) s i (page_limit 500 2000 (QueryGet r ''limit'')) of
                 Inr ps \<Rightarrow> ps | Inl _ \<Rightarrow> [])), s)
         else (writeJSON 404 (error_body ''not_found'' ''run not found''), s)
     | None \<Rightarrow> (writeJSON 404 (error_body ''not_found'' ''run not found''), s))"
proof -
  have "TrimSpace (TrimPrefix (ReqPath r) ''/v1/debug/runs/'') = i"
    using assms(3,4) by (simp add: TrimPrefix_def)
  moreover obtain ps where "mem_ListRunProducts (RngProducts rt) s i (page_limit 500 2000 (QueryGet r ''limit'')) = Inr ps"
    by (cases "mem_ListRunProducts (RngProducts rt) s i (page_limit 500 2000 (QueryGet r ''limit''))")
      (auto simp: mem_ListRunProducts_def Let_def split: option.splits if_splits)
  ultimately show ?thesis
    using assms(2,5-7)
    by (auto simp: DebugRunDetail_ServeHTTP_def Let_def mem_GetRun_def split: option.split sum.split)
qed

theorem run_detail_spec_witness:
  "DebugRunDetail_ServeHTTP memory_Store (plain_runtime 5)
     (sample_request\<lparr>Method := ''GET'', ReqPath := ''/v1/debug/runs/'' @ ''r1''\<rparr>) sample_store =
   (writeJSON 404 (error_body ''not_found'' ''run not found''), sample_store)"
proof -
  let ?r = "sample_request\<lparr>Method := ''GET'', ReqPath := ''/v1/debug/runs/'' @ ''r1''\<rparr>"
  have t: "ctx_TenantID (ReqCtx ?r) = 7" by simp
  show ?thesis
    using run_detail_spec [OF wf_sample_store _ _ _ _ _ t, of "''r1''" "plain_runtime 5"]
    by (simp add: TrimSpace_id runs_sample_store)
qed

end
