(* ===== verification/Executor.thy ===== *)
theory Executor
  imports Memory_Store Tenant_Ctx
begin

text \<open>
  \<open>internal/execute/executor.go\<close>: executing one run. The orchestration hook \<open>OnExecute\<close> is a
  function on a state \<open>'w\<close> of its own (the outside world); nil is \<open>None\<close>.
\<close>

record ('s, 'w, 'b) Executor =
  ExecStore :: "('s, 'b) Store option"
  ProductLimit :: int
  OnExecute :: "(Context \<Rightarrow> RunRecord \<Rightarrow> ProductProcessResult list \<Rightarrow> 'w \<Rightarrow> go_error option \<times> 'w) option"

definition ErrRunNotFound :: go_error where
  "ErrRunNotFound = ''run not found''"

text \<open>\<open>rng\<close> is the order in which the store's sort leaves products with equal keys.\<close>

definition Execute ::
  "('s, 'w, 'b) Executor \<Rightarrow> ProductProcessResult permuter \<Rightarrow> Context \<Rightarrow> string \<Rightarrow> uint64 \<Rightarrow>
   's \<times> 'w \<Rightarrow> go_error option \<times> ('s \<times> 'w)" where
  "Execute e rng ctx runID tenantID sw =
     (case ExecStore e of
        None \<Rightarrow> (Some ''store is nil'', sw)
      | Some store \<Rightarrow>
          if runID = '''' then (Some ''runID is required'', sw)
          else if tenantID = 0 then (Some ''tenantID is required'', sw)
          else
            (let limit = (if ProductLimit e \<le> 0 then 100000 else ProductLimit e)
             in case GetRun store (fst sw) tenantID runID of
                  Inl err \<Rightarrow> (Some (''get run failed: '' @ err), sw)
                | Inr None \<Rightarrow> (Some ErrRunNotFound, sw)
                | Inr (Some run) \<Rightarrow>
                    (case ListRunProducts store rng (fst sw) runID limit of
                       Inl err \<Rightarrow> (Some (''list run products failed: '' @ err), sw)
                     | Inr products \<Rightarrow>
                         (let enqueued = filter (\<lambda>p. ResDisposition p = ProductDispositionEnqueued) products
                          in case OnExecute e of
                               None \<Rightarrow> (None, sw)
                             | Some f \<Rightarrow> (let (err, w') = f ctx run enqueued (snd sw) in (err, (fst sw, w')))))))"

lemma Execute_keeps_store: "fst (snd (Execute e rng ctx i t sw)) = fst sw"
  by (simp add: Execute_def Let_def split: option.split sum.split prod.split)

text \<open>The products of a run as the executor loads them from the memory store.\<close>

definition loaded_products ::
  "ProductProcessResult permuter \<Rightarrow> 'b MemoryStore \<Rightarrow> string \<Rightarrow> int \<Rightarrow> ProductProcessResult list" where
  "loaded_products rng s i limit =
     (case mem_ListRunProducts rng s i limit of Inr ps \<Rightarrow> ps | Inl _ \<Rightarrow> [])"

lemma mem_ListRunProducts_Inr: "mem_ListRunProducts rng s i limit = Inr (loaded_products rng s i limit)"
  by (simp add: loaded_products_def mem_ListRunProducts_def Let_def split: option.split)

lemma loaded_products_mset:
  assumes "is_permuter rng" "0 < limit"
    "map_of (runProducts s) i = Some ps" "int (length ps) \<le> limit"
  shows "mset (loaded_products rng s i limit) = mset ps"
  using assms
  by (simp add: loaded_products_def mem_ListRunProducts_def Let_def permuter_mset permuter_length)

lemma Execute_memory:
  assumes "ExecStore e = Some memory_Store" "i \<noteq> ''''" "t \<noteq> 0"
    "map_of (runs s) i = Some r" "TenantID r = t"
  shows "Execute e rng ctx i t (s, w) =
    (case OnExecute e of None \<Rightarrow> (None, (s, w))
     | Some f \<Rightarrow> apsnd (Pair s) (f ctx r (filter (\<lambda>p. ResDisposition p = ''enqueued'')
         (loaded_products rng s i (if ProductLimit e \<le> 0 then 100000 else ProductLimit e))) w))"
  using assms
  by (simp add: Execute_def mem_GetRun_def Let_def mem_ListRunProducts_Inr apsnd_def map_prod_def
      split: option.split prod.split)

section \<open>Properties\<close>

text \<open>Execution hands over exactly the enqueued products: for a stored run of the tenant with
  at most as many products as the product limit (100000 when unset), the executor calls the hook
  once, with the stored run record and a list of exactly the enqueued products of the run, and
  returns the hook's answer; without a hook it succeeds.\<close>

theorem execute_enqueued_products:
  assumes "is_permuter rng" "ExecStore e = Some memory_Store" "i \<noteq> ''''" "t \<noteq> 0"
    "map_of (runs s) i = Some r" "TenantID r = t" "map_of (runProducts s) i = Some ps"
    "int (length ps) \<le> (if ProductLimit e \<le> 0 then 100000 else ProductLimit e)"
  shows "\<exists>qs. mset qs = filter_mset (\<lambda>p. ResDisposition p = ''enqueued'') (mset ps) \<and>
    Execute e rng ctx i t (s, w) =
      (case OnExecute e of None \<Rightarrow> (None, (s, w)) | Some f \<Rightarrow> (fst (f ctx r qs w), (s, snd (f ctx r qs w))))"
proof -
  let ?l = "if ProductLimit e \<le> 0 then 100000 else ProductLimit e"
  let ?qs = "filter (\<lambda>p. ResDisposition p = ''enqueued'') (loaded_products rng s i ?l)"
  have "mset (loaded_products rng s i ?l) = mset ps"
    using loaded_products_mset [OF assms(1) _ assms(7,8)] by simp
  then have "mset ?qs = filter_mset (\<lambda>p. ResDisposition p = ''enqueued'') (mset ps)"
    by (simp only: mset_filter)
  then show ?thesis
    using Execute_memory [OF assms(2-6)]
    by (intro exI [of _ ?qs]) (simp add: apsnd_def map_prod_def split: option.split prod.split)
qed

definition sample_result :: "string \<Rightarrow> ProductDisposition \<Rightarrow> ProductProcessResult" where
  "sample_result k d = \<lparr>ResProductKey = k, ResHash = ''h'', ResDisposition = d, ResReason = '''', ResIssues = []\<rparr>"

definition executing_store :: "unit MemoryStore" where
  "executing_store = snd (mem_InsertRunProducts ''r1''
     [sample_result ''b'' ''enqueued'', sample_result ''c'' ''rejected'', sample_result ''a'' ''enqueued''] sample_store)"

theorem execute_enqueued_products_witness:
  "\<exists>qs. mset qs = mset [sample_result ''a'' ''enqueued'', sample_result ''b'' ''enqueued''] \<and>
     Execute \<lparr>ExecStore = Some memory_Store, ProductLimit = 0,
        OnExecute = Some (\<lambda>ctx r ps w. (None, w @ [(RunID r, ps)]))\<rparr> rev Background ''r1'' 1 (executing_store, [])
       = (None, (executing_store, [(''r1'', qs)]))"
proof -
  let ?e = "\<lparr>ExecStore = Some memory_Store, ProductLimit = 0,
        OnExecute = Some (\<lambda>ctx r ps w. (None, w @ [(RunID r, ps)]))\<rparr>"
  have "map_of (runs executing_store) ''r1'' = Some (sample_run ''r1'' 1 10)"
    "map_of (runProducts executing_store) ''r1'' =
      Some [sample_result ''b'' ''enqueued'', sample_result ''c'' ''rejected'', sample_result ''a'' ''enqueued'']"
    by (simp_all add: executing_store_def mem_InsertRunProducts_def runs_sample_store)
  from execute_enqueued_products [OF permuter_rev _ _ _ this(1) _ this(2), of ?e 1 Background "[]"]
  obtain qs where "mset qs = filter_mset (\<lambda>p. ResDisposition p = ''enqueued'')
      (mset [sample_result ''b'' ''enqueued'', sample_result ''c'' ''rejected'', sample_result ''a'' ''enqueued''])"
    "Execute ?e rev Background ''r1'' 1 (executing_store, []) = (None, (executing_store, [(''r1'', qs)]))"
    by auto
  then show ?thesis by (intro exI [of _ qs]) (simp add: sample_result_def add_mset_commute)
qed

text \<open>Ownership check: the hook is never called, and nothing changes, unless the run exists in
  the memory store and belongs to the tenant; the error says which check failed.\<close>

theorem execute_rejects:
  assumes "wf_store s" "\<not> (\<exists>r. map_of (runs s) i = Some r \<and> TenantID r = t) \<or> i = '''' \<or> t = 0"
  shows "Execute \<lparr>ExecStore = Some memory_Store, ProductLimit = limit, OnExecute = hook\<rparr> rng ctx i t (s, w) =
    (Some (if i = '''' then ''runID is required'' else if t = 0 then ''tenantID is required''
           else ''run not found''), (s, w))"
  using assms by (auto simp: Execute_def mem_GetRun_def ErrRunNotFound_def Let_def split: option.split)

theorem execute_rejects_witness:
  "Execute \<lparr>ExecStore = Some memory_Store, ProductLimit = 0, OnExecute = Some (\<lambda>ctx r ps w. (None, Suc w))\<rparr>
     rev Background ''r1'' 2 (sample_store, 0) = (Some ''run not found'', (sample_store, 0))"
  using execute_rejects [OF wf_sample_store, of "''r1''" 2 0 "Some (\<lambda>ctx r ps w. (None, Suc w))" rev Background 0]
  by (simp add: runs_sample_store)

end
