(* ===== verification/Run_Lifecycle.thy ===== *)
theory Run_Lifecycle
  imports Memory_Store
begin

text \<open>
  The life of runs in a shared memory store. API handlers and any number of workers interleave
  atomic store operations; \<open>queue_step\<close> has one rule per operation that changes the store. New
  runs get fresh identifiers (they are 16 random bytes). The theory shows that in every
  interleaving a run is claimed at most once and never returns to the queue.
\<close>

datatype queue_event =
  EInsert RunRecord | EClaim "RunClaim list" | EComplete uint64 string | EFail uint64 string
| EOther

inductive queue_step :: "'b MemoryStore \<Rightarrow> queue_event \<Rightarrow> 'b MemoryStore \<Rightarrow> bool" where
  insert_run: "map_of (runs s) (RunID r) = None \<Longrightarrow> queue_step s (EInsert r) (snd (mem_InsertRun r s))"
| claim_runs: "is_permuter p \<Longrightarrow> mem_ClaimRuns p limit s = (Inr cs, s') \<Longrightarrow> queue_step s (EClaim cs) s'"
| complete_run: "queue_step s (EComplete t i) (snd (mem_CompleteRun t i s))"
| fail_run: "queue_step s (EFail t i) (snd (mem_FailRun t i msg s))"
| upsert_hash: "queue_step s EOther (snd (mem_UpsertProductHash t k h s))"
| insert_products: "queue_step s EOther (snd (mem_InsertRunProducts i ps s))"
| put_idempotency: "queue_step s EOther (snd (mem_PutIdempotency t e k rec s))"

inductive queue_trace :: "'b MemoryStore \<Rightarrow> queue_event list \<Rightarrow> 'b MemoryStore \<Rightarrow> bool" where
  trace_start: "queue_trace s [] s"
| trace_step: "queue_trace s es u \<Longrightarrow> queue_step u e v \<Longrightarrow> queue_trace s (es @ [e]) v"

inductive_cases claim_stepE: "queue_step s (EClaim cs) s'"

fun claimed_ids :: "queue_event \<Rightarrow> string list" where
  "claimed_ids (EClaim cs) = map ClaimRunID cs"
| "claimed_ids _ = []"

section \<open>Steps keep stores well-formed and never requeue a run\<close>

lemma queue_step_wf: "queue_step s e s' \<Longrightarrow> wf_store s \<Longrightarrow> wf_store s'"
proof (induction rule: queue_step.induct)
  case (claim_runs p limit s cs s')
  then show ?case using wf_store_ClaimRuns [of s p limit] by simp
qed (auto intro: inv_intros)

text \<open>A run that is stored and not waiting stays stored and not waiting.\<close>

definition settled :: "string \<Rightarrow> 'b MemoryStore \<Rightarrow> bool" where
  "settled i s \<longleftrightarrow> (\<exists>r. map_of (runs s) i = Some r \<and> \<not> claimable r)"

lemma settled_mark:
  "settled i s \<Longrightarrow> map_of (runs s') = mark_processing ids (map_of (runs s)) \<Longrightarrow> settled i s'"
  by (force simp: settled_def mark_processing_def claimable_def)

lemma settled_set_status:
  assumes "settled i s" "map_of (runs s') = set_status t j st (map_of (runs s))" "st \<noteq> ''has_changes''"
  shows "settled i s'"
proof -
  obtain r where r: "map_of (runs s) i = Some r" "\<not> claimable r"
    using assms(1) unfolding settled_def by blast
  then have "map_of (runs s') i = Some (if i = j \<and> TenantID r = t then r\<lparr>Status := st\<rparr> else r)"
    by (simp add: assms(2) set_status_def)
  moreover have "\<not> claimable (if i = j \<and> TenantID r = t then r\<lparr>Status := st\<rparr> else r)"
    using r(2) assms(3) by (simp add: claimable_def)
  ultimately show ?thesis unfolding settled_def by blast
qed

lemma queue_step_settled:
  assumes "queue_step s e s'" "wf_store s" "settled i s"
  shows "settled i s'"
  using assms
proof (induction rule: queue_step.induct)
  case (claim_runs p limit s cs s')
  from mem_queue.claimE [OF claim_runs.prems(1) claim_runs.hyps(1,2)]
  obtain rs where rs: "cs = map claim_of rs" "distinct (map RunID rs)"
    "\<forall>r \<in> set rs. claimable r \<and> map_of (runs s) (RunID r) = Some r"
    "map_of (runs s') = mark_processing (RunID ` set rs) (map_of (runs s))" "wf_store s'" .
  from rs(4) show ?case by (rule settled_mark [OF claim_runs.prems(2)])
next
  case (complete_run s t j)
  show ?case
    using mem_queue.complete_spec [OF complete_run.prems(1)]
    by (intro settled_set_status [OF complete_run.prems(2), of _ t j "''completed''"]) simp_all
next
  case (fail_run s t j msg)
  show ?case
    using mem_queue.fail_spec [OF fail_run.prems(1)]
    by (intro settled_set_status [OF fail_run.prems(2), of _ t j "''failed''"]) simp_all
next
  case (insert_run s r)
  then have "i \<noteq> RunID r" unfolding settled_def by force
  then show ?case using insert_run.prems(2) by (simp add: settled_def mem_InsertRun_def)
qed (simp_all add: settled_def mem_UpsertProductHash_def mem_InsertRunProducts_def mem_PutIdempotency_def Let_def)

lemma queue_step_claims:
  assumes "queue_step s e s'" "wf_store s" "i \<in> set (claimed_ids e)"
  shows "\<not> settled i s" "settled i s'"
proof -
  obtain cs where e: "e = EClaim cs" using assms(3) by (cases e) auto
  then obtain p limit where p: "is_permuter p" "mem_ClaimRuns p limit s = (Inr cs, s')"
    using assms(1) by (auto elim: claim_stepE)
  from mem_queue.claimE [OF assms(2) p] obtain rs where rs: "cs = map claim_of rs" "distinct (map RunID rs)"
    "\<forall>r \<in> set rs. claimable r \<and> map_of (runs s) (RunID r) = Some r"
    "map_of (runs s') = mark_processing (RunID ` set rs) (map_of (runs s))" "wf_store s'" .
  obtain r where r: "r \<in> set rs" "i = RunID r"
    using assms(3) e rs(1) by (auto simp: claim_of_def)
  then have "map_of (runs s) i = Some r" "claimable r" using rs(3) by simp_all
  then show "\<not> settled i s" by (simp add: settled_def)
  have "map_of (runs s') i = Some (r\<lparr>Status := ''processing''\<rparr>)"
    using r rs(3) by (simp add: rs(4) mark_processing_def)
  then show "settled i s'" by (simp add: settled_def claimable_def)
qed

lemma queue_step_claims_distinct:
  assumes "queue_step s e s'" "wf_store s"
  shows "distinct (claimed_ids e)"
proof (cases e)
  case (EClaim cs)
  then obtain p limit where p: "is_permuter p" "mem_ClaimRuns p limit s = (Inr cs, s')"
    using assms(1) by (auto elim: claim_stepE)
  from mem_queue.claimE [OF assms(2) p] obtain rs where rs: "cs = map claim_of rs" "distinct (map RunID rs)"
    "\<forall>r \<in> set rs. claimable r \<and> map_of (runs s) (RunID r) = Some r"
    "map_of (runs s') = mark_processing (RunID ` set rs) (map_of (runs s))" "wf_store s'" .
  then show ?thesis using EClaim by (simp add: claim_of_def comp_def)
qed auto

lemma queue_trace_wf: "queue_trace s es u \<Longrightarrow> wf_store s \<Longrightarrow> wf_store u"
  by (induction rule: queue_trace.induct) (auto intro: queue_step_wf)

lemma queue_trace_claimed_settled:
  "queue_trace s es u \<Longrightarrow> wf_store s \<Longrightarrow> i \<in> set (concat (map claimed_ids es)) \<Longrightarrow> settled i u"
proof (induction rule: queue_trace.induct)
  case (trace_step s es u e v)
  have wf: "wf_store u" using trace_step.hyps(1) trace_step.prems(1) by (rule queue_trace_wf)
  show ?case
  proof (cases "i \<in> set (claimed_ids e)")
    case True
    then show ?thesis using queue_step_claims(2) [OF trace_step.hyps(2) wf] by blast
  next
    case False
    then have "settled i u" using trace_step by auto
    then show ?thesis by (rule queue_step_settled [OF trace_step.hyps(2) wf])
  qed
qed simp

section \<open>Properties\<close>

text \<open>(C2) Exactly-once claiming: however API calls and any number of workers interleave, starting
  from an empty store, no run identifier occurs twice among all claims ever handed out.\<close>

theorem runs_claimed_at_most_once:
  assumes "queue_trace NewMemoryStore es s"
  shows "distinct (concat (map claimed_ids es))"
proof -
  have "queue_trace u es s \<Longrightarrow> wf_store u \<Longrightarrow> ?thesis" for u :: "'a MemoryStore"
  proof (induction rule: queue_trace.induct)
    case (trace_step s es u e v)
    have wf: "wf_store u" using trace_step.hyps(1) trace_step.prems by (rule queue_trace_wf)
    have "set (concat (map claimed_ids es)) \<inter> set (claimed_ids e) = {}"
      using queue_trace_claimed_settled [OF trace_step.hyps(1) trace_step.prems]
        queue_step_claims(1) [OF trace_step.hyps(2) wf] by blast
    then show ?case
      using trace_step.IH trace_step.prems queue_step_claims_distinct [OF trace_step.hyps(2) wf]
      by simp
  qed simp
  from this [OF assms] show ?thesis by simp
qed

theorem runs_claimed_at_most_once_witness:
  "\<exists>cs ds (s :: unit MemoryStore).
     queue_trace NewMemoryStore [EInsert (sample_run ''r1'' 1 10), EClaim cs, EComplete 1 ''r1'', EClaim ds] s \<and>
     distinct (map ClaimRunID cs @ map ClaimRunID ds) \<and> cs = [\<lparr>ClaimRunID = ''r1'', ClaimTenantID = 1\<rparr>]"
proof -
  let ?s0 = "NewMemoryStore :: unit MemoryStore"
  let ?s1 = "snd (mem_InsertRun (sample_run ''r1'' 1 10) ?s0)"
  let ?s2 = "snd (mem_ClaimRuns (\<lambda>xs. xs) 10 ?s1)"
  let ?s3 = "snd (mem_CompleteRun 1 ''r1'' ?s2)"
  have c: "mem_ClaimRuns (\<lambda>xs. xs) 10 ?s1 = (Inr [\<lparr>ClaimRunID = ''r1'', ClaimTenantID = 1\<rparr>], ?s2)"
    by (simp add: mem_ClaimRuns_def mem_InsertRun_def NewMemoryStore_def)
  obtain ds s4 where d: "mem_ClaimRuns (\<lambda>xs. xs) 10 ?s3 = (Inr ds, s4)"
    by (simp add: mem_ClaimRuns_pick)
  have "queue_trace ?s0 [EInsert (sample_run ''r1'' 1 10)] ?s1"
    using trace_step [OF trace_start insert_run, of ?s0 "sample_run ''r1'' 1 10"]
    by (simp add: NewMemoryStore_def)
  note trace_step [OF this claim_runs [OF permuter_id c]]
  from trace_step [OF this complete_run, of 1 "''r1''"]
  have "queue_trace ?s0 ([EInsert (sample_run ''r1'' 1 10), EClaim [\<lparr>ClaimRunID = ''r1'', ClaimTenantID = 1\<rparr>],
      EComplete 1 ''r1'']) ?s3" by simp
  from trace_step [OF this claim_runs [OF permuter_id d]]
  have t: "queue_trace ?s0 [EInsert (sample_run ''r1'' 1 10), EClaim [\<lparr>ClaimRunID = ''r1'', ClaimTenantID = 1\<rparr>],
      EComplete 1 ''r1'', EClaim ds] s4" by simp
  show ?thesis
    using t runs_claimed_at_most_once [OF t] by auto
qed

text \<open>A run that was claimed never returns to the queue: in every later state of every
  interleaving it is still stored and not waiting to be claimed.\<close>

theorem claimed_runs_stay_settled:
  assumes "queue_trace NewMemoryStore es s" "e \<in> set es" "i \<in> set (claimed_ids e)"
  shows "\<exists>r. map_of (runs s) i = Some r \<and> \<not> claimable r"
  using queue_trace_claimed_settled [OF assms(1) wf_store_New, of i] assms(2,3)
  by (auto simp: settled_def)

theorem claimed_runs_stay_settled_witness:
  "\<exists>(s :: unit MemoryStore) r. queue_trace NewMemoryStore
      [EInsert (sample_run ''r1'' 1 10), EClaim [\<lparr>ClaimRunID = ''r1'', ClaimTenantID = 1\<rparr>]] s \<and>
     map_of (runs s) ''r1'' = Some r \<and> \<not> claimable r"
proof -
  let ?s0 = "NewMemoryStore :: unit MemoryStore"
  let ?s1 = "snd (mem_InsertRun (sample_run ''r1'' 1 10) ?s0)"
  let ?s2 = "snd (mem_ClaimRuns (\<lambda>xs. xs) 10 ?s1)"
  have c: "mem_ClaimRuns (\<lambda>xs. xs) 10 ?s1 = (Inr [\<lparr>ClaimRunID = ''r1'', ClaimTenantID = 1\<rparr>], ?s2)"
    by (simp add: mem_ClaimRuns_def mem_InsertRun_def NewMemoryStore_def)
  have "queue_trace ?s0 [EInsert (sample_run ''r1'' 1 10)] ?s1"
    using trace_step [OF trace_start insert_run, of ?s0 "sample_run ''r1'' 1 10"]
    by (simp add: NewMemoryStore_def)
  from trace_step [OF this claim_runs [OF permuter_id c]]
  have t: "queue_trace ?s0 [EInsert (sample_run ''r1'' 1 10), EClaim [\<lparr>ClaimRunID = ''r1'', ClaimTenantID = 1\<rparr>]] ?s2"
    by simp
  show ?thesis
    using t claimed_runs_stay_settled [OF t, of "EClaim [\<lparr>ClaimRunID = ''r1'', ClaimTenantID = 1\<rparr>]" "''r1''"]
    by auto
qed

end
