(* ===== verification/Worker.thy ===== *)
theory Worker
  imports Executor Run_Lifecycle
begin

text \<open>
  \<open>internal/worker/runner.go\<close>: the worker loop. A runner claims runs from the store, executes
  each and records the outcome. \<open>None\<close> as the result of \<open>tick\<close> is the panic of a call
  through a nil store or nil \<open>ProcessFn\<close>; \<open>Run\<close> excludes it by its defaults. The select loop
  of \<open>Run\<close> consumes a sequence of events, ticks of the ticker and the end of the context;
  every tick carries the runtime's choices.
\<close>

record Job =
  JobRunID :: string
  JobTenantID :: uint64

type_synonym ('s, 'w) RunExecutor =
  "Context \<Rightarrow> string \<Rightarrow> uint64 \<Rightarrow> 's \<times> 'w \<Rightarrow> go_error option \<times> ('s \<times> 'w)"

record ('s, 'w, 'b) Runner =
  RunnerStore :: "('s, 'b) Store option"
  PollEvery :: int
  ClaimTTL :: int
  MaxPerClaim :: int
  ProcessFn :: "(Context \<Rightarrow> Job \<Rightarrow> 's \<times> 'w \<Rightarrow> go_error option \<times> ('s \<times> 'w)) option"
  RunnerExecutor :: "('s, 'w) RunExecutor option"

definition run_job ::
  "('s, 'w, 'b) Runner \<Rightarrow> Context \<Rightarrow> RunClaim \<Rightarrow> 's \<times> 'w \<Rightarrow> (go_error option \<times> ('s \<times> 'w)) option" where
  "run_job r ctx c sw =
     (let job = \<lparr>JobRunID = ClaimRunID c, JobTenantID = ClaimTenantID c\<rparr>;
          jobCtx = WithRunID (WithTenant ctx (ClaimTenantID c)) (ClaimRunID c)
      in case RunnerExecutor r of
           Some ex \<Rightarrow> Some (ex jobCtx (ClaimRunID c) (ClaimTenantID c) sw)
         | None \<Rightarrow> map_option (\<lambda>f. f jobCtx job sw) (ProcessFn r))"

fun process_claims ::
  "('s, 'w, 'b) Runner \<Rightarrow> ('s, 'b) Store \<Rightarrow> Context \<Rightarrow> RunClaim list \<Rightarrow> 's \<times> 'w \<Rightarrow> ('s \<times> 'w) option" where
  "process_claims r store ctx [] sw = Some sw"
| "process_claims r store ctx (c # cs) sw =
     (case run_job r ctx c sw of
        None \<Rightarrow> None
      | Some (Some err, s, w) \<Rightarrow>
          process_claims r store ctx cs (snd (FailRun store (ClaimTenantID c) (ClaimRunID c) err s), w)
      | Some (None, s, w) \<Rightarrow>
          process_claims r store ctx cs (snd (CompleteRun store (ClaimTenantID c) (ClaimRunID c) s), w))"

definition tick ::
  "('s, 'w, 'b) Runner \<Rightarrow> RunRecord permuter \<Rightarrow> Context \<Rightarrow> 's \<times> 'w \<Rightarrow> (go_error option \<times> ('s \<times> 'w)) option" where
  "tick r rng ctx sw =
     (case RunnerStore r of
        None \<Rightarrow> None
      | Some store \<Rightarrow>
          (case ClaimRuns store rng (MaxPerClaim r) (fst sw) of
             (Inl err, s) \<Rightarrow> Some (Some err, (s, snd sw))
           | (Inr claims, s) \<Rightarrow> map_option (Pair None) (process_claims r store ctx claims (s, snd sw))))"

datatype run_event = Tick "RunRecord permuter" | Done go_error

datatype 'a run_outcome = Returned "go_error option" 'a | Waiting 'a | Panicked

fun run_loop ::
  "('s, 'w, 'b) Runner \<Rightarrow> Context \<Rightarrow> run_event list \<Rightarrow> 's \<times> 'w \<Rightarrow> ('s \<times> 'w) run_outcome" where
  "run_loop r ctx [] sw = Waiting sw"
| "run_loop r ctx (Done err # es) sw = Returned (Some err) sw"
| "run_loop r ctx (Tick rng # es) sw =
     (case tick r rng ctx sw of
        None \<Rightarrow> Panicked
      | Some (Some err, sw') \<Rightarrow> Returned (Some err) sw'
      | Some (None, sw') \<Rightarrow> run_loop r ctx es sw')"

definition with_defaults :: "('s, 'w, 'b) Runner \<Rightarrow> ('s, 'w, 'b) Runner" where
  "with_defaults r =
     (let r = (if PollEvery r \<le> 0 then r\<lparr>PollEvery := 500 * 1000000\<rparr> else r);
          r = (if ClaimTTL r \<le> 0 then r\<lparr>ClaimTTL := 30 * 1000000000\<rparr> else r);
          r = (if MaxPerClaim r \<le> 0 then r\<lparr>MaxPerClaim := 10\<rparr> else r)
      in if ProcessFn r = None then r\<lparr>ProcessFn := Some (\<lambda>ctx job sw. (None, sw))\<rparr> else r)"

text \<open>The first tick comes before the select loop: \<open>rng\<close> is the runtime's choice in it.\<close>

definition Run ::
  "('s, 'w, 'b) Runner \<Rightarrow> Context \<Rightarrow> RunRecord permuter \<Rightarrow> run_event list \<Rightarrow> 's \<times> 'w \<Rightarrow> ('s \<times> 'w) run_outcome" where
  "Run r ctx rng es sw =
     (if RunnerStore r = None then Returned (Some ''store is nil'') sw
      else run_loop (with_defaults r) ctx (Tick rng # es) sw)"

section \<open>Processing claims over any queue\<close>

text \<open>Jobs that leave the store alone: executing never touches it, only the bookkeeping does.\<close>

definition jobs_keep_store :: "('s, 'w, 'b) Runner \<Rightarrow> bool" where
  "jobs_keep_store r \<longleftrightarrow>
     (\<forall>ctx c sw. \<exists>err w. run_job r ctx c sw = Some (err, (fst sw, w)))"

lemma jobs_keep_store_Execute: "jobs_keep_store (r\<lparr>RunnerExecutor := Some (Execute e rng)\<rparr>)"
  unfolding jobs_keep_store_def
proof (intro allI)
  fix ctx and c :: RunClaim and sw :: "'a \<times> 'b"
  let ?x = "Execute e rng (WithRunID (WithTenant ctx (ClaimTenantID c)) (ClaimRunID c)) (ClaimRunID c) (ClaimTenantID c) sw"
  have "?x = (fst ?x, (fst sw, snd (snd ?x)))"
    by (simp add: prod_eq_iff Execute_keeps_store)
  then show "\<exists>err w. run_job (r\<lparr>RunnerExecutor := Some (Execute e rng)\<rparr>) ctx c sw = Some (err, (fst sw, w))"
    by (intro exI [of _ "fst ?x"] exI [of _ "snd (snd ?x)"]) (simp add: run_job_def Let_def)
qed

lemma set_status_other: "i \<noteq> j \<Longrightarrow> set_status t j st m i = m i"
  by (simp add: set_status_def split: option.split)

lemma set_status_same: "m i = Some r \<Longrightarrow> TenantID r = t \<Longrightarrow> set_status t i st m i = Some (r\<lparr>Status := st\<rparr>)"
  by (simp add: set_status_def)

text \<open>The outcome of a batch of claims, as a relation between the runs before and after.\<close>

definition settles :: "RunClaim list \<Rightarrow> (string \<Rightarrow> RunRecord option) \<Rightarrow> (string \<Rightarrow> RunRecord option) \<Rightarrow> bool" where
  "settles cs m m' \<longleftrightarrow>
     (\<forall>i. i \<notin> ClaimRunID ` set cs \<longrightarrow> m' i = m i) \<and>
     (\<forall>c \<in> set cs. \<exists>r st. m (ClaimRunID c) = Some r \<and> st \<in> {''completed'', ''failed''} \<and>
        m' (ClaimRunID c) = Some (r\<lparr>Status := st\<rparr>))"

lemma settles_Nil [simp]: "settles [] m m' \<longleftrightarrow> m' = m"
  by (auto simp: settles_def)

lemma settles_Cons:
  assumes "m (ClaimRunID c) = Some r" "TenantID r = ClaimTenantID c" "st \<in> {''completed'', ''failed''}"
    "ClaimRunID c \<notin> ClaimRunID ` set cs"
    "settles cs (set_status (ClaimTenantID c) (ClaimRunID c) st m) m'"
  shows "settles (c # cs) m m'"
proof -
  let ?m = "set_status (ClaimTenantID c) (ClaimRunID c) st m"
  have out: "m' i = m i" if "i \<notin> ClaimRunID ` set (c # cs)" for i
    using assms(5) that set_status_other [of i] by (auto simp: settles_def)
  have "m' (ClaimRunID c) = ?m (ClaimRunID c)"
    using assms(4,5) by (simp add: settles_def)
  then have head: "m' (ClaimRunID c) = Some (r\<lparr>Status := st\<rparr>)"
    using set_status_same [of m "ClaimRunID c" r] assms(1,2) by simp
  have "\<exists>q st. m (ClaimRunID d) = Some q \<and> st \<in> {''completed'', ''failed''} \<and> m' (ClaimRunID d) = Some (q\<lparr>Status := st\<rparr>)"
    if d: "d \<in> set cs" for d
  proof -
    have "ClaimRunID d \<noteq> ClaimRunID c" using assms(4) d by (metis image_eqI)
    then have "?m (ClaimRunID d) = m (ClaimRunID d)" by (rule set_status_other)
    moreover have "\<exists>q st. ?m (ClaimRunID d) = Some q \<and> st \<in> {''completed'', ''failed''} \<and>
        m' (ClaimRunID d) = Some (q\<lparr>Status := st\<rparr>)"
      using assms(5) d unfolding settles_def by blast
    ultimately show ?thesis by simp
  qed
  with out head assms(1,3) show ?thesis by (auto simp: settles_def)
qed

context run_queue
begin

lemma process_claims_settles:
  assumes "jobs_keep_store r" "CompleteRun store = complete" "FailRun store = fail"
    "inv s" "distinct (map ClaimRunID cs)"
    "\<forall>c \<in> set cs. \<exists>q. runs_of s (ClaimRunID c) = Some q \<and> TenantID q = ClaimTenantID c"
  shows "\<exists>s' w'. process_claims r store ctx cs (s, w) = Some (s', w') \<and> inv s' \<and>
    settles cs (runs_of s) (runs_of s')"
  using assms(4-6)
proof (induction cs arbitrary: s w)
  case (Cons c cs)
  obtain err w1 where j: "run_job r ctx c (s, w) = Some (err, (s, w1))"
    using assms(1) by (metis jobs_keep_store_def fst_conv)
  define st where "st = (if err = None then ''completed'' else ''failed'')"
  define s1 where "s1 = (case err of None \<Rightarrow> snd (complete (ClaimTenantID c) (ClaimRunID c) s)
    | Some e \<Rightarrow> snd (fail (ClaimTenantID c) (ClaimRunID c) e s))"
  have s1: "inv s1" "runs_of s1 = set_status (ClaimTenantID c) (ClaimRunID c) st (runs_of s)"
    using complete_spec [OF Cons.prems(1)] fail_spec [OF Cons.prems(1)]
    by (simp_all add: s1_def st_def split: option.split)
  have step: "process_claims r store ctx (c # cs) (s, w) = process_claims r store ctx cs (s1, w1)"
    using j assms(2,3) by (cases err) (simp_all add: s1_def)
  have nin: "ClaimRunID c \<notin> ClaimRunID ` set cs" using Cons.prems(2) by simp
  have "\<exists>q. runs_of s1 (ClaimRunID d) = Some q \<and> TenantID q = ClaimTenantID d" if d: "d \<in> set cs" for d
  proof -
    have "ClaimRunID d \<noteq> ClaimRunID c" using nin d by (metis image_eqI)
    then show ?thesis using Cons.prems(3) d by (simp add: s1(2) set_status_other)
  qed
  then obtain s' w' where fin: "process_claims r store ctx cs (s1, w1) = Some (s', w')" "inv s'"
    "settles cs (runs_of s1) (runs_of s')"
    using Cons.IH [OF s1(1), of w1] Cons.prems(2) by auto
  obtain q where "runs_of s (ClaimRunID c) = Some q" "TenantID q = ClaimTenantID c"
    using Cons.prems(3) by auto
  then have "settles (c # cs) (runs_of s) (runs_of s')"
    using fin(3) nin unfolding s1(2) by (intro settles_Cons) (auto simp: st_def)
  then show ?case using step fin by auto
qed simp

end

section \<open>Ticks and the waiting runs\<close>

definition waiting :: "(string \<Rightarrow> RunRecord option) \<Rightarrow> string set" where
  "waiting m = {i. \<exists>r. m i = Some r \<and> claimable r}"

lemma waiting_settles:
  assumes "settles cs m m'"
  shows "waiting m' = waiting m - ClaimRunID ` set cs"
proof -
  have "i \<notin> waiting m'" if "i \<in> ClaimRunID ` set cs" for i
  proof -
    obtain r st where "m' i = Some (r\<lparr>Status := st\<rparr>)" "st \<in> {''completed'', ''failed''}"
      using assms \<open>i \<in> ClaimRunID ` set cs\<close> unfolding settles_def by blast
    then show ?thesis by (auto simp: waiting_def claimable_def)
  qed
  moreover have "i \<in> waiting m' \<longleftrightarrow> i \<in> waiting m" if "i \<notin> ClaimRunID ` set cs" for i
    using assms that by (simp add: settles_def waiting_def)
  ultimately show ?thesis by blast
qed

text \<open>Between two states a run is either as before or went from waiting to an outcome.\<close>

definition outcome_step :: "RunRecord option \<Rightarrow> RunRecord option \<Rightarrow> bool" where
  "outcome_step x y \<longleftrightarrow> y = x \<or>
     (\<exists>r st. x = Some r \<and> claimable r \<and> st \<in> {''completed'', ''failed''} \<and> y = Some (r\<lparr>Status := st\<rparr>))"

definition progressed :: "(string \<Rightarrow> RunRecord option) \<Rightarrow> (string \<Rightarrow> RunRecord option) \<Rightarrow> bool" where
  "progressed m m' \<longleftrightarrow> (\<forall>i. outcome_step (m i) (m' i))"

lemma progressed_refl [simp]: "progressed m m"
  by (simp add: progressed_def outcome_step_def)

lemma outcome_step_trans:
  assumes "outcome_step x y" "outcome_step y z"
  shows "outcome_step x z"
proof (cases "y = x")
  case False
  then obtain r st where y: "x = Some r" "claimable r" "st \<in> {''completed'', ''failed''}" "y = Some (r\<lparr>Status := st\<rparr>)"
    using assms(1) unfolding outcome_step_def by blast
  then have "\<not> claimable (r\<lparr>Status := st\<rparr>)" by (auto simp: claimable_def)
  then have "z = y" using assms(2) y(4) by (auto simp: outcome_step_def)
  then show ?thesis using assms(1) by simp
qed (use assms in simp)

lemma progressed_trans: "progressed m m' \<Longrightarrow> progressed m' m'' \<Longrightarrow> progressed m m''"
  unfolding progressed_def using outcome_step_trans by blast

lemma mark_then_settles:
  assumes "settles cs (mark_processing (ClaimRunID ` set cs) m) m'"
    "\<forall>c \<in> set cs. \<exists>r. m (ClaimRunID c) = Some r"
  shows "settles cs m m'"
  unfolding settles_def
proof (intro conjI allI impI ballI)
  fix i assume "i \<notin> ClaimRunID ` set cs"
  then show "m' i = m i" using assms(1) by (simp add: settles_def mark_processing_def)
next
  fix c assume c: "c \<in> set cs"
  then obtain r where r: "m (ClaimRunID c) = Some r" using assms(2) by blast
  obtain q st where q: "mark_processing (ClaimRunID ` set cs) m (ClaimRunID c) = Some q"
    "st \<in> {''completed'', ''failed''}" "m' (ClaimRunID c) = Some (q\<lparr>Status := st\<rparr>)"
    using assms(1) c unfolding settles_def by blast
  have "q = r\<lparr>Status := ''processing''\<rparr>"
    using q(1) c r by (simp add: mark_processing_def)
  then have "m' (ClaimRunID c) = Some (r\<lparr>Status := st\<rparr>)" using q(3) by simp
  with q(2) r show "\<exists>r st. m (ClaimRunID c) = Some r \<and> st \<in> {''completed'', ''failed''} \<and> m' (ClaimRunID c) = Some (r\<lparr>Status := st\<rparr>)"
    by blast
qed

context run_queue
begin

lemma tick_settles:
  assumes "RunnerStore r = Some store" "ClaimRuns store = claim" "CompleteRun store = complete"
    "FailRun store = fail" "jobs_keep_store r" "inv s" "is_permuter rng"
  shows "\<exists>rs s' w'. tick r rng ctx (s, w) = Some (None, (s', w')) \<and> inv s' \<and>
    (\<forall>q \<in> set rs. claimable q \<and> runs_of s (RunID q) = Some q) \<and> distinct (map RunID rs) \<and>
    settles (map claim_of rs) (runs_of s) (runs_of s') \<and>
    (waiting (runs_of s) \<subseteq> RunID ` set rs \<or> length rs = claim_limit (MaxPerClaim r)) \<and>
    length rs \<le> claim_limit (MaxPerClaim r)"
proof -
  obtain rs s1 where c: "claim rng (MaxPerClaim r) s = (Inr (map claim_of rs), s1)"
    and d: "distinct (map RunID rs)" and le: "length rs \<le> claim_limit (MaxPerClaim r)"
    and q: "\<forall>r \<in> set rs. claimable r \<and> runs_of s (RunID r) = Some r"
    and full: "\<forall>q. claimable q \<longrightarrow> runs_of s (RunID q) = Some q \<longrightarrow> q \<notin> set rs \<longrightarrow>
         length rs = claim_limit (MaxPerClaim r) \<and> (\<forall>r' \<in> set rs. CreatedAt r' \<le> CreatedAt q)"
    and m: "runs_of s1 = mark_processing (RunID ` set rs) (runs_of s)" and i: "inv s1"
    using claim_spec [OF assms(6,7), of "MaxPerClaim r"] by blast
  have ids: "ClaimRunID ` set (map claim_of rs) = RunID ` set rs" "map ClaimRunID (map claim_of rs) = map RunID rs"
    by (auto simp: claim_of_def image_image)
  have "\<exists>x. runs_of s1 (ClaimRunID c) = Some x \<and> TenantID x = ClaimTenantID c" if "c \<in> set (map claim_of rs)" for c
    using that q by (auto simp: m mark_processing_def claim_of_def)
  then obtain s' w' where p: "process_claims r store ctx (map claim_of rs) (s1, w) = Some (s', w')" "inv s'"
    "settles (map claim_of rs) (runs_of s1) (runs_of s')"
    using process_claims_settles [OF assms(5,3,4) i, of "map claim_of rs" ctx w] d unfolding ids(2) by blast
  have set: "settles (map claim_of rs) (runs_of s) (runs_of s')"
  proof (rule mark_then_settles)
    show "settles (map claim_of rs) (mark_processing (ClaimRunID ` set (map claim_of rs)) (runs_of s)) (runs_of s')"
      using p(3) unfolding m ids(1) .
    show "\<forall>c \<in> set (map claim_of rs). \<exists>r. runs_of s (ClaimRunID c) = Some r"
      using q by (auto simp: claim_of_def)
  qed
  have tick: "tick r rng ctx (s, w) = Some (None, (s', w'))"
    using assms(1,2) c p(1) by (simp add: tick_def)
  have all: "waiting (runs_of s) \<subseteq> RunID ` set rs \<or> length rs = claim_limit (MaxPerClaim r)"
  proof (rule disjCI, rule subsetI)
    fix j assume len: "length rs \<noteq> claim_limit (MaxPerClaim r)" and "j \<in> waiting (runs_of s)"
    then obtain x where x: "runs_of s j = Some x" "claimable x" by (auto simp: waiting_def)
    then have "RunID x = j" using run_key [OF assms(6)] by blast
    with x full len have "x \<in> set rs" by blast
    with \<open>RunID x = j\<close> show "j \<in> RunID ` set rs" by blast
  qed
  show ?thesis
    using tick p(2) q d set all le by (intro exI [of _ rs] exI [of _ s'] exI [of _ w'] conjI)
qed

lemma tick_progress:
  assumes "RunnerStore r = Some store" "ClaimRuns store = claim" "CompleteRun store = complete"
    "FailRun store = fail" "jobs_keep_store r" "inv s" "is_permuter rng" "finite (waiting (runs_of s))"
  shows "\<exists>s' w'. tick r rng ctx (s, w) = Some (None, (s', w')) \<and> inv s' \<and>
    progressed (runs_of s) (runs_of s') \<and> waiting (runs_of s') \<subseteq> waiting (runs_of s) \<and>
    card (waiting (runs_of s')) = card (waiting (runs_of s)) - claim_limit (MaxPerClaim r)"
proof -
  obtain rs s' w' where t: "tick r rng ctx (s, w) = Some (None, (s', w'))" "inv s'"
    and q: "\<forall>q \<in> set rs. claimable q \<and> runs_of s (RunID q) = Some q" and d: "distinct (map RunID rs)"
    and set: "settles (map claim_of rs) (runs_of s) (runs_of s')"
    and full: "waiting (runs_of s) \<subseteq> RunID ` set rs \<or> length rs = claim_limit (MaxPerClaim r)"
    and le: "length rs \<le> claim_limit (MaxPerClaim r)"
    using tick_settles [OF assms(1-7), of ctx w] by blast
  have ids: "ClaimRunID ` set (map claim_of rs) = RunID ` set rs" by (auto simp: claim_of_def image_image)
  have w: "waiting (runs_of s') = waiting (runs_of s) - RunID ` set rs"
    using waiting_settles [OF set] unfolding ids .
  have sub: "RunID ` set rs \<subseteq> waiting (runs_of s)" using q by (auto simp: waiting_def)
  have card: "card (RunID ` set rs) = length rs" using d by (metis distinct_card length_map set_map)
  have "card (waiting (runs_of s')) = card (waiting (runs_of s)) - length rs"
    unfolding w using card_Diff_subset [OF finite_imageI [OF finite_set] sub] card by simp
  moreover have "length rs = claim_limit (MaxPerClaim r) \<or> card (waiting (runs_of s)) = length rs"
    using full sub card by (metis subset_antisym)
  ultimately have "card (waiting (runs_of s')) = card (waiting (runs_of s)) - claim_limit (MaxPerClaim r)"
    using le by auto
  moreover have "progressed (runs_of s) (runs_of s')"
    unfolding progressed_def
  proof
    fix i
    show "outcome_step (runs_of s i) (runs_of s' i)"
    proof (cases "i \<in> RunID ` set rs")
      case True
      then obtain x where x: "x \<in> set rs" "RunID x = i" by blast
      then have "claim_of x \<in> set (map claim_of rs)" "ClaimRunID (claim_of x) = i" by (simp, simp add: claim_of_def)
      then have "\<exists>r st. runs_of s i = Some r \<and> st \<in> {''completed'', ''failed''} \<and> runs_of s' i = Some (r\<lparr>Status := st\<rparr>)"
        using set unfolding settles_def by blast
      moreover have "runs_of s i = Some x" "claimable x" using q x by blast+
      ultimately show ?thesis unfolding outcome_step_def by auto
    next
      case False
      then show ?thesis using set unfolding settles_def ids outcome_step_def by blast
    qed
  qed
  ultimately show ?thesis using t w by blast
qed

text \<open>Enough ticks empty the queue.\<close>

lemma run_loop_drains:
  assumes "RunnerStore r = Some store" "ClaimRuns store = claim" "CompleteRun store = complete"
    "FailRun store = fail" "jobs_keep_store r" "\<forall>p \<in> set ps. is_permuter p"
    "inv s" "finite (waiting (runs_of s))"
    "card (waiting (runs_of s)) \<le> length ps * claim_limit (MaxPerClaim r)"
  shows "\<exists>s' w'. run_loop r ctx (map Tick ps) (s, w) = Waiting (s', w') \<and> inv s' \<and>
    progressed (runs_of s) (runs_of s') \<and> waiting (runs_of s') = {}"
  using assms(6-9)
proof (induction ps arbitrary: s w)
  case Nil
  then show ?case by simp
next
  case (Cons p ps)
  obtain s1 w1 where t: "tick r p ctx (s, w) = Some (None, (s1, w1))" "inv s1"
    "progressed (runs_of s) (runs_of s1)" "waiting (runs_of s1) \<subseteq> waiting (runs_of s)"
    "card (waiting (runs_of s1)) = card (waiting (runs_of s)) - claim_limit (MaxPerClaim r)"
    using tick_progress [OF assms(1-5) Cons.prems(2) _ Cons.prems(3), of p ctx w] Cons.prems(1) by auto
  have fin: "finite (waiting (runs_of s1))" using t(4) Cons.prems(3) by (rule finite_subset)
  have le: "card (waiting (runs_of s1)) \<le> length ps * claim_limit (MaxPerClaim r)"
    using Cons.prems(4) t(5) by simp
  obtain s' w' where "run_loop r ctx (map Tick ps) (s1, w1) = Waiting (s', w')" "inv s'"
    "progressed (runs_of s1) (runs_of s')" "waiting (runs_of s') = {}"
    using Cons.IH [OF _ t(2) fin le, of w1] Cons.prems(1) by auto
  then show ?case using t(1) progressed_trans [OF t(3)] by auto
qed

end

section \<open>The calls of the hook\<close>

definition job_ctx :: "Context \<Rightarrow> RunRecord \<Rightarrow> Context" where
  "job_ctx ctx r = WithRunID (WithTenant ctx (TenantID r)) (RunID r)"

text \<open>The arguments of the hook for a claimed run: its context, its record as stored while it is
  processed, and its enqueued products.\<close>

definition hook_call ::
  "ProductProcessResult permuter \<Rightarrow> int \<Rightarrow> Context \<Rightarrow> 'b MemoryStore \<Rightarrow> RunRecord \<Rightarrow>
   Context \<times> RunRecord \<times> ProductProcessResult list" where
  "hook_call rng limit ctx s r =
     (job_ctx ctx r, r\<lparr>Status := ''processing''\<rparr>,
      filter (\<lambda>p. ResDisposition p = ''enqueued'')
        (loaded_products rng s (RunID r) (if limit \<le> 0 then 100000 else limit)))"

text \<open>A hook with answers \<open>f\<close> that records its calls.\<close>

definition logging_hook ::
  "(Context \<times> RunRecord \<times> ProductProcessResult list \<Rightarrow> go_error option) \<Rightarrow> Context \<Rightarrow> RunRecord \<Rightarrow>
   ProductProcessResult list \<Rightarrow> (Context \<times> RunRecord \<times> ProductProcessResult list) list \<Rightarrow>
   go_error option \<times> (Context \<times> RunRecord \<times> ProductProcessResult list) list" where
  "logging_hook f ctx r ps log = (f (ctx, r, ps), log @ [(ctx, r, ps)])"

lemma loaded_products_cong: "runProducts s = runProducts s' \<Longrightarrow> loaded_products rng s i l = loaded_products rng s' i l"
  by (simp add: loaded_products_def mem_ListRunProducts_def)

lemma hook_call_cong: "runProducts s = runProducts s' \<Longrightarrow> hook_call rng l ctx s r = hook_call rng l ctx s' r"
  by (simp only: hook_call_def loaded_products_cong [of s s'])

lemma runProducts_set_status [simp]: "runProducts (snd (mem_set_status st t i s)) = runProducts s"
  by (simp add: mem_set_status_def split: option.split)

lemma runProducts_ClaimRuns [simp]: "runProducts (snd (mem_ClaimRuns p l s)) = runProducts s"
proof -
  have "runProducts (fold mark_claimed rs s) = runProducts s" for rs
    by (induction rs arbitrary: s) (simp_all add: mark_claimed_def)
  then show ?thesis by (simp add: mem_ClaimRuns_pick)
qed

text \<open>One claimed run: the hook is called and the run is settled by its answer.\<close>

lemma process_claims_step:
  assumes "RunnerExecutor r = Some (Execute \<lparr>ExecStore = Some memory_Store, ProductLimit = l,
      OnExecute = Some (logging_hook f)\<rparr> rng)"
    "map_of (runs s) (RunID q) = Some (q\<lparr>Status := ''processing''\<rparr>)" "RunID q \<noteq> ''''" "TenantID q \<noteq> 0"
  shows "process_claims r memory_Store ctx (claim_of q # cs) (s, log) =
    process_claims r memory_Store ctx cs
      (snd (mem_set_status (if f (hook_call rng l ctx s q) = None then ''completed'' else ''failed'') (TenantID q) (RunID q) s),
       log @ [hook_call rng l ctx s q])"
proof -
  let ?call = "hook_call rng l ctx s q"
  have job: "run_job r ctx (claim_of q) (s, log) = Some (f ?call, (s, log @ [?call]))"
    unfolding run_job_def assms(1) Let_def claim_of_def
    using Execute_memory [OF _ assms(3,4,2), where e = "\<lparr>ExecStore = Some memory_Store, ProductLimit = l,
      OnExecute = Some (logging_hook f)\<rparr>"]
    by (simp add: hook_call_def logging_hook_def job_ctx_def)
  then show ?thesis
    by (cases "f ?call") (simp_all add: claim_of_def mem_CompleteRun_def mem_FailRun_def)
qed

lemma process_claims_log:
  assumes "RunnerExecutor r = Some (Execute \<lparr>ExecStore = Some memory_Store, ProductLimit = l,
      OnExecute = Some (logging_hook f)\<rparr> rng)"
    "wf_store s" "distinct (map RunID qs)"
    "\<forall>q \<in> set qs. RunID q \<noteq> '''' \<and> TenantID q \<noteq> 0 \<and> map_of (runs s) (RunID q) = Some (q\<lparr>Status := ''processing''\<rparr>)"
  shows "\<exists>s'. process_claims r memory_Store ctx (map claim_of qs) (s, log) =
      Some (s', log @ map (hook_call rng l ctx s) qs) \<and> wf_store s' \<and>
    (\<forall>i. i \<notin> RunID ` set qs \<longrightarrow> map_of (runs s') i = map_of (runs s) i) \<and>
    (\<forall>q \<in> set qs. map_of (runs s') (RunID q) = Some (q\<lparr>Status :=
       if f (hook_call rng l ctx s q) = None then ''completed'' else ''failed''\<rparr>))"
  using assms(2-4)
proof (induction qs arbitrary: s log)
  case (Cons q qs)
  define call where "call = hook_call rng l ctx s q"
  define st where "st = (if f call = None then ''completed'' else ''failed'')"
  define s1 where "s1 = snd (mem_set_status st (TenantID q) (RunID q) s)"
  have run: "map_of (runs s) (RunID q) = Some (q\<lparr>Status := ''processing''\<rparr>)"
    and ids: "RunID q \<noteq> ''''" "TenantID q \<noteq> 0" using Cons.prems(3) by simp_all
  have step: "process_claims r memory_Store ctx (map claim_of (q # qs)) (s, log) =
      process_claims r memory_Store ctx (map claim_of qs) (s1, log @ [call])"
    using process_claims_step [OF assms(1) run ids] by (simp add: s1_def st_def call_def)
  have wf1: "wf_store s1" unfolding s1_def by (rule wf_store_set_status [OF Cons.prems(1)])
  have m1: "map_of (runs s1) = (map_of (runs s))(RunID q \<mapsto> q\<lparr>Status := st\<rparr>)"
    using run by (simp add: s1_def mem_set_status_def)
  have nin: "RunID q \<notin> RunID ` set qs" using Cons.prems(2) by simp
  have rest: "\<forall>x \<in> set qs. RunID x \<noteq> '''' \<and> TenantID x \<noteq> 0 \<and>
      map_of (runs s1) (RunID x) = Some (x\<lparr>Status := ''processing''\<rparr>)"
  proof
    fix x assume x: "x \<in> set qs"
    then have "RunID x \<noteq> RunID q" using nin by (metis image_eqI)
    then show "RunID x \<noteq> '''' \<and> TenantID x \<noteq> 0 \<and> map_of (runs s1) (RunID x) = Some (x\<lparr>Status := ''processing''\<rparr>)"
      using Cons.prems(3) x by (simp add: m1)
  qed
  have calls: "hook_call rng l ctx s1 = hook_call rng l ctx s"
    by (rule ext, rule hook_call_cong) (simp add: s1_def)
  have dist: "distinct (map RunID qs)" using Cons.prems(2) by simp
  obtain s' where s': "process_claims r memory_Store ctx (map claim_of qs) (s1, log @ [call]) =
      Some (s', (log @ [call]) @ map (hook_call rng l ctx s) qs)" "wf_store s'"
    "\<forall>i. i \<notin> RunID ` set qs \<longrightarrow> map_of (runs s') i = map_of (runs s1) i"
    "\<forall>q \<in> set qs. map_of (runs s') (RunID q) = Some (q\<lparr>Status :=
       if f (hook_call rng l ctx s q) = None then ''completed'' else ''failed''\<rparr>)"
    using Cons.IH [OF wf1 dist rest, of "log @ [call]"] unfolding calls by blast
  have hd: "map_of (runs s') (RunID q) = Some (q\<lparr>Status := st\<rparr>)"
    using s'(3) nin by (simp add: m1)
  have "map_of (runs s') i = map_of (runs s) i" if "i \<notin> RunID ` set (q # qs)" for i
    using s'(3) that by (simp add: m1)
  moreover have "\<forall>x \<in> set (q # qs). map_of (runs s') (RunID x) = Some (x\<lparr>Status :=
       if f (hook_call rng l ctx s x) = None then ''completed'' else ''failed''\<rparr>)"
  proof
    fix x assume "x \<in> set (q # qs)"
    then consider "x = q" | "x \<in> set qs" by auto
    then show "map_of (runs s') (RunID x) = Some (x\<lparr>Status :=
       if f (hook_call rng l ctx s x) = None then ''completed'' else ''failed''\<rparr>)"
      using hd s'(4) by cases (simp_all only: st_def call_def)
  qed
  moreover have "process_claims r memory_Store ctx (map claim_of (q # qs)) (s, log) =
      Some (s', log @ map (hook_call rng l ctx s) (q # qs))"
    unfolding step s'(1) by (simp add: call_def)
  ultimately show ?case using s'(2) by blast
qed simp

section \<open>Properties\<close>

lemma claim_pick_full:
  assumes "wf_store s" "is_permuter p"
  shows "waiting (map_of (runs s)) \<subseteq> RunID ` set (claim_pick p limit s) \<or> length (claim_pick p limit s) = claim_limit limit"
proof (rule disjCI, rule subsetI)
  fix j
  assume len: "length (claim_pick p limit s) \<noteq> claim_limit limit" and "j \<in> waiting (map_of (runs s))"
  then obtain x where x: "map_of (runs s) j = Some x" "claimable x" by (auto simp: waiting_def)
  then have j: "RunID x = j" using mem_queue.run_key [OF assms(1)] by blast
  with x have "x \<in> set (claim_pick p limit s)" using claim_pick_oldest [OF assms x(2), where limit = limit] len by blast
  with j show "j \<in> RunID ` set (claim_pick p limit s)" by blast
qed

lemma tick_calls_hook:
  assumes "wf_store s" "is_permuter p" "map_of (runs s) '''' = None"
  shows "\<exists>rs s'. tick \<lparr>RunnerStore = Some memory_Store, PollEvery = poll, ClaimTTL = ttl, MaxPerClaim = limit,
        ProcessFn = pf, RunnerExecutor = Some (Execute \<lparr>ExecStore = Some memory_Store, ProductLimit = l,
          OnExecute = Some (logging_hook f)\<rparr> rng)\<rparr> p ctx (s, log) =
      Some (None, (s', log @ map (hook_call rng l ctx s) rs)) \<and> wf_store s' \<and>
    distinct (map RunID rs) \<and> sorted (map CreatedAt rs) \<and>
    (\<forall>r \<in> set rs. claimable r \<and> map_of (runs s) (RunID r) = Some r \<and>
       map_of (runs s') (RunID r) =
         Some (r\<lparr>Status := if f (hook_call rng l ctx s r) = None then ''completed'' else ''failed''\<rparr>)) \<and>
    (\<forall>i. i \<notin> RunID ` set rs \<longrightarrow> map_of (runs s') i = map_of (runs s) i) \<and>
    (waiting (map_of (runs s)) \<subseteq> RunID ` set rs \<or> length rs = claim_limit limit) \<and>
    length rs \<le> claim_limit limit \<and>
    (\<forall>r. claimable r \<and> map_of (runs s) (RunID r) = Some r \<and> r \<notin> set rs \<longrightarrow>
       length rs = claim_limit limit \<and> (\<forall>r' \<in> set rs. CreatedAt r' \<le> CreatedAt r))"
proof -
  let ?r = "\<lparr>RunnerStore = Some memory_Store, PollEvery = poll, ClaimTTL = ttl, MaxPerClaim = limit,
        ProcessFn = pf, RunnerExecutor = Some (Execute \<lparr>ExecStore = Some memory_Store, ProductLimit = l,
          OnExecute = Some (logging_hook f)\<rparr> rng)\<rparr>"
  define rs where "rs = claim_pick p limit s"
  define s1 where "s1 = fold mark_claimed rs s"
  note props = claim_pick_props [OF assms(1,2), where limit = limit, folded rs_def]
  have m1: "map_of (runs s1) = mark_processing (RunID ` set rs) (map_of (runs s))"
    unfolding s1_def using props(1,4) by (intro runs_fold_mark) auto
  have wf1: "wf_store s1" unfolding s1_def by (rule wf_store_fold_mark [OF assms(1)])
  have claim: "mem_ClaimRuns p limit s = (Inr (map claim_of rs), s1)"
    by (simp add: mem_ClaimRuns_pick rs_def s1_def)
  have calls: "hook_call rng l ctx s1 = hook_call rng l ctx s"
    using runProducts_ClaimRuns [of p limit s] claim by (intro ext hook_call_cong) simp
  have pre: "\<forall>q \<in> set rs. RunID q \<noteq> '''' \<and> TenantID q \<noteq> 0 \<and>
      map_of (runs s1) (RunID q) = Some (q\<lparr>Status := ''processing''\<rparr>)"
  proof
    fix q assume q: "q \<in> set rs"
    note c = props(4) [OF q]
    then show "RunID q \<noteq> '''' \<and> TenantID q \<noteq> 0 \<and> map_of (runs s1) (RunID q) = Some (q\<lparr>Status := ''processing''\<rparr>)"
      using assms(3) q by (auto simp: m1 mark_processing_def claimable_def)
  qed
  have ex: "RunnerExecutor ?r = Some (Execute \<lparr>ExecStore = Some memory_Store, ProductLimit = l,
      OnExecute = Some (logging_hook f)\<rparr> rng)" by simp
  from process_claims_log [OF ex wf1 props(1) pre, of ctx log, unfolded calls]
  obtain s' where s': "process_claims ?r memory_Store ctx (map claim_of rs) (s1, log) =
      Some (s', log @ map (hook_call rng l ctx s) rs)" "wf_store s'"
    "\<forall>i. i \<notin> RunID ` set rs \<longrightarrow> map_of (runs s') i = map_of (runs s1) i"
    "\<forall>q \<in> set rs. map_of (runs s') (RunID q) = Some (q\<lparr>Status :=
       if f (hook_call rng l ctx s q) = None then ''completed'' else ''failed''\<rparr>)" by blast
  have "waiting (map_of (runs s)) \<subseteq> RunID ` set rs \<or> length rs = claim_limit limit"
    unfolding rs_def by (rule claim_pick_full [OF assms(1,2)])
  moreover have "tick ?r p ctx (s, log) = Some (None, (s', log @ map (hook_call rng l ctx s) rs))"
    using claim s'(1) by (simp add: tick_def)
  moreover have "\<forall>i. i \<notin> RunID ` set rs \<longrightarrow> map_of (runs s') i = map_of (runs s) i"
    using s'(3) by (simp add: m1 mark_processing_def)
  moreover have "\<forall>r \<in> set rs. claimable r \<and> map_of (runs s) (RunID r) = Some r \<and>
       map_of (runs s') (RunID r) =
         Some (r\<lparr>Status := if f (hook_call rng l ctx s r) = None then ''completed'' else ''failed''\<rparr>)"
    using s'(4) props(4) by blast
  moreover have "\<forall>r. claimable r \<and> map_of (runs s) (RunID r) = Some r \<and> r \<notin> set rs \<longrightarrow>
       length rs = claim_limit limit \<and> (\<forall>r' \<in> set rs. CreatedAt r' \<le> CreatedAt r)"
    using claim_pick_oldest [OF assms(1,2)] unfolding rs_def by blast
  ultimately show ?thesis
    using props(1,2,3) s'(2) by (intro exI [of _ rs] exI [of _ s'] conjI)
qed

text \<open>(C3) One pass of the worker: a tick over the memory store claims the oldest waiting runs, calls
  the executor's hook exactly once per claimed run, in claim order, with the job's context, the
  run and its enqueued products, and then marks the run completed when the hook succeeded and
  failed otherwise; every other run is left as it was. No more runs are claimed than the limit allows,
  and a waiting run is left out only when the batch is full and every claimed run is at least as old.\<close>

theorem worker_tick_spec:
  assumes "wf_store s" "is_permuter p" "map_of (runs s) '''' = None"
  shows "\<exists>rs s'. tick \<lparr>RunnerStore = Some memory_Store, PollEvery = poll, ClaimTTL = ttl, MaxPerClaim = limit,
        ProcessFn = pf, RunnerExecutor = Some (Execute \<lparr>ExecStore = Some memory_Store, ProductLimit = l,
          OnExecute = Some (logging_hook f)\<rparr> rng)\<rparr> p ctx (s, log) =
      Some (None, (s', log @ map (hook_call rng l ctx s) rs)) \<and> wf_store s' \<and>
    distinct (map RunID rs) \<and> sorted (map CreatedAt rs) \<and>
    (\<forall>r \<in> set rs. claimable r \<and> map_of (runs s) (RunID r) = Some r \<and>
       map_of (runs s') (RunID r) =
         Some (r\<lparr>Status := if f (hook_call rng l ctx s r) = None then ''completed'' else ''failed''\<rparr>)) \<and>
    (\<forall>i. i \<notin> RunID ` set rs \<longrightarrow> map_of (runs s') i = map_of (runs s) i) \<and>
    (waiting (map_of (runs s)) \<subseteq> RunID ` set rs \<or> length rs = claim_limit limit) \<and>
    length rs \<le> claim_limit limit \<and>
    (\<forall>r. claimable r \<and> map_of (runs s) (RunID r) = Some r \<and> r \<notin> set rs \<longrightarrow>
       length rs = claim_limit limit \<and> (\<forall>r' \<in> set rs. CreatedAt r' \<le> CreatedAt r))"
  using assms by (rule tick_calls_hook)

theorem worker_tick_spec_witness:
  "\<exists>s'. tick \<lparr>RunnerStore = Some memory_Store, PollEvery = 0, ClaimTTL = 0, MaxPerClaim = 1,
        ProcessFn = None, RunnerExecutor = Some (Execute \<lparr>ExecStore = Some memory_Store, ProductLimit = 0,
          OnExecute = Some (logging_hook (\<lambda>c. Some ''down''))\<rparr> rev)\<rparr> rev Background (sample_store, []) =
      Some (None, (s', [hook_call rev 0 Background sample_store (sample_run ''r1'' 1 10)])) \<and>
     map_option Status (map_of (runs s') ''r1'') = Some ''failed'' \<and>
     map_of (runs s') ''r2'' = Some (sample_run ''r2'' 2 20)"
proof -
  let ?r1 = "sample_run ''r1'' 1 10" and ?r2 = "sample_run ''r2'' 2 20"
  have none: "map_of (runs sample_store) '''' = None" by (simp add: runs_sample_store)
  obtain rs s' where t: "tick \<lparr>RunnerStore = Some memory_Store, PollEvery = 0, ClaimTTL = 0, MaxPerClaim = 1,
        ProcessFn = None, RunnerExecutor = Some (Execute \<lparr>ExecStore = Some memory_Store, ProductLimit = 0,
          OnExecute = Some (logging_hook (\<lambda>c. Some ''down''))\<rparr> rev)\<rparr> rev Background (sample_store, []) =
      Some (None, (s', [] @ map (hook_call rev 0 Background sample_store) rs))"
    and r: "\<forall>r \<in> set rs. claimable r \<and> map_of (runs sample_store) (RunID r) = Some r \<and>
       map_of (runs s') (RunID r) =
         Some (r\<lparr>Status := if (\<lambda>c. Some ''down'') (hook_call rev 0 Background sample_store r) = None then ''completed'' else ''failed''\<rparr>)"
    and other: "\<forall>i. i \<notin> RunID ` set rs \<longrightarrow> map_of (runs s') i = map_of (runs sample_store) i"
    and len: "length rs \<le> claim_limit 1"
    and left: "\<forall>r. claimable r \<and> map_of (runs sample_store) (RunID r) = Some r \<and> r \<notin> set rs \<longrightarrow>
       length rs = claim_limit 1 \<and> (\<forall>r' \<in> set rs. CreatedAt r' \<le> CreatedAt r)"
    using worker_tick_spec [OF wf_sample_store permuter_rev none, of 0 0 1 None 0 "\<lambda>c. Some ''down''" rev Background "[]"]
    by blast
  have two: "claimable ?r1" "map_of (runs sample_store) (RunID ?r1) = Some ?r1"
    "claimable ?r2" "map_of (runs sample_store) (RunID ?r2) = Some ?r2"
    by (simp_all add: runs_sample_store sample_run_def claimable_def)
  have "x = ?r1 \<or> x = ?r2" if "x \<in> set rs" for x
    using r that by (auto simp: runs_sample_store split: if_splits)
  then have "set rs \<subseteq> {?r1, ?r2}" by blast
  moreover have "?r1 \<in> set rs"
  proof (rule ccontr)
    assume no: "?r1 \<notin> set rs"
    then have "length rs = 1" "\<forall>r' \<in> set rs. CreatedAt r' \<le> CreatedAt ?r1"
      using left two(1,2) by (auto simp: claim_limit_def)
    with no \<open>set rs \<subseteq> {?r1, ?r2}\<close> show False by (auto simp: length_Suc_conv sample_run_def)
  qed
  ultimately have rs: "rs = [?r1]"
    using len by (cases rs) (auto simp: claim_limit_def)
  then have "map_of (runs s') ''r2'' = Some ?r2"
    using other by (simp add: runs_sample_store sample_run_def)
  moreover have "map_of (runs s') ''r1'' = Some (?r1\<lparr>Status := ''failed''\<rparr>)"
    using r rs by (simp add: sample_run_def)
  ultimately show ?thesis using t rs by (intro exI [of _ s']) simp
qed

text \<open>The wiring of \<open>cmd/worker/main.go\<close>: an executor without a hook, polled every second.\<close>

definition worker_main_runner ::
  "('s, 'b) Store \<Rightarrow> ProductProcessResult permuter \<Rightarrow> ('s, 'w, 'b) Runner" where
  "worker_main_runner store rng =
     (let exec = \<lparr>ExecStore = Some store, ProductLimit = 0, OnExecute = None\<rparr>
      in \<lparr>RunnerStore = Some store, PollEvery = 1000000000, ClaimTTL = 0, MaxPerClaim = 10,
          ProcessFn = None, RunnerExecutor = Some (Execute exec rng)\<rparr>)"

lemma with_defaults_simps [simp]:
  "RunnerStore (with_defaults r) = RunnerStore r" "RunnerExecutor (with_defaults r) = RunnerExecutor r"
  "claim_limit (MaxPerClaim (with_defaults r)) = claim_limit (MaxPerClaim r)"
  by (simp_all add: with_defaults_def Let_def claim_limit_def)

lemma jobs_keep_store_defaults:
  assumes "RunnerExecutor r = Some (Execute e rng)"
  shows "jobs_keep_store (with_defaults r)"
proof -
  have "jobs_keep_store (with_defaults r) = jobs_keep_store (with_defaults r\<lparr>RunnerExecutor := Some (Execute e rng)\<rparr>)"
    using assms by (simp add: jobs_keep_store_def run_job_def)
  then show ?thesis by (simp add: jobs_keep_store_Execute)
qed

lemma finite_waiting: "finite (waiting (map_of m))"
proof -
  have "waiting (map_of m) \<subseteq> dom (map_of m)" by (auto simp: waiting_def)
  then show ?thesis using finite_dom_map_of by (rule finite_subset)
qed

context run_queue
begin

lemma Run_drains:
  assumes "RunnerStore r = Some store" "ClaimRuns store = claim" "CompleteRun store = complete" "FailRun store = fail"
    "RunnerExecutor r = Some (Execute e rng)" "is_permuter p" "\<forall>q \<in> set ps. is_permuter q" "inv s" "finite (waiting (runs_of s))"
    "card (waiting (runs_of s)) \<le> (1 + length ps) * claim_limit (MaxPerClaim r)"
  shows "\<exists>s' w'. Run r ctx p (map Tick ps) (s, w) = Waiting (s', w') \<and> waiting (runs_of s') = {} \<and>
    (\<forall>i x. runs_of s i = Some x \<longrightarrow>
       (if claimable x then \<exists>st \<in> {''completed'', ''failed''}. runs_of s' i = Some (x\<lparr>Status := st\<rparr>)
        else runs_of s' i = Some x))"
proof -
  have ps: "\<forall>q \<in> set (p # ps). is_permuter q" using assms(6,7) by simp
  have "RunnerStore (with_defaults r) = Some store" using assms(1) by simp
  note drains = run_loop_drains [OF this assms(2-4) jobs_keep_store_defaults [OF assms(5)] ps assms(8,9)]
  obtain s' w' where l: "run_loop (with_defaults r) ctx (map Tick (p # ps)) (s, w) = Waiting (s', w')"
    and pr: "progressed (runs_of s) (runs_of s')" and none: "waiting (runs_of s') = {}"
    using drains [of ctx w] assms(10) by auto
  have "if claimable x then \<exists>st \<in> {''completed'', ''failed''}. runs_of s' i = Some (x\<lparr>Status := st\<rparr>)
      else runs_of s' i = Some x" if x: "runs_of s i = Some x" for i x
  proof -
    have step: "outcome_step (Some x) (runs_of s' i)" using pr x by (metis progressed_def)
    have "\<not> (claimable x \<and> runs_of s' i = Some x)" using none by (auto simp: waiting_def)
    then show ?thesis using step unfolding outcome_step_def by auto
  qed
  moreover have "Run r ctx p (map Tick ps) (s, w) = Waiting (s', w')"
    using l assms(1) by (simp add: Run_def)
  ultimately show ?thesis using none by blast
qed

end

text \<open>(C10) The worker drains the queue: when no new runs arrive, a runner over the memory store whose
  ticks have together room for all waiting runs keeps running, ends with no run waiting, has
  turned every run that was waiting into a completed or failed one, and has touched no other run.\<close>

theorem worker_drains_queue:
  assumes "wf_store s" "is_permuter p" "\<forall>q \<in> set ps. is_permuter q"
    "RunnerStore r = Some memory_Store" "RunnerExecutor r = Some (Execute e rng)"
    "card (waiting (map_of (runs s))) \<le> (1 + length ps) * claim_limit (MaxPerClaim r)"
  shows "\<exists>s' w'. Run r ctx p (map Tick ps) (s, w) = Waiting (s', w') \<and> waiting (map_of (runs s')) = {} \<and>
    (\<forall>i x. map_of (runs s) i = Some x \<longrightarrow>
       (if claimable x then \<exists>st \<in> {''completed'', ''failed''}. map_of (runs s') i = Some (x\<lparr>Status := st\<rparr>)
        else map_of (runs s') i = Some x))"
  using mem_queue.Run_drains [OF assms(4) _ _ _ assms(5,2,3,1) finite_waiting assms(6)] by simp

theorem worker_drains_queue_witness:
  "\<exists>s' w'. Run (worker_main_runner memory_Store rev) Background rev [] (sample_store, ()) = Waiting (s', w') \<and>
     waiting (map_of (runs s')) = {}"
proof -
  have "waiting (map_of (runs sample_store)) \<subseteq> {''r1'', ''r2''}"
    by (auto simp: waiting_def runs_sample_store split: if_splits)
  then have "card (waiting (map_of (runs sample_store))) \<le> card {''r1'', ''r2''}"
    by (intro card_mono) simp_all
  then have "card (waiting (map_of (runs sample_store))) \<le>
      (1 + length []) * claim_limit (MaxPerClaim (worker_main_runner memory_Store rev :: (unit MemoryStore, unit, unit) Runner))"
    by (simp add: worker_main_runner_def claim_limit_def)
  from worker_drains_queue [OF wf_sample_store permuter_rev _ _ _ this,
      of "\<lparr>ExecStore = Some memory_Store, ProductLimit = 0, OnExecute = None\<rparr>" rev Background "()"]
  show ?thesis by (auto simp: worker_main_runner_def Let_def)
qed

text \<open>(C36) The worker stops only when it is told to: over the memory store \<open>Run\<close> never panics, and it
  returns exactly when its context ends, with the context's error, whatever the hook answers.\<close>

fun first_done :: "run_event list \<Rightarrow> go_error option" where
  "first_done [] = None"
| "first_done (Done e # es) = Some e"
| "first_done (Tick p # es) = first_done es"



end
