(* ===== verification/Pipeline.thy ===== *)
theory Pipeline
  imports Server Worker
begin

text \<open>
  From the API to the worker: what happens to the changes of one upsert when a worker passes, and
  what holds of the records after any sequence of requests and passes over one memory store.
\<close>

section \<open>The service as a state machine\<close>

text \<open>The server and a worker on one store: either serves a request, with the choices the runtime makes,
  or passes once over the queue. \<open>cmd/worker\<close> always runs the executor.\<close>

datatype 'w service_event =
  Serve Runtime Request
| Pass "(body MemoryStore, 'w, body) Runner" "RunRecord permuter" Context 'w

inductive service_step ::
  "(body MemoryStore, 'k) ApiConfig \<Rightarrow> body MemoryStore \<Rightarrow> 'w service_event \<Rightarrow> body MemoryStore \<Rightarrow> bool" for cfg where
  serve: "service_step cfg s (Serve rt r) (snd (api_root cfg rt r s))"
| pass: "RunnerStore runner = Some (ApiStore cfg) \<Longrightarrow> RunnerExecutor runner = Some (Execute (e :: (body MemoryStore, 'w, body) Executor) rng) \<Longrightarrow>
    is_permuter p \<Longrightarrow>
    tick runner p ctx (s, w) = Some (err, (s', w')) \<Longrightarrow> service_step cfg s (Pass runner p ctx w) s'"

inductive service_trace ::
  "(body MemoryStore, 'k) ApiConfig \<Rightarrow> body MemoryStore \<Rightarrow> 'w service_event list \<Rightarrow> body MemoryStore \<Rightarrow> bool" for cfg where
  trace_Nil: "service_trace cfg s [] s"
| trace_Cons: "service_step cfg s e s1 \<Longrightarrow> service_trace cfg s1 es s2 \<Longrightarrow> service_trace cfg s (e # es) s2"

section \<open>One upsert and one pass\<close>

lemma waiting_insert:
  assumes "waiting m = {}"
  shows "waiting (m(i \<mapsto> r)) = (if claimable r then {i} else {})"
  using assms by (auto simp: waiting_def split: if_splits)

lemma hook_call_products:
  assumes "is_permuter rng" "map_of (runProducts s) (RunID r) = Some ps" "length ps \<le> 100000"
  obtains qs where "hook_call rng 0 ctx s r = (job_ctx ctx r, r\<lparr>Status := ''processing''\<rparr>, qs)"
    "mset qs = filter_mset (\<lambda>p. ResDisposition p = ''enqueued'') (mset ps)"
  using loaded_products_mset [OF assms(1) _ assms(2), of 100000] assms(3) that
  by (simp add: hook_call_def)

text \<open>Runs that ended are not waiting any more.\<close>

lemma waiting_after:
  assumes "\<forall>x \<in> set rs. \<exists>st \<in> {''completed'', ''failed''}. m' (RunID x) = Some (x\<lparr>Status := st\<rparr>)"
    "\<forall>j. j \<notin> RunID ` set rs \<longrightarrow> m' j = m j"
  shows "waiting m' \<subseteq> waiting m - RunID ` set rs"
proof
  fix j
  assume j: "j \<in> waiting m'"
  have "j \<notin> RunID ` set rs" using j assms(1) by (fastforce simp: waiting_def claimable_def)
  then show "j \<in> waiting m - RunID ` set rs" using j assms(2) by (simp add: waiting_def)
qed

text \<open>A list of runs with different identifiers that holds nothing but one run.\<close>

lemma only_run:
  assumes "distinct (map RunID rs)" "\<forall>x \<in> set rs. x = run" "rs \<noteq> []"
  shows "rs = [run]"
proof (cases rs)
  case (Cons x ys)
  then show ?thesis using assms(1,2) by (cases ys) auto
qed (use assms(3) in simp)

text \<open>One pass over a store in which at most one given run waits.\<close>

lemma tick_one_run:
  assumes "wf_store s1" "is_permuter p" "map_of (runs s1) '''' = None" "map_of (runs s1) (RunID run) = Some run"
    "waiting (map_of (runs s1)) = (if claimable run then {RunID run} else {})"
  shows "\<exists>s2. tick \<lparr>RunnerStore = Some memory_Store, PollEvery = poll, ClaimTTL = ttl, MaxPerClaim = limit, ProcessFn = pf,
        RunnerExecutor = Some (Execute \<lparr>ExecStore = Some memory_Store, ProductLimit = 0, OnExecute = Some (logging_hook f)\<rparr> rng)\<rparr>
        p ctx (s1, []) = Some (None, (s2, map (hook_call rng 0 ctx s1) (if claimable run then [run] else []))) \<and>
      waiting (map_of (runs s2)) = {} \<and>
      (if claimable run then map_of (runs s2) (RunID run) =
           Some (run\<lparr>Status := if f (hook_call rng 0 ctx s1 run) = None then ''completed'' else ''failed''\<rparr>)
       else map_of (runs s2) = map_of (runs s1))"
proof -
  let ?runner = "\<lparr>RunnerStore = Some memory_Store, PollEvery = poll, ClaimTTL = ttl, MaxPerClaim = limit, ProcessFn = pf,
      RunnerExecutor = Some (Execute \<lparr>ExecStore = Some memory_Store, ProductLimit = 0, OnExecute = Some (logging_hook f)\<rparr> rng)\<rparr>"
  obtain rs s2 where t: "tick ?runner p ctx (s1, []) = Some (None, (s2, [] @ map (hook_call rng 0 ctx s1) rs))"
    and d: "distinct (map RunID rs)"
    and each: "\<forall>x \<in> set rs. claimable x \<and> map_of (runs s1) (RunID x) = Some x \<and> map_of (runs s2) (RunID x) =
       Some (x\<lparr>Status := if f (hook_call rng 0 ctx s1 x) = None then ''completed'' else ''failed''\<rparr>)"
    and other: "\<forall>j. j \<notin> RunID ` set rs \<longrightarrow> map_of (runs s2) j = map_of (runs s1) j"
    and full: "waiting (map_of (runs s1)) \<subseteq> RunID ` set rs \<or> length rs = claim_limit limit"
    using tick_calls_hook [OF assms(1-3), of poll ttl limit pf 0 f rng ctx "[]"] by blast
  have ids: "claimable run \<and> x = run" if "x \<in> set rs" for x
  proof -
    have x: "claimable x" "map_of (runs s1) (RunID x) = Some x" using each that by blast+
    then have "RunID x \<in> waiting (map_of (runs s1))" by (simp add: waiting_def)
    then have r: "claimable run" "RunID x = RunID run" unfolding assms(5) by (auto split: if_splits)
    from x(2) assms(4) r show ?thesis by (metis option.inject)
  qed
  have "0 < claim_limit limit" by (simp add: claim_limit_def)
  then have some: "rs \<noteq> []" if "claimable run" using full that unfolding assms(5) by (cases rs) simp_all
  have rs: "rs = (if claimable run then [run] else [])"
  proof (cases "claimable run")
    case True
    have "\<forall>x \<in> set rs. x = run" using ids by blast
    from only_run [OF d this some] True show ?thesis by simp
  next
    case False
    then show ?thesis using ids [of "hd rs"] by (cases rs) simp_all
  qed
  have ends: "\<forall>x \<in> set rs. \<exists>st \<in> {''completed'', ''failed''}. map_of (runs s2) (RunID x) = Some (x\<lparr>Status := st\<rparr>)"
  proof
    fix x
    assume "x \<in> set rs"
    then have "map_of (runs s2) (RunID x) =
       Some (x\<lparr>Status := if f (hook_call rng 0 ctx s1 x) = None then ''completed'' else ''failed''\<rparr>)" using each by blast
    then show "\<exists>st \<in> {''completed'', ''failed''}. map_of (runs s2) (RunID x) = Some (x\<lparr>Status := st\<rparr>)" by (rule bexI) simp
  qed
  have "waiting (map_of (runs s2)) \<subseteq> waiting (map_of (runs s1)) - RunID ` set rs"
    by (rule waiting_after [OF ends other])
  then have "waiting (map_of (runs s2)) = {}" unfolding assms(5) rs by (simp split: if_splits)
  moreover have "if claimable run then map_of (runs s2) (RunID run) =
           Some (run\<lparr>Status := if f (hook_call rng 0 ctx s1 run) = None then ''completed'' else ''failed''\<rparr>)
       else map_of (runs s2) = map_of (runs s1)"
    using each other unfolding rs by (cases "claimable run") (simp_all add: fun_eq_iff)
  moreover have "tick ?runner p ctx (s1, []) = Some (None, (s2, map (hook_call rng 0 ctx s1) (if claimable run then [run] else [])))"
    using t unfolding rs append_Nil .
  ultimately show ?thesis by (intro exI [of _ s2] conjI)
qed

text \<open>What a successful upsert leaves behind, when no run was waiting before.\<close>

lemma upsert_leaves_run:
  assumes "wf_store s" "waiting (map_of (runs s)) = {}" "map_of (runs s) '''' = None"
    "HandlerStore h = Some memory_Store" "Method r = ''POST''" "NewRunID rt = Inr i"
    "BodyErr r = None" "ParseProductsAllowUnknown (BodyBytes r) = Inr parsed"
    "DebugUpsert_ServeHTTP h rt r s = (writeJSON 200 (PRun resp), s1)"
  obtains run where "RunID run = i" "TenantID run = ctx_TenantID (ReqCtx r)" "wf_store s1" "map_of (runs s1) '''' = None"
    "map_of (runs s1) i = Some run" "map_of (runProducts s1) i = Some (OutProducts (RespResult resp))"
    "claimable run \<longleftrightarrow> RespPushTriggered resp" "waiting (map_of (runs s1)) = (if claimable run then {i} else {})"
    "length (OutProducts (RespResult resp)) = length (Products parsed)"
proof -
  let ?t = "ctx_TenantID (ReqCtx r)"
  obtain out where out: "ProcessProducts (RngChannels rt) (Products parsed) (EnabledChannels h) (Some (mem_GetProductHash s ?t)) = Inr out"
    "DebugUpsert_ServeHTTP h rt r s =
      (writeJSON 200 (PRun (run_response i (Warnings parsed) out)),
       record_run (run_record i ?t (Warnings parsed) out (NowRun rt)) (OutProducts out)
         (mem_puts ?t (hash_writes (OutProducts out)) s))"
    using DebugUpsert_mem [OF assms(1,4-8)] by blast
  define run where "run = run_record i ?t (Warnings parsed) out (NowRun rt)"
  have run: "RunID run = i" "TenantID run = ?t" by (simp_all add: run_def run_record_def)
  have resp: "resp = run_response i (Warnings parsed) out"
    and s1: "s1 = record_run run (OutProducts out) (mem_puts ?t (hash_writes (OutProducts out)) s)"
    using out(2) assms(9) by (simp_all add: writeJSON_def run_def)
  have m1: "map_of (runs s1) = (map_of (runs s))(i \<mapsto> run)" "map_of (runProducts s1) i = Some (OutProducts (RespResult resp))"
    by (simp_all add: s1 run(1) resp run_response_def)
  have "wf_store s1" unfolding s1 by (intro inv_intros assms(1))
  moreover have "claimable run \<longleftrightarrow> RespPushTriggered resp"
    using ctx_TenantID_nonzero [of "ReqCtx r"]
    by (auto simp: claimable_def run_def run_record_def run_status_def Let_def resp run_response_def)
  moreover have "map_of (runs s1) '''' = None" using NewRunID_nonempty [OF assms(6)] assms(3) by (simp add: m1(1))
  moreover have "length (OutProducts (RespResult resp)) = length (Products parsed)"
    using ProcessProducts_results [OF out(1)] by (metis length_map resp run_response_def RunResponse.select_convs)
  ultimately show thesis
    using that [OF run] m1 waiting_insert [OF assms(2), of i run] by simp
qed

section \<open>Properties\<close>

text \<open>(C1) Changes are pushed once: over a memory store with no run waiting, a successful upsert with a
  fresh run identifier and at most 100000 products, followed by one pass of a worker, calls the
  push hook exactly once when something was enqueued, for this run and this tenant and with
  exactly the enqueued products of the response, and records the outcome; when nothing was
  enqueued the hook is not called. Either way no run is left waiting.\<close>

theorem pipeline_pushes_changes_once:
  assumes "wf_store s" "waiting (map_of (runs s)) = {}" "map_of (runs s) '''' = None"
    "HandlerStore h = Some memory_Store" "Method r = ''POST''" "NewRunID rt = Inr i"
    "BodyErr r = None" "ParseProductsAllowUnknown (BodyBytes r) = Inr parsed" "length (Products parsed) \<le> 100000"
    "DebugUpsert_ServeHTTP h rt r s = (writeJSON 200 (PRun resp), s1)" "is_permuter p" "is_permuter rng"
  shows "\<exists>s2 calls. tick \<lparr>RunnerStore = Some memory_Store, PollEvery = poll, ClaimTTL = ttl, MaxPerClaim = limit, ProcessFn = pf,
        RunnerExecutor = Some (Execute \<lparr>ExecStore = Some memory_Store, ProductLimit = 0, OnExecute = Some (logging_hook f)\<rparr> rng)\<rparr>
        p ctx (s1, []) = Some (None, (s2, calls)) \<and> waiting (map_of (runs s2)) = {} \<and>
    (if RespPushTriggered resp
     then \<exists>run qs. calls = [(job_ctx ctx run, run\<lparr>Status := ''processing''\<rparr>, qs)] \<and> map_of (runs s1) i = Some run \<and>
       TenantID run = ctx_TenantID (ReqCtx r) \<and>
       mset qs = filter_mset (\<lambda>pr. ResDisposition pr = ''enqueued'') (mset (OutProducts (RespResult resp))) \<and>
       map_of (runs s2) i = Some (run\<lparr>Status := if f (hd calls) = None then ''completed'' else ''failed''\<rparr>)
     else calls = [] \<and> map_of (runs s2) = map_of (runs s1))"
proof -
  obtain run where run: "RunID run = i" "TenantID run = ctx_TenantID (ReqCtx r)" "wf_store s1" "map_of (runs s1) '''' = None"
    "map_of (runs s1) i = Some run" "map_of (runProducts s1) i = Some (OutProducts (RespResult resp))"
    "claimable run \<longleftrightarrow> RespPushTriggered resp" "waiting (map_of (runs s1)) = (if claimable run then {i} else {})"
    "length (OutProducts (RespResult resp)) = length (Products parsed)"
    by (rule upsert_leaves_run [OF assms(1-8,10)])
  have len: "length (OutProducts (RespResult resp)) \<le> 100000" using run(9) assms(9) by simp
  obtain s2 where tick: "tick \<lparr>RunnerStore = Some memory_Store, PollEvery = poll, ClaimTTL = ttl, MaxPerClaim = limit, ProcessFn = pf,
        RunnerExecutor = Some (Execute \<lparr>ExecStore = Some memory_Store, ProductLimit = 0, OnExecute = Some (logging_hook f)\<rparr> rng)\<rparr>
        p ctx (s1, []) = Some (None, (s2, map (hook_call rng 0 ctx s1) (if claimable run then [run] else [])))"
    and none: "waiting (map_of (runs s2)) = {}"
    and after: "if claimable run then map_of (runs s2) (RunID run) =
           Some (run\<lparr>Status := if f (hook_call rng 0 ctx s1 run) = None then ''completed'' else ''failed''\<rparr>)
       else map_of (runs s2) = map_of (runs s1)"
    using tick_one_run [OF run(3) assms(11) run(4), of run] run(1,5,8) by blast
  obtain qs where "hook_call rng 0 ctx s1 run = (job_ctx ctx run, run\<lparr>Status := ''processing''\<rparr>, qs)"
    "mset qs = filter_mset (\<lambda>p. ResDisposition p = ''enqueued'') (mset (OutProducts (RespResult resp)))"
    using hook_call_products [OF assms(12) _ len] run(1,6) by metis
  then show ?thesis
    using tick none after run(1,2,5,7) by (cases "RespPushTriggered resp") simp_all
qed

theorem pipeline_pushes_changes_once_witness:
  "\<exists>resp s1 s2 run pr. DebugUpsert_ServeHTTP sample_handler (sample_runtime ''a'' 5) product_request (NewMemoryStore :: unit MemoryStore)
       = (writeJSON 200 (PRun resp), s1) \<and>
     tick \<lparr>RunnerStore = Some memory_Store, PollEvery = 0, ClaimTTL = 0, MaxPerClaim = 10, ProcessFn = None,
        RunnerExecutor = Some (Execute \<lparr>ExecStore = Some memory_Store, ProductLimit = 0,
          OnExecute = Some (logging_hook (\<lambda>_. None))\<rparr> rev)\<rparr> rev Background (s1, []) =
       Some (None, (s2, [(job_ctx Background run, run\<lparr>Status := ''processing''\<rparr>, [pr])])) \<and>
     ResProductKey pr = ''sku1'' \<and> waiting (map_of (runs s2)) = {}"
proof -
  have w: "ParseProductsAllowUnknown (BodyBytes product_request) =
      Inr \<lparr>Products = [sample_product ''sku1''], Warnings = \<lparr>UnknownKeys = []\<rparr>\<rparr>" by (simp add: product_parse)
  have none: "mem_GetProductHash (NewMemoryStore :: unit MemoryStore) 7 ''sku1'' = Inr None"
    by (simp add: NewMemoryStore_def mem_GetProductHash_def)
  obtain out pr where out: "ProcessProducts (RngChannels (sample_runtime ''a'' 5)) [sample_product ''sku1''] [''google'']
      (Some (mem_GetProductHash (NewMemoryStore :: unit MemoryStore) 7)) = Inr out"
    "OutProducts out = [pr]" "ResProductKey pr = ''sku1''" "ResDisposition pr = ProductDispositionEnqueued"
    "length (ResHash pr) = 64" "Enqueued (Summary out) = 1"
    by (rule product_processed [where lk = "mem_GetProductHash NewMemoryStore 7", OF sample_runtime_channels none])
  obtain s1 where one: "DebugUpsert_ServeHTTP sample_handler (sample_runtime ''a'' 5) product_request (NewMemoryStore :: unit MemoryStore) =
      (writeJSON 200 (PRun (run_response (''run_'' @ EncodeToString ''a'') \<lparr>UnknownKeys = []\<rparr> out)), s1)"
    using DebugUpsert_mem_out [where s = "NewMemoryStore :: unit MemoryStore", OF wf_store_New sample_request_simps(5) product_request_simps(1) NewRunID_sample product_request_simps(2) w
        product_request_simps(4), of "''a''" 5 out] out(1) by simp
  have idle: "waiting (map_of (runs (NewMemoryStore :: unit MemoryStore))) = {}" "map_of (runs (NewMemoryStore :: unit MemoryStore)) '''' = None"
    by (simp_all add: waiting_def NewMemoryStore_def)
  have push: "RespPushTriggered (run_response i ws out)" "OutProducts (RespResult (run_response i ws out)) = [pr]" for i ws
    using out(2,6) by (simp_all add: run_response_def)
  from pipeline_pushes_changes_once [OF wf_store_New idle sample_request_simps(5) product_request_simps(1) NewRunID_sample
      product_request_simps(2) w _ one permuter_rev permuter_rev, of 0 0 10 None "\<lambda>_. None" Background]
  obtain s2 run qs where "tick \<lparr>RunnerStore = Some memory_Store, PollEvery = 0, ClaimTTL = 0, MaxPerClaim = 10, ProcessFn = None,
        RunnerExecutor = Some (Execute \<lparr>ExecStore = Some memory_Store, ProductLimit = 0,
          OnExecute = Some (logging_hook (\<lambda>_. None))\<rparr> rev)\<rparr> rev Background (s1, []) =
       Some (None, (s2, [(job_ctx Background run, run\<lparr>Status := ''processing''\<rparr>, qs)]))"
    "waiting (map_of (runs s2)) = {}" "mset qs = filter_mset (\<lambda>pr. ResDisposition pr = ''enqueued'') (mset [pr])"
    by (auto simp: push)
  moreover from this(3) have "qs = [pr]" using out(4) by simp
  ultimately show ?thesis using one out(3) by blast
qed

section \<open>The records stay consistent\<close>

lemma process_claims_frame:
  assumes "jobs_keep_store r" "process_claims r memory_Store ctx cs (s, w) = Some (s', w')"
  shows "runProducts s' = runProducts s \<and> productHash s' = productHash s"
  using assms(2)
proof (induction cs arbitrary: s w)
  case (Cons c cs)
  obtain err w1 where j: "run_job r ctx c (s, w) = Some (err, (s, w1))"
    using assms(1) by (metis jobs_keep_store_def fst_conv)
  have keep: "runProducts (snd (mem_set_status st t i s)) = runProducts s \<and> productHash (snd (mem_set_status st t i s)) = productHash s"
    for st t i by (simp add: mem_set_status_def split: option.split)
  show ?case
    using Cons.prems j Cons.IH keep by (cases err) (auto simp: mem_CompleteRun_def mem_FailRun_def)
qed simp

lemma tick_frame:
  assumes "RunnerStore r = Some memory_Store" "jobs_keep_store r" "tick r p ctx (s, w) = Some (err, (s', w'))"
  shows "runProducts s' = runProducts s \<and> productHash s' = productHash s"
proof -
  have "runProducts (fold mark_claimed rs s) = runProducts s \<and> productHash (fold mark_claimed rs s) = productHash s" for rs
    by (induction rs arbitrary: s) (auto simp: mark_claimed_def)
  then show ?thesis
    using assms(1,3) process_claims_frame [OF assms(2)]
    by (fastforce simp: tick_def mem_ClaimRuns_pick)
qed

lemma summarises_outcome:
  assumes "summarises run ps" "claimable run" "st \<in> {''completed'', ''failed''}"
  shows "summarises (run\<lparr>Status := st\<rparr>) ps"
  using assms by (auto simp: summarises_def claimable_def)

lemma Execute_jobs_keep_store:
  assumes "RunnerExecutor r = Some (Execute e rng)"
  shows "jobs_keep_store r"
  using jobs_keep_store_Execute [where r = r and e = e and rng = rng] assms by (simp add: jobs_keep_store_def run_job_def)

lemma pass_consistent:
  assumes "consistent s" "RunnerStore r = Some memory_Store" "RunnerExecutor r = Some (Execute e rng)" "is_permuter p"
    "tick r p ctx (s, w) = Some (err, (s', w'))"
  shows "consistent s'"
proof -
  have wf: "wf_store s" using assms(1) by (simp add: consistent_def)
  have jobs: "jobs_keep_store r" by (rule Execute_jobs_keep_store [OF assms(3)])
  from mem_queue.tick_progress [OF assms(2) _ _ _ jobs wf assms(4) finite_waiting, of ctx w] assms(5)
  have prog: "wf_store s'" "progressed (map_of (runs s)) (map_of (runs s'))" by auto
  have frame: "runProducts s' = runProducts s" "mem_GetProductHash s' t k = mem_GetProductHash s t k" for t k
    using tick_frame [OF assms(2) jobs assms(5)] by (simp_all add: mem_GetProductHash_def)
  have "\<exists>ps. map_of (runProducts s) i = Some ps \<and> summarises run ps \<and>
      (\<forall>pr \<in> set ps. ResDisposition pr \<noteq> ProductDispositionRejected \<longrightarrow>
         (\<exists>h. mem_GetProductHash s (TenantID run) (ResProductKey pr) = Inr (Some h)))"
    if run: "map_of (runs s') i = Some run" for i run
  proof -
    have "outcome_step (map_of (runs s) i) (Some run)" using prog(2) run by (metis progressed_def)
    then consider "map_of (runs s) i = Some run"
      | q st where "map_of (runs s) i = Some q" "claimable q" "st \<in> {''completed'', ''failed''}" "run = q\<lparr>Status := st\<rparr>"
      unfolding outcome_step_def by fastforce
    then show ?thesis
    proof cases
      case 1
      then show ?thesis using assms(1) by (simp add: consistent_def)
    next
      case 2
      obtain ps where ps: "map_of (runProducts s) i = Some ps" "summarises q ps"
        "\<forall>pr \<in> set ps. ResDisposition pr \<noteq> ProductDispositionRejected \<longrightarrow>
           (\<exists>h. mem_GetProductHash s (TenantID q) (ResProductKey pr) = Inr (Some h))"
        using assms(1) 2(1) unfolding consistent_def by blast
      show ?thesis using ps summarises_outcome [OF ps(2) 2(2,3)] 2(4) by (intro exI [of _ ps]) simp
    qed
  qed
  then show ?thesis using prog(1) by (simp add: consistent_def frame)
qed

lemma service_step_consistent:
  assumes "service_step cfg s e s'" "ApiStore cfg = memory_Store" "consistent s"
  shows "consistent s'"
  using assms(1)
proof cases
  case serve
  then show ?thesis using api_root_consistent [OF assms(3,2)] by simp
next
  case pass
  then show ?thesis using pass_consistent [OF assms(3)] assms(2) by simp
qed

lemma service_trace_consistent:
  "service_trace cfg s es s' \<Longrightarrow> ApiStore cfg = memory_Store \<Longrightarrow> consistent s \<Longrightarrow> consistent s'"
  by (induction rule: service_trace.induct) (auto dest: service_step_consistent)

text \<open>(C11) The records tell the truth, whatever requests arrive, with whatever tokens, headers, paths and
  bodies, and whenever the worker passes in between: every run in the store is recorded under its own
  identifier together with its products; its counters count their dispositions, received = valid +
  rejected and valid = unchanged + enqueued; a push was triggered exactly when something is enqueued,
  and a run with changes is waiting, being processed or settled, while one without them is settled from
  the start; and for every product of it that was not rejected its tenant has a digest stored.\<close>

theorem service_records_consistent:
  assumes "ApiStore cfg = memory_Store" "service_trace cfg NewMemoryStore es s" "map_of (runs s) i = Some run"
  shows "RunID run = i \<and>
    (\<exists>ps. map_of (runProducts s) i = Some ps \<and>
       RunReceived run = length ps \<and> RunReceived run = RunValid run + RunRejected run \<and>
       RunValid run = RunUnchanged run + RunEnqueued run \<and>
       RunRejected run = with_disp ProductDispositionRejected ps \<and>
       RunUnchanged run = with_disp ProductDispositionUnchanged ps \<and>
       RunEnqueued run = with_disp ProductDispositionEnqueued ps \<and>
       PushTriggered run = (RunEnqueued run > 0) \<and>
       Status run \<in> (if RunEnqueued run > 0 then {''has_changes'', ''processing'', ''completed'', ''failed''}
                     else if RunRejected run > 0 then {''completed''} else {''no_change_detected''}) \<and>
       (\<forall>pr \<in> set ps. ResDisposition pr \<noteq> ProductDispositionRejected \<longrightarrow>
          (\<exists>h. mem_GetProductHash s (TenantID run) (ResProductKey pr) = Inr (Some h))))"
proof -
  have new: "consistent NewMemoryStore" by (simp add: consistent_def) (simp add: NewMemoryStore_def)
  have con: "consistent s" by (rule service_trace_consistent [OF assms(2,1) new])
  then have id: "RunID run = i" using assms(3) by (simp add: consistent_def wf_store_def)
  obtain ps where ps: "map_of (runProducts s) i = Some ps" "summarises run ps"
    "\<forall>pr \<in> set ps. ResDisposition pr \<noteq> ProductDispositionRejected \<longrightarrow>
       (\<exists>h. mem_GetProductHash s (TenantID run) (ResProductKey pr) = Inr (Some h))"
    using con assms(3) unfolding consistent_def by blast
  have "RunReceived run = RunValid run + RunRejected run"
    using ps(2) with_disp_total [of ps] by (simp add: summarises_def)
  with id ps(1,3) ps(2) [unfolded summarises_def] show ?thesis
    by (elim conjE) (intro conjI exI [of _ ps]; assumption)
qed

text \<open>In dev, one upsert of a new product records a run with changes.\<close>

lemma dev_upsert:
  obtains s1 run where "snd (api_root (sample_config\<lparr>Env := ''dev''\<rparr>) (sample_runtime ''a'' 5) product_request NewMemoryStore) = s1"
    "wf_store s1" "map_of (runs s1) (''run_'' @ EncodeToString ''a'') = Some run" "PushTriggered run"
proof -
  let ?h = "\<lparr>HandlerStore = Some memory_Store, EnabledChannels = [''google'']\<rparr>"
  let ?r = "with_tenant product_request DefaultTenantID" and ?rt = "sample_runtime ''a'' 5"
  have dev: "is_dev ''dev''" by (simp add: is_dev_def TrimSpace_id EqualFold_ascii)
  have r: "Method ?r = ''POST''" "BodyErr ?r = None" "ctx_TenantID (ReqCtx ?r) = 1" "ReqPath ?r = ReqPath product_request"
    "HeaderGet ?r k = ''''" for k
    using product_request_simps by (simp_all add: with_tenant_def HeaderGet_def ctx_TenantID_With)
  have w: "ParseProductsAllowUnknown (BodyBytes ?r) =
      Inr \<lparr>Products = [sample_product ''sku1''], Warnings = \<lparr>UnknownKeys = []\<rparr>\<rparr>"
    using product_parse by (simp add: with_tenant_def)
  have root: "api_root (sample_config\<lparr>Env := ''dev''\<rparr>) ?rt product_request NewMemoryStore = DebugUpsert_ServeHTTP ?h ?rt ?r NewMemoryStore"
    using dev r by (simp add: api_root_def Auth_ServeHTTP_def Tenant_ServeHTTP_def api_mux_def Idempotency_ServeHTTP_def idem_key_def
        sample_config_def)
  have none: "mem_GetProductHash (NewMemoryStore :: body MemoryStore) 1 ''sku1'' = Inr None"
    by (simp add: NewMemoryStore_def mem_GetProductHash_def)
  obtain out where out: "ProcessProducts (RngChannels ?rt) [sample_product ''sku1''] [''google'']
      (Some (mem_GetProductHash (NewMemoryStore :: body MemoryStore) 1)) = Inr out" "Enqueued (Summary out) = 1"
    by (rule product_processed [where lk = "mem_GetProductHash (NewMemoryStore :: body MemoryStore) 1", OF sample_runtime_channels none])
  let ?run = "run_record (''run_'' @ EncodeToString ''a'') 1 \<lparr>UnknownKeys = []\<rparr> out (NowRun ?rt)"
  have "snd (DebugUpsert_ServeHTTP ?h ?rt ?r (NewMemoryStore :: body MemoryStore)) =
      record_run ?run (OutProducts out) (mem_puts 1 (hash_writes (OutProducts out)) NewMemoryStore)"
    using DebugUpsert_mem_out [where s = "NewMemoryStore :: body MemoryStore", OF wf_store_New _ r(1) NewRunID_sample r(2) w r(3), of ?h "''a''" 5 out] out(1) by simp
  then show ?thesis
    using out(2) that [of _ ?run] unfolding root by (simp add: wf_record_run wf_mem_puts run_record_def)
qed

theorem service_records_consistent_witness:
  "\<exists>s run. service_trace (sample_config\<lparr>Env := ''dev''\<rparr>) NewMemoryStore
      [Serve (sample_runtime ''a'' 5) product_request, Pass (worker_main_runner memory_Store rev) rev Background ()] s \<and>
    map_of (runs s) (''run_'' @ EncodeToString ''a'') = Some run \<and> PushTriggered run \<and>
    RunReceived run = RunValid run + RunRejected run"
proof -
  let ?cfg = "sample_config\<lparr>Env := ''dev''\<rparr>" and ?i = "''run_'' @ EncodeToString ''a''"
  let ?runner = "worker_main_runner memory_Store rev :: (body MemoryStore, unit, body) Runner"
  let ?es = "[Serve (sample_runtime ''a'' 5) product_request, Pass ?runner rev Background ()]"
  have cfg: "ApiStore ?cfg = memory_Store" by (simp add: sample_config_def)
  obtain s1 run where s1: "snd (api_root ?cfg (sample_runtime ''a'' 5) product_request NewMemoryStore) = s1" "wf_store s1"
    "map_of (runs s1) ?i = Some run" "PushTriggered run" by (rule dev_upsert)
  have runner: "RunnerStore ?runner = Some memory_Store" "RunnerExecutor ?runner =
      Some (Execute \<lparr>ExecStore = Some memory_Store, ProductLimit = 0, OnExecute = None\<rparr> rev)"
    by (simp_all add: worker_main_runner_def Let_def)
  have jobs: "jobs_keep_store ?runner" by (rule Execute_jobs_keep_store [OF runner(2)])
  obtain s2 w2 where t: "tick ?runner rev Background (s1, ()) = Some (None, (s2, w2))"
    and prog: "progressed (map_of (runs s1)) (map_of (runs s2))"
    using mem_queue.tick_progress [OF runner(1) _ _ _ jobs s1(2) permuter_rev finite_waiting, of Background "()"] by auto
  have "service_step ?cfg s1 (Pass ?runner rev Background ()) s2"
    using runner(1) cfg by (intro service_step.pass [OF _ runner(2) permuter_rev t]) simp
  then have trace: "service_trace ?cfg NewMemoryStore ?es s2"
    using service_step.serve [of ?cfg NewMemoryStore "sample_runtime ''a'' 5" product_request, unfolded s1(1)]
    by (intro trace_Cons [OF _ trace_Cons [OF _ trace_Nil]])
  have "outcome_step (Some run) (map_of (runs s2) ?i)" using prog s1(3) by (metis progressed_def)
  then obtain run' where run': "map_of (runs s2) ?i = Some run'" "PushTriggered run'"
    using s1(4) by (auto simp: outcome_step_def)
  have "RunReceived run' = RunValid run' + RunRejected run'"
    using service_records_consistent [OF cfg trace run'(1)] by (elim conjE exE)
  with trace run' show ?thesis by blast
qed

end
