(* ===== verification/Response_Json.thy ===== *)
theory Response_Json
  imports Http Json_Render
begin

text \<open>
  The bytes of a response: how \<open>encoding/json\<close> writes the values that the handlers pass to
  \<open>writeJSON\<close>, following the field order and the tags of the structs. Maps are written with sorted
  keys. A value that cannot be encoded leaves the body empty, because the handlers drop the error.
\<close>

section \<open>Dynamic values\<close>

fun json_of_any :: "any \<Rightarrow> json option" where
  "json_of_any ANil = Some JNull"
| "json_of_any (ABool b) = Some (JBool b)"
| "json_of_any (AFloat f) = map_option JNum (format_float f)"
| "json_of_any (AStr s) = Some (JStr s)"
| "json_of_any (AList vs) = map_option JArr (list_opt (map json_of_any vs))"
| "json_of_any (AMap ms) =
     map_option JObj
       (list_opt (map (\<lambda>(k, x). map_option (Pair k) x) (sort_key fst (map (\<lambda>(k, v). (k, json_of_any v)) ms))))"

lemma list_opt_map_option: "list_opt (map (map_option f) xs) = map_option (map f) (list_opt xs)"
  by (induction xs rule: list_opt.induct) (simp_all add: option.map_comp comp_def)

text \<open>The encoder of dynamic values, used for hashing, writes the same text.\<close>

lemma marshal_opt_render: "marshal_opt v = map_option render (json_of_any v)"
proof (induction v)
  case (AList vs)
  then have "map marshal_opt vs = map (map_option render) (map json_of_any vs)" by simp
  then have "list_opt (map marshal_opt vs) = map_option (map render) (list_opt (map json_of_any vs))"
    by (simp only: list_opt_map_option)
  then show ?case by (simp add: option.map_comp comp_def)
next
  case (AMap ms)
  let ?js = "map (\<lambda>(k, v). (k, json_of_any v)) ms"
  have "map (\<lambda>(k, v). (k, marshal_opt v)) ms = map (\<lambda>(k, x). (k, map_option render x)) ?js"
    using AMap by (auto simp: snds.simps)
  also have "sort_key fst \<dots> = map (\<lambda>(k, x). (k, map_option render x)) (sort_key fst ?js)"
    by (rule sort_key_map [symmetric]) auto
  finally have sorted: "sort_key fst (map (\<lambda>(k, v). (k, marshal_opt v)) ms) =
      map (\<lambda>(k, x). (k, map_option render x)) (sort_key fst ?js)" .
  have "map (\<lambda>(k, x). map_option (\<lambda>y. quote_str k @ '':'' @ y) x) (sort_key fst (map (\<lambda>(k, v). (k, marshal_opt v)) ms)) =
      map (map_option (\<lambda>(k, v). quote_str k @ '':'' @ render v)) (map (\<lambda>(k, x). map_option (Pair k) x) (sort_key fst ?js))"
    unfolding sorted by (auto simp: option.map_comp comp_def)
  then have "list_opt (map (\<lambda>(k, x). map_option (\<lambda>y. quote_str k @ '':'' @ y) x)
        (sort_key fst (map (\<lambda>(k, v). (k, marshal_opt v)) ms))) =
      map_option (map (\<lambda>(k, v). quote_str k @ '':'' @ render v))
        (list_opt (map (\<lambda>(k, x). map_option (Pair k) x) (sort_key fst ?js)))"
    by (simp only: list_opt_map_option)
  then show ?case by (simp add: option.map_comp comp_def)
qed (simp_all add: option.map_comp comp_def option.map_ident)

section \<open>Times\<close>

text \<open>A time is in nanoseconds since the epoch. \<open>Time.MarshalJSON\<close> writes it in RFC 3339 with the
  fraction without trailing zeros, and refuses years outside 0 to 9999.\<close>

definition civil_date :: "int \<Rightarrow> int \<times> int \<times> int" where
  "civil_date days =
     (let z = days + 719468; era = z div 146097; doe = z mod 146097;
          yoe = (doe - doe div 1460 + doe div 36524 - doe div 146096) div 365;
          doy = doe - (365 * yoe + yoe div 4 - yoe div 100);
          mp = (5 * doy + 2) div 153;
          month = (if mp < 10 then mp + 3 else mp - 9)
      in (yoe + era * 400 + (if month \<le> 2 then 1 else 0), month, doy - (153 * mp + 2) div 5 + 1))"

definition pad :: "nat \<Rightarrow> int \<Rightarrow> string" where
  "pad n i = (let ds = Itoa i in replicate (n - length ds) (CHR ''0'') @ ds)"

definition time_json :: "time \<Rightarrow> json option" where
  "time_json t =
     (let (y, m, d) = civil_date (t div 86400000000000); ns = t mod 86400000000000; secs = ns div 1000000000;
          frac = rev (dropWhile (\<lambda>c. c = CHR ''0'') (rev (pad 9 (ns mod 1000000000))))
      in if y < 0 \<or> 9999 < y then None
         else Some (JStr (pad 4 y @ ''-'' @ pad 2 m @ ''-'' @ pad 2 d @ ''T'' @ pad 2 (secs div 3600) @ '':'' @
                pad 2 (secs div 60 mod 60) @ '':'' @ pad 2 (secs mod 60) @
                (if frac = [] then [] else ''.'' @ frac) @ ''Z'')))"

section \<open>Structs\<close>

definition warning_json :: "UnknownKeyWarning \<Rightarrow> json" where
  "warning_json w = JObj [(''unknown_keys'', JArr (map JStr (UnknownKeys w)))]"

definition issue_json :: "ValidationIssue \<Rightarrow> json" where
  "issue_json i = JObj [(''path'', JStr (Path i)), (''code'', JStr (Code i)), (''message'', JStr (Message i))]"

definition result_json :: "ProductProcessResult \<Rightarrow> json" where
  "result_json p =
     JObj ([(''product_key'', JStr (ResProductKey p))]
       @ (if ResHash p = '''' then [] else [(''hash'', JStr (ResHash p))])
       @ [(''disposition'', JStr (ResDisposition p))]
       @ (if ResReason p = '''' then [] else [(''reason'', JStr (ResReason p))])
       @ (if ResIssues p = [] then [] else [(''issues'', JArr (map issue_json (ResIssues p)))]))"

definition int_json :: "int \<Rightarrow> json" where
  "int_json i = JNum (Itoa i)"

definition summary_json :: "ProcessSummary \<Rightarrow> json" where
  "summary_json s =
     JObj [(''received'', int_json (int (Received s))), (''valid'', int_json (int (Valid s))), (''rejected'', int_json (int (Rejected s))),
           (''unchanged'', int_json (int (Unchanged s))), (''enqueued'', int_json (int (Enqueued s)))]"

definition output_json :: "ProcessOutput \<Rightarrow> json" where
  "output_json out =
     JObj [(''summary'', summary_json (Summary out)), (''products'', JArr (map result_json (OutProducts out)))]"

definition run_response_json :: "RunResponse \<Rightarrow> json" where
  "run_response_json r =
     JObj [(''run_id'', JStr (RespRunID r)), (''status'', JStr (RespStatus r)),
           (''push_triggered'', JBool (RespPushTriggered r)), (''warnings'', warning_json (RespWarnings r)),
           (''result'', output_json (RespResult r))]"

definition run_record_json :: "RunRecord \<Rightarrow> json option" where
  "run_record_json r =
     map_option (\<lambda>created.
       JObj [(''RunID'', JStr (RunID r)), (''TenantID'', int_json (uint (TenantID r))),
             (''FeedID'', case FeedID r of None \<Rightarrow> JNull | Some f \<Rightarrow> int_json (uint f)),
             (''Status'', JStr (Status r)), (''PushTriggered'', JBool (PushTriggered r)),
             (''Received'', int_json (int (RunReceived r))), (''Valid'', int_json (int (RunValid r))),
             (''Rejected'', int_json (int (RunRejected r))), (''Unchanged'', int_json (int (RunUnchanged r))),
             (''Enqueued'', int_json (int (RunEnqueued r))), (''Warnings'', warning_json (RunWarnings r)),
             (''CreatedAt'', created)])
       (time_json (CreatedAt r))"

fun payload_json :: "payload \<Rightarrow> json option" where
  "payload_json (PMap m) = json_of_any (AMap m)"
| "payload_json (PRun r) = Some (run_response_json r)"
| "payload_json (PRuns rs) = map_option (\<lambda>items. JObj [(''items'', JArr items)]) (list_opt (map run_record_json rs))"
| "payload_json (PDetail run products) =
     map_option (\<lambda>r. JObj [(''products'', JArr (map result_json products)), (''run'', r)]) (run_record_json run)"

fun body_bytes :: "body \<Rightarrow> string" where
  "body_bytes EmptyBody = ''''"
| "body_bytes (TextBody s) = s"
| "body_bytes (JsonBody p) = (case payload_json p of None \<Rightarrow> '''' | Some j \<Rightarrow> render j @ [CHR 0x0A])"

section \<open>Reading a response back\<close>

definition valid_issue :: "ValidationIssue \<Rightarrow> bool" where
  "valid_issue i \<longleftrightarrow> valid_utf8 (Path i) \<and> valid_utf8 (Code i) \<and> valid_utf8 (Message i)"

definition valid_result :: "ProductProcessResult \<Rightarrow> bool" where
  "valid_result p \<longleftrightarrow> valid_utf8 (ResProductKey p) \<and> valid_utf8 (ResHash p) \<and> valid_utf8 (ResDisposition p) \<and>
     valid_utf8 (ResReason p) \<and> list_all valid_issue (ResIssues p)"

definition valid_response :: "RunResponse \<Rightarrow> bool" where
  "valid_response r \<longleftrightarrow> valid_utf8 (RespRunID r) \<and> valid_utf8 (RespStatus r) \<and>
     list_all valid_utf8 (UnknownKeys (RespWarnings r)) \<and> list_all valid_result (OutProducts (RespResult r))"

lemma wf_json_structs:
  "valid_issue i \<Longrightarrow> wf_json (issue_json i)" "valid_result p \<Longrightarrow> wf_json (result_json p)"
  "valid_response r \<Longrightarrow> wf_json (run_response_json r)" "list_all valid_utf8 (UnknownKeys w) \<Longrightarrow> wf_json (warning_json w)"
proof -
  have i: "valid_issue i \<Longrightarrow> wf_json (issue_json i)" for i
    by (simp add: valid_issue_def issue_json_def valid_utf8_ascii)
  then have p: "valid_result p \<Longrightarrow> wf_json (result_json p)" for p
    by (auto simp: valid_result_def result_json_def valid_utf8_ascii list_all_iff)
  have w: "list_all valid_utf8 (UnknownKeys w) \<Longrightarrow> wf_json (warning_json w)" for w
    by (auto simp: warning_json_def valid_utf8_ascii list_all_iff)
  show "valid_issue i \<Longrightarrow> wf_json (issue_json i)" "valid_result p \<Longrightarrow> wf_json (result_json p)"
    "list_all valid_utf8 (UnknownKeys w) \<Longrightarrow> wf_json (warning_json w)" by (fact i p w)+
  show "valid_response r \<Longrightarrow> wf_json (run_response_json r)"
    using p w [of "RespWarnings r"]
    by (auto simp: valid_response_def run_response_json_def output_json_def summary_json_def int_json_def
        int_token_Itoa valid_utf8_ascii list_all_iff)
qed

lemma depth_arr: "\<forall>v \<in> set vs. json_depth v \<le> k \<Longrightarrow> json_depth (JArr vs) \<le> Suc k"
  using foldr_max_less [of "map json_depth vs" k] by auto

lemma depth_structs:
  "json_depth (issue_json i) = 1" "json_depth (result_json p) \<le> 3" "json_depth (warning_json w) \<le> 2"
  "json_depth (run_response_json r) \<le> 6"
proof -
  show i: "json_depth (issue_json i) = 1" for i by (simp add: issue_json_def)
  have "json_depth (JArr (map issue_json (ResIssues p))) \<le> 2" for p
    using depth_arr [of "map issue_json (ResIssues p)" 1] by (auto simp: i)
  then show p: "json_depth (result_json p) \<le> 3" for p by (auto simp: result_json_def)
  have "json_depth (JArr (map JStr (UnknownKeys w))) \<le> 1" for w
    using depth_arr [of "map JStr (UnknownKeys w)" 0] by auto
  then show w: "json_depth (warning_json w) \<le> 2" for w by (auto simp: warning_json_def)
  have "json_depth (JArr (map result_json (OutProducts (RespResult r)))) \<le> 4"
    using depth_arr [of "map result_json (OutProducts (RespResult r))" 3] by (auto simp: p)
  with w [of "RespWarnings r"] show "json_depth (run_response_json r) \<le> 6"
    by (auto simp: run_response_json_def output_json_def summary_json_def int_json_def)
qed

section \<open>What a client finds in a response\<close>

text \<open>Members of a document, by the names that the API promises.\<close>

fun json_get :: "string \<Rightarrow> json \<Rightarrow> json option" where
  "json_get k (JObj ms) = map_of ms k"
| "json_get k _ = None"

definition shows_issue :: "ValidationIssue \<Rightarrow> json \<Rightarrow> bool" where
  "shows_issue i j \<longleftrightarrow> json_get ''path'' j = Some (JStr (Path i)) \<and> json_get ''code'' j = Some (JStr (Code i)) \<and>
     json_get ''message'' j = Some (JStr (Message i))"

text \<open>An empty digest, an empty reason and an empty list of issues are left out.\<close>

definition shows_result :: "ProductProcessResult \<Rightarrow> json \<Rightarrow> bool" where
  "shows_result p j \<longleftrightarrow>
     json_get ''product_key'' j = Some (JStr (ResProductKey p)) \<and> json_get ''disposition'' j = Some (JStr (ResDisposition p)) \<and>
     json_get ''hash'' j = (if ResHash p = '''' then None else Some (JStr (ResHash p))) \<and>
     json_get ''reason'' j = (if ResReason p = '''' then None else Some (JStr (ResReason p))) \<and>
     (if ResIssues p = [] then json_get ''issues'' j = None
      else \<exists>js. json_get ''issues'' j = Some (JArr js) \<and> list_all2 shows_issue (ResIssues p) js)"

definition shows_summary :: "ProcessSummary \<Rightarrow> json \<Rightarrow> bool" where
  "shows_summary s j \<longleftrightarrow>
     json_get ''received'' j = Some (JNum (Itoa (int (Received s)))) \<and> json_get ''valid'' j = Some (JNum (Itoa (int (Valid s)))) \<and>
     json_get ''rejected'' j = Some (JNum (Itoa (int (Rejected s)))) \<and>
     json_get ''unchanged'' j = Some (JNum (Itoa (int (Unchanged s)))) \<and> json_get ''enqueued'' j = Some (JNum (Itoa (int (Enqueued s))))"

lemma shows_issue_json: "shows_issue i (issue_json i)"
  by (simp add: shows_issue_def issue_json_def)

lemma shows_result_json: "shows_result p (result_json p)"
  by (auto simp: shows_result_def result_json_def list.rel_map shows_issue_json intro: list_all2_refl)

lemma shows_summary_json: "shows_summary s (summary_json s)"
  by (simp add: shows_summary_def summary_json_def int_json_def)

section \<open>Properties\<close>

text \<open>(C37) The answer to an upsert can be read: the bytes that the handlers write for a run whose strings are
  valid UTF-8 are one JSON document, in which a client finds the identifier, the status and the push
  flag of the run, the unknown keys, the five counters of the summary, and in the order of the results
  one object per product with its key, disposition, digest, reason and issues under their documented
  names, the last three only when they are not empty.\<close>

theorem run_response_roundtrip:
  assumes "valid_response r"
  shows "\<exists>doc res summary products. decode_doc (body_bytes (RespBody (writeJSON 200 (PRun r)))) = Inr doc \<and>
    json_get ''run_id'' doc = Some (JStr (RespRunID r)) \<and> json_get ''status'' doc = Some (JStr (RespStatus r)) \<and>
    json_get ''push_triggered'' doc = Some (JBool (RespPushTriggered r)) \<and>
    Option.bind (json_get ''warnings'' doc) (json_get ''unknown_keys'') = Some (JArr (map JStr (UnknownKeys (RespWarnings r)))) \<and>
    json_get ''result'' doc = Some res \<and>
    json_get ''summary'' res = Some summary \<and> shows_summary (Summary (RespResult r)) summary \<and>
    json_get ''products'' res = Some (JArr products) \<and> list_all2 shows_result (OutProducts (RespResult r)) products"
proof -
  have "json_depth (run_response_json r) \<le> max_depth" using depth_structs(4) [of r] by (simp add: max_depth_def)
  with wf_json_structs(3) [OF assms] have "decode_doc (body_bytes (RespBody (writeJSON 200 (PRun r)))) = Inr (run_response_json r)"
    by (simp add: decode_render)
  moreover have "list_all2 shows_result (OutProducts (RespResult r)) (map result_json (OutProducts (RespResult r)))"
    by (auto simp: list.rel_map shows_result_json intro: list_all2_refl)
  ultimately show ?thesis
    by (intro exI [of _ "run_response_json r"] exI [of _ "output_json (RespResult r)"] exI [of _ "summary_json (Summary (RespResult r))"]
        exI [of _ "map result_json (OutProducts (RespResult r))"])
      (simp add: run_response_json_def warning_json_def output_json_def shows_summary_json)
qed

definition sample_response :: RunResponse where
  "sample_response =
     \<lparr>RespRunID = ''run_1'', RespStatus = RunStatusHasChanges, RespPushTriggered = True, RespWarnings = \<lparr>UnknownKeys = [''a<b'']\<rparr>,
      RespResult = \<lparr>Summary = \<lparr>Received = 2, Valid = 1, Rejected = 1, Unchanged = 0, Enqueued = 1\<rparr>,
        OutProducts =
          [\<lparr>ResProductKey = ''k1'', ResHash = ''ab'', ResDisposition = ProductDispositionEnqueued, ResReason = ''new'', ResIssues = []\<rparr>,
           \<lparr>ResProductKey = '''', ResHash = '''', ResDisposition = ProductDispositionRejected, ResReason = ''invalid'',
             ResIssues = [\<lparr>Path = ''title'', Code = ''required'', Message = ''field is required''\<rparr>]\<rparr>]\<rparr>\<rparr>"

theorem run_response_roundtrip_witness:
  "\<exists>doc res a b. decode_doc (body_bytes (RespBody (writeJSON 200 (PRun sample_response)))) = Inr doc \<and>
     json_get ''result'' doc = Some res \<and> json_get ''products'' res = Some (JArr [a, b]) \<and>
     json_get ''hash'' a = Some (JStr ''ab'') \<and> json_get ''disposition'' a = Some (JStr ''enqueued'') \<and>
     json_get ''hash'' b = None \<and> json_get ''disposition'' b = Some (JStr ''rejected'')"
proof -
  have "valid_response sample_response"
    by (simp add: sample_response_def valid_response_def valid_result_def valid_issue_def valid_utf8_ascii)
  from run_response_roundtrip [OF this] obtain doc res products where
    doc: "decode_doc (body_bytes (RespBody (writeJSON 200 (PRun sample_response)))) = Inr doc" "json_get ''result'' doc = Some res"
      "json_get ''products'' res = Some (JArr products)"
    and ps: "list_all2 shows_result (OutProducts (RespResult sample_response)) products" by blast
  from ps obtain a b where "products = [a, b]" "shows_result (OutProducts (RespResult sample_response) ! 0) a"
    "shows_result (OutProducts (RespResult sample_response) ! 1) b"
    by (auto simp: sample_response_def list_all2_Cons1)
  with doc show ?thesis by (auto simp: shows_result_def sample_response_def)
qed

end
