(* ===== verification/Legacy_Ingest.thy ===== *)
theory Legacy_Ingest
  imports Bulk Middleware Response_Json
begin

text \<open>
  The first generation of the endpoints, \<open>internal/ingest/http_debug_upsert.go\<close>,
  \<open>http_debug_upsert_bulk.go\<close>, \<open>idempotency_http.go\<close>, \<open>idempotency_store.go\<close> and \<open>memory_store.go\<close>:
  one map of digests without tenants, no record of runs, and an idempotency cache by key alone.
  The handlers are shown equivalent to those of \<open>internal/api/handlers\<close> for one tenant.

  The names of the source that the second generation uses too carry the prefix \<open>Ingest\<close> or
  \<open>Legacy\<close>. Stores are pointers that the code dereferences without a check; they are present here.
\<close>

section \<open>Digests\<close>

record MemoryHashStore =
  hashes :: "(string, string) gomap"

definition NewMemoryHashStore :: MemoryHashStore where
  "NewMemoryHashStore = \<lparr>hashes = []\<rparr>"

definition hash_Get :: "MemoryHashStore \<Rightarrow> PreviousHashLookup" where
  "hash_Get s productKey = Inr (map_of (hashes s) productKey)"

definition hash_Set :: "string \<Rightarrow> string \<Rightarrow> MemoryHashStore \<Rightarrow> MemoryHashStore" where
  "hash_Set productKey hash s = s\<lparr>hashes := AList.update productKey hash (hashes s)\<rparr>"

section \<open>Upsert of a JSON array\<close>

fun store_products :: "ProductProcessResult list \<Rightarrow> MemoryHashStore \<Rightarrow> MemoryHashStore" where
  "store_products [] s = s"
| "store_products (pr # prs) s =
     (if ResHash pr = '''' then store_products prs s
      else if ResDisposition pr = ProductDispositionEnqueued \<or> ResDisposition pr = ProductDispositionUnchanged then
        store_products prs (hash_Set (ResProductKey pr) (ResHash pr) s)
      else store_products prs s)"

definition LegacyUpsert_ServeHTTP :: "string list \<Rightarrow> MemoryHashStore handler" where
  "LegacyUpsert_ServeHTTP enabled rt r s =
     (if Method r \<noteq> ''POST'' then (write_status 405, s)
      else
      (case NewRunID rt of
         Inl err \<Rightarrow> (writeJSON 500 (error_body ''run_id_failed'' err), s)
       | Inr runID \<Rightarrow>
      (case BodyErr r of
         Some err \<Rightarrow> (writeJSON 400 (error_body ''read_failed'' err), s)
       | None \<Rightarrow>
      (case ParseProductsAllowUnknown (BodyBytes r) of
         Inl err \<Rightarrow> (writeJSON 400 (error_body ''invalid_json'' err), s)
       | Inr parsed \<Rightarrow>
      (case ProcessProducts (RngChannels rt) (Products parsed) enabled (Some (hash_Get s)) of
         Inl err \<Rightarrow> (writeJSON 500 (error_body ''processing_failed'' err), s)
       | Inr out \<Rightarrow>
           (let s = store_products (OutProducts out) s;
                pushTriggered = Enqueued (Summary out) > 0;
                status = (if \<not> pushTriggered \<and> Rejected (Summary out) = 0 then RunStatusNoChangeDetected
                          else if pushTriggered then RunStatusHasChanges else RunStatusCompleted)
            in (writeJSON 200 (PRun \<lparr>RespRunID = runID, RespStatus = status, RespPushTriggered = pushTriggered,
                  RespWarnings = Warnings parsed, RespResult = out\<rparr>), s)))))))"

section \<open>Upsert of a stream of JSON lines\<close>

definition legacy_wrapMaybeGzip ::
  "gunzip \<Rightarrow> string \<times> go_error option \<Rightarrow> string \<Rightarrow> (string \<times> go_error option) res" where
  "legacy_wrapMaybeGzip gz b contentEncoding =
     (let enc = ToLower (TrimSpace contentEncoding) in
      if enc = '''' then Inr b
      else if enc \<noteq> ''gzip'' then Inl ''unexpected EOF''
      else gz b)"

fun legacy_bulk_loop ::
  "string list \<Rightarrow> (nat \<Rightarrow> string permuter) \<Rightarrow> nat \<Rightarrow> string list \<Rightarrow> ProcessOutput \<Rightarrow> string set \<Rightarrow>
   MemoryHashStore \<Rightarrow> (Response + ProcessOutput \<times> string set) \<times> MemoryHashStore" where
  "legacy_bulk_loop enabled rng i [] out unknown s = (Inr (out, unknown), s)"
| "legacy_bulk_loop enabled rng i (l # ls) out unknown s =
     (let line = TrimSpace l in
      if line = [] then legacy_bulk_loop enabled rng i ls out unknown s
      else
        (let out = receive_one out in
         case ParseProductObjectAllowUnknown line of
           Inl err \<Rightarrow> legacy_bulk_loop enabled rng i ls (count_result (invalid_line err) False out) unknown s
         | Inr (prd, unk) \<Rightarrow>
             (let unknown = unknown \<union> unk in
              case ProcessProduct (rng i) prd enabled (Some (hash_Get s)) of
                Inl err \<Rightarrow> (Inl (writeJSON 500 (error_body ''processing_failed'' err)), s)
              | Inr (res, valid) \<Rightarrow>
                  (let out = count_result res valid out;
                       s = (if valid \<and> ResDisposition res = ProductDispositionEnqueued \<and> ResHash res \<noteq> ''''
                            then hash_Set (ResProductKey res) (ResHash res) s else s)
                   in legacy_bulk_loop enabled rng (Suc i) ls out unknown s))))"

definition LegacyBulkUpsert_ServeHTTP :: "gunzip \<Rightarrow> string list \<Rightarrow> MemoryHashStore handler" where
  "LegacyBulkUpsert_ServeHTTP gz enabled rt r s =
     (if Method r \<noteq> ''POST'' then (write_status 405, s)
      else
      (case NewRunID rt of
         Inl err \<Rightarrow> (writeJSON 500 (error_body ''run_id_failed'' err), s)
       | Inr runID \<Rightarrow>
      (case legacy_wrapMaybeGzip gz (BodyBytes r, BodyErr r) (HeaderGet r ''Content-Encoding'') of
         Inl err \<Rightarrow> (writeJSON 400 (error_body ''invalid_encoding'' err), s)
       | Inr reader \<Rightarrow>
      (case scan_body rt reader of (lines, scErr) \<Rightarrow>
      (case legacy_bulk_loop enabled (RngChannels rt) 0 lines (init_output 0) {} s of
         (Inl resp, s) \<Rightarrow> (resp, s)
       | (Inr (out, unknown), s) \<Rightarrow>
      (case scErr of
         Some err \<Rightarrow> (writeJSON 400 (error_body ''read_failed'' err), s)
       | None \<Rightarrow>
           (let pushTriggered = Enqueued (Summary out) > 0;
                status = (if \<not> pushTriggered \<and> Rejected (Summary out) = 0 then RunStatusNoChangeDetected
                          else if pushTriggered then RunStatusHasChanges else RunStatusCompleted)
            in (writeJSON 200 (PRun \<lparr>RespRunID = runID, RespStatus = status, RespPushTriggered = pushTriggered,
                  RespWarnings = \<lparr>UnknownKeys = setToSortedSlice unknown\<rparr>, RespResult = out\<rparr>), s))))))))"

section \<open>The idempotency cache\<close>

record IngestIdempotencyRecord =
  RecStatusCode :: nat
  RecBody :: string
  RecCreatedAt :: time

record MemoryIdempotencyStore =
  records :: "(string, IngestIdempotencyRecord) gomap"
  ttl :: int

definition NewMemoryIdempotencyStore :: "int \<Rightarrow> MemoryIdempotencyStore" where
  "NewMemoryIdempotencyStore d = \<lparr>records = [], ttl = d\<rparr>"

text \<open>\<open>time.Since\<close>: a duration is a 64-bit integer and saturates.\<close>

definition time_Since :: "time \<Rightarrow> time \<Rightarrow> int" where
  "time_Since now t = max (- (2 ^ 63)) (min (2 ^ 63 - 1) (now - t))"

text \<open>The two methods as one call each, with no other goroutine running; their code with the locks follows.\<close>

datatype idem_lookup = Absent | Expired | Found IngestIdempotencyRecord

definition idem_read :: "time \<Rightarrow> string \<Rightarrow> MemoryIdempotencyStore \<Rightarrow> idem_lookup" where
  "idem_read now key s =
     (if key = '''' then Absent
      else case map_of (records s) key of
        None \<Rightarrow> Absent
      | Some rec \<Rightarrow> if ttl s > 0 \<and> time_Since now (RecCreatedAt rec) > ttl s then Expired else Found rec)"

definition idem_evict :: "string \<Rightarrow> MemoryIdempotencyStore \<Rightarrow> MemoryIdempotencyStore" where
  "idem_evict key s = s\<lparr>records := AList.delete key (records s)\<rparr>"

definition idem_Get ::
  "time \<Rightarrow> string \<Rightarrow> MemoryIdempotencyStore \<Rightarrow> IngestIdempotencyRecord option \<times> MemoryIdempotencyStore" where
  "idem_Get now key s =
     (case idem_read now key s of
        Absent \<Rightarrow> (None, s)
      | Expired \<Rightarrow> (None, idem_evict key s)
      | Found rec \<Rightarrow> (Some rec, s))"

definition idem_Set :: "string \<Rightarrow> IngestIdempotencyRecord \<Rightarrow> MemoryIdempotencyStore \<Rightarrow> MemoryIdempotencyStore" where
  "idem_Set key rec s = (if key = '''' then s else s\<lparr>records := AList.update key rec (records s)\<rparr>)"

text \<open>The same methods as the code two goroutines run on the shared store: every lock operation and
  every access to the map is an instruction. \<open>Get\<close> holds the read lock for the lookup only; the age of
  what it read is tested without a lock (\<open>CheckRec\<close>, with the code for an expired record), and an
  expired record is deleted under the write lock, taken afterwards. A goroutine that has to wait for the lock or has returned does nothing in its turn.\<close>

datatype idem_instr =
  RLock | RUnlock | Lock | Unlock
| LoadRec string
| CheckRec time "idem_instr list"
| DeleteRec string
| StoreRec string IngestIdempotencyRecord
| ReturnMiss

record RWMutex =
  Readers :: nat
  Writer :: bool

record goroutine =
  g_code :: "idem_instr list"
  g_rec :: "IngestIdempotencyRecord option"
  g_found :: "IngestIdempotencyRecord option"

definition Get_code :: "time \<Rightarrow> string \<Rightarrow> idem_instr list" where
  "Get_code now key =
     (if key = '''' then [ReturnMiss]
      else [RLock, LoadRec key, RUnlock, CheckRec now [Lock, DeleteRec key, Unlock, ReturnMiss]])"

definition Set_code :: "string \<Rightarrow> IngestIdempotencyRecord \<Rightarrow> idem_instr list" where
  "Set_code key rec = (if key = '''' then [] else [Lock, StoreRec key rec, Unlock])"

fun idem_exec ::
  "idem_instr \<Rightarrow> goroutine \<Rightarrow> RWMutex \<Rightarrow> MemoryIdempotencyStore \<Rightarrow> (goroutine \<times> RWMutex \<times> MemoryIdempotencyStore) option" where
  "idem_exec RLock g m s = (if Writer m then None else Some (g, m\<lparr>Readers := Suc (Readers m)\<rparr>, s))"
| "idem_exec RUnlock g m s = Some (g, m\<lparr>Readers := Readers m - 1\<rparr>, s)"
| "idem_exec Lock g m s = (if Writer m \<or> 0 < Readers m then None else Some (g, m\<lparr>Writer := True\<rparr>, s))"
| "idem_exec Unlock g m s = Some (g, m\<lparr>Writer := False\<rparr>, s)"
| "idem_exec (LoadRec key) g m s = Some (g\<lparr>g_rec := map_of (records s) key\<rparr>, m, s)"
| "idem_exec (CheckRec now evict) g m s =
     (case g_rec g of
        None \<Rightarrow> Some (g\<lparr>g_found := None\<rparr>, m, s)
      | Some rec \<Rightarrow>
          if ttl s > 0 \<and> time_Since now (RecCreatedAt rec) > ttl s
          then Some (g\<lparr>g_code := evict @ g_code g\<rparr>, m, s)
          else Some (g\<lparr>g_found := Some rec\<rparr>, m, s))"
| "idem_exec (DeleteRec key) g m s = Some (g, m, idem_evict key s)"
| "idem_exec (StoreRec key rec) g m s = Some (g, m, s\<lparr>records := AList.update key rec (records s)\<rparr>)"
| "idem_exec ReturnMiss g m s = Some (g\<lparr>g_found := None\<rparr>, m, s)"

definition idem_step ::
  "goroutine \<Rightarrow> RWMutex \<Rightarrow> MemoryIdempotencyStore \<Rightarrow> goroutine \<times> RWMutex \<times> MemoryIdempotencyStore" where
  "idem_step g m s =
     (case g_code g of
        [] \<Rightarrow> (g, m, s)
      | i # is \<Rightarrow> (case idem_exec i (g\<lparr>g_code := is\<rparr>) m s of None \<Rightarrow> (g, m, s) | Some r \<Rightarrow> r))"

text \<open>Two goroutines under a scheduler: \<^const>\<open>True\<close> gives the first its turn, \<^const>\<open>False\<close> the second.\<close>

fun interleave ::
  "bool list \<Rightarrow> goroutine \<Rightarrow> goroutine \<Rightarrow> RWMutex \<Rightarrow> MemoryIdempotencyStore \<Rightarrow>
     goroutine \<times> goroutine \<times> RWMutex \<times> MemoryIdempotencyStore" where
  "interleave [] g h m s = (g, h, m, s)"
| "interleave (True # ts) g h m s = (case idem_step g m s of (g, m, s) \<Rightarrow> interleave ts g h m s)"
| "interleave (False # ts) g h m s = (case idem_step h m s of (h, m, s) \<Rightarrow> interleave ts g h m s)"

definition go_call :: "idem_instr list \<Rightarrow> goroutine" where
  "go_call c = \<lparr>g_code = c, g_rec = None, g_found = None\<rparr>"

definition Unlocked :: RWMutex where
  "Unlocked = \<lparr>Readers = 0, Writer = False\<rparr>"

text \<open>The store after \<open>Get\<close> and \<open>Set\<close> have run under a schedule in which both returned.\<close>

definition get_set_under ::
  "bool list \<Rightarrow> time \<Rightarrow> string \<Rightarrow> IngestIdempotencyRecord \<Rightarrow> MemoryIdempotencyStore \<Rightarrow> MemoryIdempotencyStore option" where
  "get_set_under sched now key rec s =
     (case interleave sched (go_call (Get_code now key)) (go_call (Set_code key rec)) Unlocked s of
        (g, h, m, s') \<Rightarrow> if g_code g = [] \<and> g_code h = [] then Some s' else None)"

section \<open>The writer that captures a response\<close>

text \<open>What \<open>net/http\<close> keeps of a response under construction: the first status counts, a write without
  one sends 200.\<close>

record ResponseWriter =
  WCode :: nat
  WBytes :: string

definition w_WriteHeader :: "nat \<Rightarrow> ResponseWriter \<Rightarrow> ResponseWriter" where
  "w_WriteHeader code w = (if WCode w = 0 then w\<lparr>WCode := code\<rparr> else w)"

definition w_Write :: "string \<Rightarrow> ResponseWriter \<Rightarrow> ResponseWriter" where
  "w_Write b w = w\<lparr>WCode := (if WCode w = 0 then 200 else WCode w), WBytes := WBytes w @ b\<rparr>"

record captureWriter =
  cw_w :: ResponseWriter
  cw_status :: nat
  cw_buf :: string

definition newCaptureWriter :: "ResponseWriter \<Rightarrow> captureWriter" where
  "newCaptureWriter w = \<lparr>cw_w = w, cw_status = 0, cw_buf = []\<rparr>"

definition cw_WriteHeader :: "nat \<Rightarrow> captureWriter \<Rightarrow> captureWriter" where
  "cw_WriteHeader code c = c\<lparr>cw_status := code, cw_w := w_WriteHeader code (cw_w c)\<rparr>"

definition cw_Write :: "string \<Rightarrow> captureWriter \<Rightarrow> captureWriter" where
  "cw_Write b c = c\<lparr>cw_buf := cw_buf c @ b, cw_w := w_Write b (cw_w c)\<rparr>"

definition cw_statusCode :: "captureWriter \<Rightarrow> nat" where
  "cw_statusCode c = (if cw_status c = 0 then 200 else cw_status c)"

definition cw_bodyBytes :: "captureWriter \<Rightarrow> string" where
  "cw_bodyBytes c = cw_buf c"

text \<open>The calls by which a handler delivers a response, and the response that \<open>net/http\<close> sends.\<close>

definition cw_deliver :: "Response \<Rightarrow> captureWriter \<Rightarrow> captureWriter" where
  "cw_deliver rr c =
     (let c = (if RespCode rr = 0 then c else cw_WriteHeader (RespCode rr) c)
      in if body_bytes (RespBody rr) = [] then c else cw_Write (body_bytes (RespBody rr)) c)"

definition sent :: "(string, string) gomap \<Rightarrow> ResponseWriter \<Rightarrow> Response" where
  "sent headers w =
     \<lparr>RespCode = (if WCode w = 0 then 200 else WCode w), RespHeader = headers, RespBody = TextBody (WBytes w)\<rparr>"

section \<open>The idempotency middleware\<close>

definition LegacyIdempotency_ServeHTTP ::
  "bool \<Rightarrow> 's handler option \<Rightarrow> ('s \<times> MemoryIdempotencyStore) handler" where
  "LegacyIdempotency_ServeHTTP present nxt rt r st =
     (case nxt of
        None \<Rightarrow> (write_status 500, st)
      | Some serve \<Rightarrow>
          if \<not> present then (write_status 500, st)
          else
            (let (s, cache) = st; key = HeaderGet r IdempotencyHeaderKey in
             if key = '''' then (let (rr, s) = serve rt r s in (rr, (s, cache)))
             else
               (case idem_Get (NowLookup rt) key cache of
                  (Some rec, cache) \<Rightarrow>
                    (\<lparr>RespCode = RecStatusCode rec, RespHeader = json_header, RespBody = TextBody (RecBody rec)\<rparr>, (s, cache))
                | (None, cache) \<Rightarrow>
                    (let (rr, s) = serve rt r s;
                         cw = cw_deliver rr (newCaptureWriter \<lparr>WCode = 0, WBytes = []\<rparr>);
                         rec = \<lparr>RecStatusCode = cw_statusCode cw, RecBody = cw_bodyBytes cw, RecCreatedAt = NowCached rt\<rparr>
                     in (sent (RespHeader rr) (cw_w cw), (s, idem_Set key rec cache))))))"

section \<open>The handlers of both generations agree for one tenant\<close>

definition one_tenant :: "uint64 \<Rightarrow> MemoryHashStore \<Rightarrow> 'b MemoryStore \<Rightarrow> bool" where
  "one_tenant t l s \<longleftrightarrow> wf_store s \<and> mem_GetProductHash s t = hash_Get l"

lemma one_tenant_New: "one_tenant t NewMemoryHashStore NewMemoryStore"
proof -
  have "mem_GetProductHash NewMemoryStore t = hash_Get NewMemoryHashStore"
    by (simp add: fun_eq_iff mem_GetProductHash_def NewMemoryStore_def NewMemoryHashStore_def hash_Get_def)
  then show ?thesis by (simp add: one_tenant_def)
qed

lemma one_tenant_put:
  "one_tenant t l s \<Longrightarrow> one_tenant t (hash_Set k h l) (snd (mem_UpsertProductHash t k h s))"
  by (auto simp: one_tenant_def fun_eq_iff mem_hashes.get_put hash_Get_def hash_Set_def intro: inv_intros)

text \<open>Writing the digest that is stored already changes nothing a lookup can see.\<close>

lemma one_tenant_put_same:
  "one_tenant t l s \<Longrightarrow> hash_Get l k = Inr (Some h) \<Longrightarrow> one_tenant t l (snd (mem_UpsertProductHash t k h s))"
  by (auto simp: one_tenant_def fun_eq_iff mem_hashes.get_put intro: inv_intros)

lemma one_tenant_record: "one_tenant t l s \<Longrightarrow> one_tenant t l (record_run run ps s)"
  by (auto simp: one_tenant_def fun_eq_iff intro: inv_intros)

lemma one_tenant_store:
  "one_tenant t l s \<Longrightarrow> one_tenant t (store_products prs l) (mem_puts t (hash_writes prs) s)"
proof (induction prs arbitrary: l s)
  case (Cons pr prs)
  then show ?case
    using Cons.IH [OF one_tenant_put [OF Cons.prems]]
    by (auto simp: persisted_def mem_puts_def)
qed (simp add: mem_puts_def)

lemma unchanged_stored:
  assumes "ProcessProduct rng p en (Some (hash_Get l)) = Inr (x, v)" "ResDisposition x = ProductDispositionUnchanged"
  shows "hash_Get l (ResProductKey x) = Inr (Some (ResHash x))"
  using assms(1)
proof (cases rule: ProcessProduct_cases)
  case (rejected reason issues)
  then show ?thesis
    using assms(2) by (simp add: rejected_result_def ProductDispositionUnchanged_def ProductDispositionRejected_def)
next
  case (valid h prev)
  have "ResDisposition x = DeltaDisposition (ComputeDisposition prev h)" using valid(6) by simp
  then have prev: "prev \<noteq> ''''" "prev = h"
    using assms(2) by (simp_all add: ComputeDisposition_eqs split: if_splits)
  have "previous_hash (Some (hash_Get l)) (ProductKey p) =
      Inr (case map_of (hashes l) (ProductKey p) of Some h \<Rightarrow> h | None \<Rightarrow> '''')"
    by (simp add: previous_hash_def hash_Get_def)
  then have "map_of (hashes l) (ProductKey p) = Some h"
    using valid(3) prev by (cases "map_of (hashes l) (ProductKey p)") simp_all
  then show ?thesis using valid(6) by (simp add: hash_Get_def)
qed

lemma legacy_bulk_loop_step:
  assumes "one_tenant t l s" "ProcessProduct rng p en (Some (hash_Get l)) = Inr (x, v)"
  defines "wr \<equiv> v \<and> (ResDisposition x = ProductDispositionUnchanged \<or> ResDisposition x = ProductDispositionEnqueued) \<and> ResHash x \<noteq> ''''"
  shows "one_tenant t (if v \<and> ResDisposition x = ProductDispositionEnqueued \<and> ResHash x \<noteq> ''''
      then hash_Set (ResProductKey x) (ResHash x) l else l)
    (if wr then snd (mem_UpsertProductHash t (ResProductKey x) (ResHash x) s) else s)"
proof (cases "ResDisposition x = ProductDispositionUnchanged")
  case True
  then have "ResDisposition x \<noteq> ProductDispositionEnqueued"
    by (simp add: ProductDispositionUnchanged_def ProductDispositionEnqueued_def)
  then show ?thesis
    using assms(1) one_tenant_put_same [OF assms(1) unchanged_stored [OF assms(2) True]] by simp
next
  case False
  then show ?thesis using assms(1) one_tenant_put [OF assms(1)] by (auto simp: wr_def)
qed

lemma legacy_bulk_loop_sim:
  assumes "one_tenant t l s"
  shows "fst (legacy_bulk_loop en rng i ls out unk l) = fst (bulk_loop memory_Store t en rng i ls out unk s) \<and>
    one_tenant t (snd (legacy_bulk_loop en rng i ls out unk l)) (snd (bulk_loop memory_Store t en rng i ls out unk s))"
  using assms
proof (induction ls arbitrary: i out unk l s)
  case (Cons line ls)
  have get: "mem_GetProductHash s t = hash_Get l" using Cons.prems by (simp add: one_tenant_def)
  show ?case
  proof (cases "TrimSpace line = []")
    case True
    then show ?thesis using Cons by simp
  next
    case ne: False
    show ?thesis
    proof (cases "ParseProductObjectAllowUnknown (TrimSpace line)")
      case (Inl e)
      then show ?thesis using Cons ne by (simp add: Let_def)
    next
      case (Inr pu)
      obtain p u where pu: "pu = (p, u)" by (cases pu)
      show ?thesis
      proof (cases "ProcessProduct (rng i) p en (Some (hash_Get l))")
        case (Inl e)
        then show ?thesis using Inr pu ne Cons.prems by (simp add: Let_def get)
      next
        case rv: (Inr rv)
        obtain x v where x: "rv = (x, v)" by (cases rv)
        have ok: "mem_UpsertProductHash t k h s = (None, snd (mem_UpsertProductHash t k h s))" for k h
          by (simp add: mem_UpsertProductHash_def Let_def)
        let ?wr = "v \<and> (ResDisposition x = ProductDispositionUnchanged \<or> ResDisposition x = ProductDispositionEnqueued) \<and> ResHash x \<noteq> ''''"
        let ?s = "if ?wr then snd (mem_UpsertProductHash t (ResProductKey x) (ResHash x) s) else s"
        have new: "bulk_loop memory_Store t en rng i (line # ls) out unk s =
            bulk_loop memory_Store t en rng (Suc i) ls (count_result x v (receive_one out)) (unk \<union> u) ?s"
          using Inr pu rv x ne ok [of "ResProductKey x" "ResHash x"] by (auto simp: Let_def get split: prod.splits)
        show ?thesis
          unfolding new
          using Cons.IH [OF legacy_bulk_loop_step [OF Cons.prems rv [unfolded x]]] Inr pu rv x ne
          by (simp add: Let_def)
      qed
    qed
  qed
qed simp

lemma legacy_gzip:
  assumes "ToLower (TrimSpace enc) \<in> {'''', ''gzip''}"
  shows "legacy_wrapMaybeGzip gz b enc = wrapMaybeGzip gz b enc"
  using assms by (auto simp: legacy_wrapMaybeGzip_def wrapMaybeGzip_def Let_def)

lemma legacy_upsert_sim:
  assumes "one_tenant (ctx_TenantID (ReqCtx r)) l s" "HandlerStore h = Some memory_Store"
  shows "fst (LegacyUpsert_ServeHTTP (EnabledChannels h) rt r l) = fst (DebugUpsert_ServeHTTP h rt r s) \<and>
    one_tenant (ctx_TenantID (ReqCtx r)) (snd (LegacyUpsert_ServeHTTP (EnabledChannels h) rt r l)) (snd (DebugUpsert_ServeHTTP h rt r s))"
proof -
  let ?t = "ctx_TenantID (ReqCtx r)"
  have wf: "wf_store s" and get: "mem_GetProductHash s ?t = hash_Get l" using assms(1) by (simp_all add: one_tenant_def)
  have fin: "one_tenant ?t (store_products prs l) (record_run run prs (mem_puts ?t (hash_writes prs) s))" for prs run
    by (rule one_tenant_record [OF one_tenant_store [OF assms(1)]])
  show ?thesis
    using assms
    by (auto simp: LegacyUpsert_ServeHTTP_def DebugUpsert_ServeHTTP_def Let_def get persist_products_mem [OF wf]
        finish_run_mem run_response_def run_status_def fin split: sum.split option.split)
qed

lemma legacy_bulk_sim:
  assumes "one_tenant (ctx_TenantID (ReqCtx r)) l s" "HandlerStore h = Some memory_Store"
    "ToLower (TrimSpace (HeaderGet r ''Content-Encoding'')) \<in> {'''', ''gzip''}"
  shows "fst (LegacyBulkUpsert_ServeHTTP gz (EnabledChannels h) rt r l) = fst (DebugBulkUpsert_ServeHTTP gz h rt r s) \<and>
    one_tenant (ctx_TenantID (ReqCtx r)) (snd (LegacyBulkUpsert_ServeHTTP gz (EnabledChannels h) rt r l))
      (snd (DebugBulkUpsert_ServeHTTP gz h rt r s))"
proof -
  let ?t = "ctx_TenantID (ReqCtx r)"
  show ?thesis
  proof (cases "Method r = ''POST''")
    case post: True
    show ?thesis
    proof (cases "NewRunID rt")
      case id: (Inr i)
      show ?thesis
      proof (cases "wrapMaybeGzip gz (BodyBytes r, BodyErr r) (HeaderGet r ''Content-Encoding'')")
        case (Inr reader)
        obtain ls e where sc: "scan_body rt reader = (ls, e)" by (cases "scan_body rt reader")
        obtain x l1 where old: "legacy_bulk_loop (EnabledChannels h) (RngChannels rt) 0 ls (init_output 0) {} l = (x, l1)"
          by (cases "legacy_bulk_loop (EnabledChannels h) (RngChannels rt) 0 ls (init_output 0) {} l")
        obtain s1 where new: "bulk_loop memory_Store ?t (EnabledChannels h) (RngChannels rt) 0 ls (init_output 0) {} s = (x, s1)"
          and rel: "one_tenant ?t l1 s1"
          using legacy_bulk_loop_sim [OF assms(1), of "EnabledChannels h" "RngChannels rt" 0 ls "init_output 0" "{}"] old
          by (cases "bulk_loop memory_Store ?t (EnabledChannels h) (RngChannels rt) 0 ls (init_output 0) {} s") auto
        show ?thesis
          using post id Inr sc old new rel one_tenant_record [OF rel] assms(2)
          by (cases x; cases e)
            (auto simp: LegacyBulkUpsert_ServeHTTP_def DebugBulkUpsert_ServeHTTP_def Let_def legacy_gzip [OF assms(3)]
              finish_run_mem SortedUnknownKeys_def run_response_def run_status_def)
      qed (use post id assms in \<open>simp add: LegacyBulkUpsert_ServeHTTP_def DebugBulkUpsert_ServeHTTP_def Let_def legacy_gzip [OF assms(3)]\<close>)
    qed (use post assms in \<open>simp add: LegacyBulkUpsert_ServeHTTP_def DebugBulkUpsert_ServeHTTP_def Let_def\<close>)
  qed (use assms in \<open>simp add: LegacyBulkUpsert_ServeHTTP_def DebugBulkUpsert_ServeHTTP_def Let_def\<close>)
qed

section \<open>Captured responses\<close>

lemma capture:
  assumes "c = cw_deliver rr (newCaptureWriter \<lparr>WCode = 0, WBytes = []\<rparr>)"
  shows "cw_statusCode c = (if RespCode rr = 0 then 200 else RespCode rr)" "cw_bodyBytes c = body_bytes (RespBody rr)"
    "sent hdr (cw_w c) = \<lparr>RespCode = (if RespCode rr = 0 then 200 else RespCode rr), RespHeader = hdr,
       RespBody = TextBody (body_bytes (RespBody rr))\<rparr>"
  using assms
  by (simp_all add: cw_deliver_def newCaptureWriter_def cw_WriteHeader_def cw_Write_def w_WriteHeader_def w_Write_def
      cw_statusCode_def cw_bodyBytes_def sent_def Let_def)

lemma idem_Get_Set:
  assumes "key \<noteq> ''''" "ttl s \<le> 0 \<or> now - RecCreatedAt rec \<le> ttl s"
  shows "idem_Get now key (idem_Set key rec s) = (Some rec, idem_Set key rec s)"
  using assms by (auto simp: idem_Get_def idem_read_def idem_Set_def time_Since_def)

lemma ttl_idem [simp]: "ttl (idem_Set k rec s) = ttl s" "ttl (snd (idem_Get now k s)) = ttl s"
  by (auto simp: idem_Set_def idem_Get_def idem_evict_def split: idem_lookup.split)

section \<open>Properties\<close>

text \<open>(C39) Both generations of the endpoints agree: over a digest map that answers like the memory store for
  the request's tenant, the handlers of \<open>internal/ingest\<close> and of \<open>internal/api/handlers\<close> give the
  same response to every request (for streams: with no encoding or gzip), and the stores agree again
  afterwards.\<close>

theorem legacy_handlers_agree:
  assumes "one_tenant (ctx_TenantID (ReqCtx r)) l s" "HandlerStore h = Some memory_Store"
  shows "(case (LegacyUpsert_ServeHTTP (EnabledChannels h) rt r l, DebugUpsert_ServeHTTP h rt r s) of
      ((resp, l'), (resp', s')) \<Rightarrow> resp = resp' \<and> one_tenant (ctx_TenantID (ReqCtx r)) l' s') \<and>
    (ToLower (TrimSpace (HeaderGet r ''Content-Encoding'')) \<in> {'''', ''gzip''} \<longrightarrow>
     (case (LegacyBulkUpsert_ServeHTTP gz (EnabledChannels h) rt r l, DebugBulkUpsert_ServeHTTP gz h rt r s) of
        ((resp, l'), (resp', s')) \<Rightarrow> resp = resp' \<and> one_tenant (ctx_TenantID (ReqCtx r)) l' s'))"
  using legacy_upsert_sim [OF assms, of rt] legacy_bulk_sim [OF assms, of gz rt] by (auto simp: case_prod_beta)

theorem legacy_handlers_agree_witness:
  "fst (LegacyUpsert_ServeHTTP [''google''] (sample_runtime ''a'' 5) sample_request NewMemoryHashStore) =
     fst (DebugUpsert_ServeHTTP sample_handler (sample_runtime ''a'' 5) sample_request (NewMemoryStore :: unit MemoryStore)) \<and>
   fst (LegacyBulkUpsert_ServeHTTP Inr [''google''] (sample_runtime ''a'' 5) (sample_bulk_request None) NewMemoryHashStore) =
     fst (DebugBulkUpsert_ServeHTTP Inr sample_handler (sample_runtime ''a'' 5) (sample_bulk_request None) (NewMemoryStore :: unit MemoryStore))"
  using legacy_handlers_agree [OF one_tenant_New sample_request_simps(5), of sample_request "sample_runtime ''a'' 5" Inr]
    legacy_handlers_agree [OF one_tenant_New sample_request_simps(5), of "sample_bulk_request None" "sample_runtime ''a'' 5" Inr]
  by (auto simp: case_prod_beta ToLower_ascii)

text \<open>The first cache replays by key alone: once a keyed request was served, every request with the
  same key within the time to live, of whatever method, path or tenant, gets its status and bytes,
  and its own handler does not run.\<close>

theorem legacy_replay:
  fixes s :: 's
  assumes "HeaderGet r IdempotencyHeaderKey = key" "HeaderGet r' IdempotencyHeaderKey = key" "key \<noteq> ''''"
    "fst (idem_Get (NowLookup rt) key cache) = None" "serve rt r s = (rr, s1)"
    "ttl cache \<le> 0 \<or> NowLookup rt' - NowCached rt \<le> ttl cache"
  shows "\<exists>resp cache2. LegacyIdempotency_ServeHTTP True (Some serve) rt r (s, cache) = (resp, (s1, cache2)) \<and>
    RespCode resp = (if RespCode rr = 0 then 200 else RespCode rr) \<and>
    body_bytes (RespBody resp) = body_bytes (RespBody rr) \<and>
    (\<forall>serve' (s' :: 's). LegacyIdempotency_ServeHTTP True (Some serve') rt' r' (s', cache2) =
       (\<lparr>RespCode = RespCode resp, RespHeader = json_header, RespBody = RespBody resp\<rparr>, (s', cache2)))"
proof -
  define rec where "rec = \<lparr>RecStatusCode = (if RespCode rr = 0 then 200 else RespCode rr),
    RecBody = body_bytes (RespBody rr), RecCreatedAt = NowCached rt\<rparr>"
  obtain cache1 where miss: "idem_Get (NowLookup rt) key cache = (None, cache1)"
    using assms(4) by (cases "idem_Get (NowLookup rt) key cache") auto
  then have "ttl cache1 = ttl cache" using ttl_idem(2) [of "NowLookup rt" key cache] by simp
  define cache2 where "cache2 = idem_Set key rec cache1"
  let ?resp = "\<lparr>RespCode = (if RespCode rr = 0 then 200 else RespCode rr), RespHeader = RespHeader rr,
    RespBody = TextBody (body_bytes (RespBody rr))\<rparr>"
  have one: "LegacyIdempotency_ServeHTTP True (Some serve) rt r (s, cache) = (?resp, (s1, cache2))"
    using assms(1,3,5) miss by (simp add: LegacyIdempotency_ServeHTTP_def Let_def capture [OF refl] cache2_def rec_def)
  have "idem_Get (NowLookup rt') key cache2 = (Some rec, cache2)"
    unfolding cache2_def using assms(3,6) \<open>ttl cache1 = ttl cache\<close> by (intro idem_Get_Set) (auto simp: rec_def)
  then have "LegacyIdempotency_ServeHTTP True (Some serve') rt' r' (s', cache2) =
       (\<lparr>RespCode = RespCode ?resp, RespHeader = json_header, RespBody = RespBody ?resp\<rparr>, (s', cache2))" for serve' and s' :: 's
    using assms(2,3) by (simp add: LegacyIdempotency_ServeHTTP_def Let_def rec_def)
  with one show ?thesis by (intro exI [of _ ?resp] exI [of _ cache2] conjI allI) (simp_all only: Response.simps body_bytes.simps)
qed

theorem legacy_replay_witness:
  "\<exists>resp cache2. LegacyIdempotency_ServeHTTP True (Some (\<lambda>rt r s. (write_text 201 ''ok'', Suc s))) (plain_runtime 5) (keyed_request 7)
      (0, NewMemoryIdempotencyStore 10) = (resp, (1, cache2)) \<and>
    LegacyIdempotency_ServeHTTP True (Some (\<lambda>rt r s. (write_text 500 ''other'', Suc s))) (plain_runtime 9)
      ((keyed_request 8)\<lparr>Method := ''DELETE'', ReqPath := ''/elsewhere''\<rparr>) (1, cache2) =
        (\<lparr>RespCode = 201, RespHeader = json_header, RespBody = RespBody resp\<rparr>, (1, cache2)) \<and>
    body_bytes (RespBody resp) = ''ok''"
proof -
  have key: "HeaderGet (keyed_request t) IdempotencyHeaderKey = ''abc''"
    "HeaderGet ((keyed_request t)\<lparr>Method := ''DELETE'', ReqPath := ''/elsewhere''\<rparr>) IdempotencyHeaderKey = ''abc''" for t
    by (simp_all add: HeaderGet_def keyed_request_def)
  show ?thesis
    using legacy_replay [OF key(1) [of 7] key(2) [of 8], of "plain_runtime 5" "NewMemoryIdempotencyStore 10"
        "\<lambda>rt r s. (write_text 201 ''ok'', Suc s)" 0 "write_text 201 ''ok''" "Suc 0" "plain_runtime 9"]
    by (auto simp: idem_Get_def idem_read_def NewMemoryIdempotencyStore_def)
qed

lemmas interleave_eval = interleave.simps idem_step_def idem_exec.simps go_call_def Unlocked_def

text \<open>Run alone, the code of the two methods does what the two calls say.\<close>

lemma Get_code_alone:
  "\<exists>g. interleave (replicate 8 True) (go_call (Get_code now key)) h Unlocked s =
     (g, h, Unlocked, snd (idem_Get now key s)) \<and> g_code g = [] \<and> g_found g = fst (idem_Get now key s)"
  by (cases "map_of (records s) key")
    (auto simp: interleave_eval Get_code_def idem_Get_def idem_read_def eval_nat_numeral)

lemma Set_code_alone:
  "\<exists>h. interleave (replicate 3 False) g (go_call (Set_code key rec)) Unlocked s =
     (g, h, Unlocked, idem_Set key rec s) \<and> g_code h = []"
  by (auto simp: interleave_eval Set_code_def idem_Set_def eval_nat_numeral)

lemma interleave_append:
  "interleave (ts @ us) g h m s = (case interleave ts g h m s of (g, h, m, s) \<Rightarrow> interleave us g h m s)"
  by (induction ts g h m s rule: interleave.induct) (auto split: prod.splits)

lemma get_set_serial:
  "get_set_under (replicate 8 True @ replicate 3 False) now key rec s = Some (idem_Set key rec (snd (idem_Get now key s)))"
  "get_set_under (replicate 3 False @ replicate 8 True) now key rec s = Some (snd (idem_Get now key (idem_Set key rec s)))"
proof -
  obtain g where g: "interleave (replicate 8 True) (go_call (Get_code now key)) (go_call (Set_code key rec)) Unlocked s =
     (g, go_call (Set_code key rec), Unlocked, snd (idem_Get now key s))" "g_code g = []"
    using Get_code_alone by blast
  obtain h where h: "interleave (replicate 3 False) g (go_call (Set_code key rec)) Unlocked (snd (idem_Get now key s)) =
     (g, h, Unlocked, idem_Set key rec (snd (idem_Get now key s)))" "g_code h = []"
    using Set_code_alone by blast
  show "get_set_under (replicate 8 True @ replicate 3 False) now key rec s = Some (idem_Set key rec (snd (idem_Get now key s)))"
    using g h by (simp add: get_set_under_def interleave_append)
  obtain h' where h': "interleave (replicate 3 False) (go_call (Get_code now key)) (go_call (Set_code key rec)) Unlocked s =
     (go_call (Get_code now key), h', Unlocked, idem_Set key rec s)" "g_code h' = []"
    using Set_code_alone by blast
  obtain g' where g': "interleave (replicate 8 True) (go_call (Get_code now key)) h' Unlocked (idem_Set key rec s) =
     (g', h', Unlocked, snd (idem_Get now key (idem_Set key rec s)))" "g_code g' = []"
    using Get_code_alone by blast
  show "get_set_under (replicate 3 False @ replicate 8 True) now key rec s = Some (snd (idem_Get now key (idem_Set key rec s)))"
    using g' h' by (simp add: get_set_under_def interleave_append)
qed

lemma get_set_race:
  assumes "idem_read now key s = Expired"
  shows "get_set_under (replicate 4 True @ replicate 3 False @ replicate 4 True) now key rec s =
    Some (idem_evict key (idem_Set key rec s))"
proof -
  obtain old where "key \<noteq> ''''" "map_of (records s) key = Some old" "0 < ttl s" "ttl s < time_Since now (RecCreatedAt old)"
    using assms by (auto simp: idem_read_def split: if_splits option.splits)
  then show ?thesis
    by (simp add: get_set_under_def interleave_eval Get_code_def Set_code_def idem_Set_def eval_nat_numeral)
qed

text \<open>(C40) A lookup can discard a response stored while it runs. A \<open>Get\<close> of an expired record and a
  \<open>Set\<close> of a fresh one on the same key, run one after the other in either order, both return and leave
  the fresh response to be found for as long as it lives. There is a schedule of the two in which both
  also return, and the fresh response is gone: the \<open>Set\<close> runs between the two critical sections of \<open>Get\<close>.\<close>

theorem idem_get_race:
  assumes "idem_read now key s = Expired" "now \<le> now'" "now' - RecCreatedAt rec \<le> ttl s"
  shows "(\<exists>s'. get_set_under (replicate 8 True @ replicate 3 False) now key rec s = Some s' \<and>
      fst (idem_Get now' key s') = Some rec) \<and>
    (\<exists>s'. get_set_under (replicate 3 False @ replicate 8 True) now key rec s = Some s' \<and>
      fst (idem_Get now' key s') = Some rec) \<and>
    (\<exists>sched s'. get_set_under sched now key rec s = Some s' \<and> fst (idem_Get now' key s') = None)"
proof -
  have key: "key \<noteq> ''''" using assms(1) by (auto simp: idem_read_def)
  have fresh: "now - RecCreatedAt rec \<le> ttl s" using assms(2,3) by simp
  have gone: "fst (idem_Get now' key (idem_evict key (idem_Set key rec s))) = None"
    by (simp add: idem_Get_def idem_read_def idem_evict_def delete_conv')
  show ?thesis
    using get_set_serial [of now key rec s] get_set_race [OF assms(1), of rec] gone
      idem_Get_Set [of key s now rec] idem_Get_Set [of key s now' rec]
      idem_Get_Set [of key "snd (idem_Get now key s)" now' rec] key fresh assms(3)
    by (intro conjI exI [of _ "replicate 4 True @ replicate 3 False @ replicate 4 True"]) (simp_all add: exI)
qed

theorem idem_get_race_witness:
  "\<exists>sched s'. get_set_under sched 100 ''k'' \<lparr>RecStatusCode = 200, RecBody = ''new'', RecCreatedAt = 100\<rparr>
      \<lparr>records = [(''k'', \<lparr>RecStatusCode = 200, RecBody = ''old'', RecCreatedAt = 0\<rparr>)], ttl = 50\<rparr> = Some s' \<and>
    fst (idem_Get 101 ''k'' s') = None"
  using idem_get_race [of 100 "''k''"
      "\<lparr>records = [(''k'', \<lparr>RecStatusCode = 200, RecBody = ''old'', RecCreatedAt = 0\<rparr>)], ttl = 50\<rparr>" 101
      "\<lparr>RecStatusCode = 200, RecBody = ''new'', RecCreatedAt = 100\<rparr>"]
  by (simp add: idem_read_def time_Since_def)

end
