(* ===== verification/Sql.thy ===== *)
theory Sql
  imports Store Json_Render "HOL-Library.Product_Lexorder"
begin

text \<open>
  The database behind \<open>database/sql\<close>, as far as \<open>internal/state\<close> and \<open>internal/migrate\<close> use it. The
  server is not part of the repository: it is a parameter, a record of operations on a state
  \<open>'d\<close>. The statements that the code sends are values of a small syntax: selections of one table by
  equalities, with an order and a limit, insertions with an optional update on a duplicate key, and
  updates. What MySQL documents about them is the meaning \<open>answers\<close> and \<open>sql_exec\<close> over tables, and
  the locale \<open>sql_server\<close> says that a server gives these answers.

  The schema is that of \<open>migrations/0001_init.sql\<close> and of the bookkeeping table of the migrations; columns with a default that the code never reads
  are left out. Comparison of strings goes through the collation of the server, which the schema
  leaves open; values of a JSON column come back in the server's own spelling; a \<open>TIMESTAMP\<close> keeps
  whole seconds.
\<close>

section \<open>Values and statements\<close>

datatype sqlval = SNull | SInt int | SStr string | SBool bool | STime time

type_synonym row = "(string \<times> sqlval) list"

type_synonym tables = "string \<Rightarrow> row list"

datatype expr = Param nat | Lit sqlval

record query =
  QCols :: "string list"
  QTable :: string
  QWhere :: "(string \<times> expr) list"
  QOrder :: "(string \<times> bool) option"
  QLimit :: "expr option"

datatype command =
  Insert string "(string \<times> expr) list" "string list"
| Update string "(string \<times> expr) list" "(string \<times> expr) list"

section \<open>The schema\<close>

datatype coltype = Bigint_unsigned | Int32 | Tinyint | Varchar nat | Fixed_char nat | Json_doc | Timestamp

text \<open>Each column with its type and whether it may be null.\<close>

definition schema :: "string \<Rightarrow> (string \<times> coltype \<times> bool) list" where
  "schema t =
     (if t = ''tenants'' then [(''tenant_id'', Bigint_unsigned, False), (''name'', Varchar 255, False)]
      else if t = ''product_state'' then
        [(''tenant_id'', Bigint_unsigned, False), (''product_key'', Varchar 255, False), (''normalized_hash'', Fixed_char 64, False)]
      else if t = ''runs'' then
        [(''run_id'', Varchar 64, False), (''tenant_id'', Bigint_unsigned, False), (''feed_id'', Bigint_unsigned, True),
         (''status'', Varchar 64, False), (''push_triggered'', Tinyint, False), (''received'', Int32, False),
         (''valid'', Int32, False), (''rejected'', Int32, False), (''unchanged'', Int32, False), (''enqueued'', Int32, False),
         (''warnings_json'', Json_doc, True), (''created_at'', Timestamp, False)]
      else if t = ''run_products'' then
        [(''run_id'', Varchar 64, False), (''product_key'', Varchar 255, False), (''disposition'', Varchar 64, False),
         (''reason'', Varchar 255, True), (''normalized_hash'', Fixed_char 64, True), (''issues_json'', Json_doc, True)]
      else if t = ''idempotency'' then
        [(''tenant_id'', Bigint_unsigned, False), (''endpoint'', Varchar 255, False), (''idem_key_hash'', Fixed_char 64, False),
         (''status_code'', Int32, False), (''response_body_json'', Json_doc, False), (''created_at'', Timestamp, False),
         (''expires_at'', Timestamp, False)]
      else if t = ''schema_migrations'' then [(''name'', Varchar 255, False)]
      else [])"

definition primary_key :: "string \<Rightarrow> string list" where
  "primary_key t =
     (if t = ''tenants'' then [''tenant_id''] else if t = ''product_state'' then [''tenant_id'', ''product_key'']
      else if t = ''runs'' then [''run_id''] else if t = ''run_products'' then [''run_id'', ''product_key'']
      else if t = ''idempotency'' then [''tenant_id'', ''endpoint'', ''idem_key_hash'']
      else if t = ''schema_migrations'' then [''name''] else [])"

text \<open>All unique keys of a table, the primary key first.\<close>

definition unique_keys :: "string \<Rightarrow> string list list" where
  "unique_keys t = primary_key t # (if t = ''tenants'' then [[''name'']] else [])"

text \<open>Foreign keys: a column and the table and column it refers to.\<close>

definition foreign_keys :: "string \<Rightarrow> (string \<times> string \<times> string) list" where
  "foreign_keys t =
     (if t = ''runs'' then [(''tenant_id'', ''tenants'', ''tenant_id''), (''feed_id'', ''feeds'', ''feed_id'')]
      else if t = ''run_products'' then [(''run_id'', ''runs'', ''run_id'')]
      else if t = ''idempotency'' then [(''tenant_id'', ''tenants'', ''tenant_id'')] else [])"

section \<open>Meaning of the statements\<close>

text \<open>What depends on the server: the collation, as a key under which equal strings agree, and the
  spelling of JSON documents.\<close>

record engine =
  Collate :: "string \<Rightarrow> string"
  JsonText :: "json \<Rightarrow> string"

definition col :: "string \<Rightarrow> row \<Rightarrow> sqlval" where
  "col c r = (case map_of r c of None \<Rightarrow> SNull | Some v \<Rightarrow> v)"

fun eval_expr :: "sqlval list \<Rightarrow> expr \<Rightarrow> sqlval" where
  "eval_expr args (Param i) = (if i < length args then args ! i else SNull)"
| "eval_expr args (Lit v) = v"

fun sql_eq :: "engine \<Rightarrow> sqlval \<Rightarrow> sqlval \<Rightarrow> bool" where
  "sql_eq eng (SInt a) (SInt b) = (a = b)"
| "sql_eq eng (SStr a) (SStr b) = (Collate eng a = Collate eng b)"
| "sql_eq eng (STime a) (STime b) = (a = b)"
| "sql_eq eng _ _ = False"

text \<open>The order of values: nulls first, strings by their collation key.\<close>

fun order_key :: "engine \<Rightarrow> sqlval \<Rightarrow> nat \<times> int \<times> string" where
  "order_key eng SNull = (0, 0, [])"
| "order_key eng (SInt i) = (1, i, [])"
| "order_key eng (SBool b) = (1, if b then 1 else 0, [])"
| "order_key eng (STime t) = (2, t, [])"
| "order_key eng (SStr s) = (3, 0, Collate eng s)"

definition row_matches :: "engine \<Rightarrow> (string \<times> expr) list \<Rightarrow> sqlval list \<Rightarrow> row \<Rightarrow> bool" where
  "row_matches eng wh args r \<longleftrightarrow> list_all (\<lambda>(c, e). sql_eq eng (col c r) (eval_expr args e)) wh"

text \<open>The rows a selection may return: the matching ones in an order that respects \<open>ORDER BY\<close>, cut off
  at the limit. Ties are in any order.\<close>

definition ordered_by :: "engine \<Rightarrow> (string \<times> bool) option \<Rightarrow> row list \<Rightarrow> bool" where
  "ordered_by eng ord rs =
     (case ord of
        None \<Rightarrow> True
      | Some (c, ascending) \<Rightarrow>
          sorted (map (\<lambda>r. order_key eng (col c r)) (if ascending then rs else rev rs)))"

definition row_limit :: "query \<Rightarrow> sqlval list \<Rightarrow> row list \<Rightarrow> row list" where
  "row_limit q args rs =
     (case QLimit q of
        None \<Rightarrow> rs
      | Some e \<Rightarrow> (case eval_expr args e of SInt n \<Rightarrow> take (nat n) rs | _ \<Rightarrow> rs))"

definition answers :: "engine \<Rightarrow> query \<Rightarrow> sqlval list \<Rightarrow> tables \<Rightarrow> row list \<Rightarrow> bool" where
  "answers eng q args T rs \<longleftrightarrow>
     (\<exists>all. mset all = mset (filter (row_matches eng (QWhere q) args) (T (QTable q))) \<and>
        ordered_by eng (QOrder q) all \<and> rs = row_limit q args all)"

definition project :: "string list \<Rightarrow> row \<Rightarrow> sqlval list" where
  "project cs r = map (\<lambda>c. col c r) cs"

text \<open>What a column makes of a value; \<open>None\<close> is an error of strict mode.\<close>

definition second :: time where
  "second = 1000000000"

definition fits_chars :: "nat \<Rightarrow> string \<Rightarrow> bool" where
  "fits_chars n s \<longleftrightarrow> valid_utf8 s \<and> length (runes s) \<le> n"

fun store_val :: "engine \<Rightarrow> coltype \<Rightarrow> bool \<Rightarrow> sqlval \<Rightarrow> sqlval option" where
  "store_val eng ty nullable SNull = (if nullable then Some SNull else None)"
| "store_val eng Bigint_unsigned _ (SInt i) = (if 0 \<le> i \<and> i < 2 ^ 64 then Some (SInt i) else None)"
| "store_val eng Int32 _ (SInt i) = (if - (2 ^ 31) \<le> i \<and> i < 2 ^ 31 then Some (SInt i) else None)"
| "store_val eng Tinyint _ (SBool b) = Some (SInt (if b then 1 else 0))"
| "store_val eng (Varchar n) _ (SStr s) = (if fits_chars n s then Some (SStr s) else None)"
| "store_val eng (Fixed_char n) _ (SStr s) =
     (if fits_chars n s then Some (SStr (rev (dropWhile (\<lambda>c. c = CHR '' '') (rev s)))) else None)"
| "store_val eng Json_doc _ (SStr s) =
     (case unmarshal_doc s of Inr j \<Rightarrow> if valid_utf8 s then Some (SStr (JsonText eng j)) else None | Inl _ \<Rightarrow> None)"
| "store_val eng Timestamp _ (STime t) =
     (let t = (t + second div 2) div second * second in
      if second \<le> t \<and> t < 2 ^ 31 * second then Some (STime t) else None)"
| "store_val eng _ _ _ = None"

definition store_col :: "engine \<Rightarrow> string \<Rightarrow> string \<Rightarrow> sqlval \<Rightarrow> sqlval option" where
  "store_col eng t c v = (case map_of (schema t) c of None \<Rightarrow> None | Some (ty, nullable) \<Rightarrow> store_val eng ty nullable v)"

fun store_row :: "engine \<Rightarrow> string \<Rightarrow> (string \<times> sqlval) list \<Rightarrow> row option" where
  "store_row eng t [] = Some []"
| "store_row eng t ((c, v) # cvs) =
     (case (store_col eng t c v, store_row eng t cvs) of
        (Some v', Some r) \<Rightarrow> Some ((c, v') # r) | _ \<Rightarrow> None)"

definition key_agrees :: "engine \<Rightarrow> row \<Rightarrow> row \<Rightarrow> string list \<Rightarrow> bool" where
  "key_agrees eng r r' k \<longleftrightarrow> list_all (\<lambda>c. sql_eq eng (col c r) (col c r')) k"

definition same_key_row :: "engine \<Rightarrow> string \<Rightarrow> row \<Rightarrow> row \<Rightarrow> bool" where
  "same_key_row eng t r r' \<longleftrightarrow> list_ex (key_agrees eng r r') (unique_keys t)"

text \<open>The row that \<open>ON DUPLICATE KEY UPDATE\<close> changes: one that agrees with the new one in the first key
  for which there is any.\<close>

definition clashing :: "engine \<Rightarrow> string \<Rightarrow> row \<Rightarrow> row list \<Rightarrow> row \<Rightarrow> bool" where
  "clashing eng t r rows r' =
     (case find (\<lambda>k. list_ex (\<lambda>x. key_agrees eng r x k) rows) (unique_keys t) of
        None \<Rightarrow> False | Some k \<Rightarrow> key_agrees eng r r' k)"

fun update_first :: "('a \<Rightarrow> bool) \<Rightarrow> ('a \<Rightarrow> 'a) \<Rightarrow> 'a list \<Rightarrow> 'a list" where
  "update_first p f [] = []"
| "update_first p f (x # xs) = (if p x then f x # xs else x # update_first p f xs)"

definition unique_ok :: "engine \<Rightarrow> string \<Rightarrow> row list \<Rightarrow> bool" where
  "unique_ok eng t rows \<longleftrightarrow> sorted_wrt (\<lambda>r r'. \<not> same_key_row eng t r r') rows"

definition refers :: "engine \<Rightarrow> tables \<Rightarrow> string \<Rightarrow> row \<Rightarrow> bool" where
  "refers eng T t r \<longleftrightarrow>
     list_all (\<lambda>(c, t', c'). col c r = SNull \<or> list_ex (\<lambda>r'. sql_eq eng (col c r) (col c' r')) (T t')) (foreign_keys t)"

definition set_cols :: "(string \<times> sqlval) list \<Rightarrow> row \<Rightarrow> row" where
  "set_cols cvs r = fold (\<lambda>(c, v). AList.update c v) cvs r"

fun sql_exec :: "engine \<Rightarrow> command \<Rightarrow> sqlval list \<Rightarrow> tables \<Rightarrow> tables option" where
  "sql_exec eng (Insert t ces dups) args T =
     (case store_row eng t (map (\<lambda>(c, e). (c, eval_expr args e)) ces) of
        None \<Rightarrow> None
      | Some r \<Rightarrow>
          if \<not> refers eng T t r then None
          else if list_ex (same_key_row eng t r) (T t) then
            (if dups = [] then None
             else
               (let rows = update_first (clashing eng t r (T t)) (set_cols (map (\<lambda>c. (c, col c r)) dups)) (T t) in
                if unique_ok eng t rows then Some (T(t := rows)) else None))
          else Some (T(t := T t @ [r])))"
| "sql_exec eng (Update t ces wh) args T =
     (case store_row eng t (map (\<lambda>(c, e). (c, eval_expr args e)) ces) of
        None \<Rightarrow> None
      | Some cvs \<Rightarrow> Some (T(t := map (\<lambda>r. if row_matches eng wh args r then set_cols cvs r else r) (T t))))"

text \<open>The statements to which this meaning applies: they name columns of the schema, a limit is a number
  that is not negative, an insertion gives every column, and an update leaves keys and references
  alone. All statements of the program are of this kind.\<close>

definition known_cols :: "string \<Rightarrow> string list \<Rightarrow> bool" where
  "known_cols t cs \<longleftrightarrow> schema t \<noteq> [] \<and> list_all (\<lambda>c. c \<in> set (map fst (schema t))) cs"

definition query_ok :: "query \<Rightarrow> sqlval list \<Rightarrow> bool" where
  "query_ok q args \<longleftrightarrow>
     known_cols (QTable q) (QCols q @ map fst (QWhere q) @ (case QOrder q of None \<Rightarrow> [] | Some (c, _) \<Rightarrow> [c])) \<and>
     (case QLimit q of None \<Rightarrow> True | Some e \<Rightarrow> (case eval_expr args e of SInt n \<Rightarrow> 0 \<le> n | _ \<Rightarrow> False))"

fun command_ok :: "command \<Rightarrow> bool" where
  "command_ok (Insert t ces dups) \<longleftrightarrow>
     known_cols t (map fst ces) \<and> list_all (\<lambda>c. c \<in> set (map fst ces)) (map fst (schema t)) \<and> distinct (map fst ces) \<and>
     known_cols t dups \<and> list_all (\<lambda>c. c \<notin> set (map fst (foreign_keys t))) dups"
| "command_ok (Update t ces wh) \<longleftrightarrow>
     known_cols t (map fst ces) \<and> known_cols t (map fst wh) \<and>
     list_all (\<lambda>c. c \<notin> set (concat (unique_keys t)) \<and> c \<notin> set (map fst (foreign_keys t))) (map fst ces)"

section \<open>The interface of \<open>database/sql\<close>\<close>

text \<open>A query gives its rows and the error that ended them. \<open>ScanErr\<close> is the message for a column that
  cannot be converted.\<close>

record 'd DB =
  ExecContext :: "command \<Rightarrow> sqlval list \<Rightarrow> 'd \<Rightarrow> go_error option \<times> 'd"
  QueryContext :: "query \<Rightarrow> sqlval list \<Rightarrow> 'd \<Rightarrow> (sqlval list list \<times> go_error option) res"
  BeginTx :: "'d \<Rightarrow> go_error option \<times> 'd"
  TxExecContext :: "command \<Rightarrow> sqlval list \<Rightarrow> 'd \<Rightarrow> go_error option \<times> 'd"
  TxQueryContext :: "query \<Rightarrow> sqlval list \<Rightarrow> 'd \<Rightarrow> (sqlval list list \<times> go_error option) res"
  Commit :: "'d \<Rightarrow> go_error option \<times> 'd"
  Rollback :: "'d \<Rightarrow> 'd"
  ScanErr :: "nat \<Rightarrow> sqlval \<Rightarrow> go_error"

text \<open>\<open>QueryRowContext(...).Scan(...)\<close>: the first row, or \<open>None\<close> for \<open>sql.ErrNoRows\<close>.\<close>

definition QueryRow :: "'d DB \<Rightarrow> query \<Rightarrow> sqlval list \<Rightarrow> 'd \<Rightarrow> (sqlval list \<Rightarrow> 'a res) \<Rightarrow> 'a option res" where
  "QueryRow db q args d scan =
     bind_res (QueryContext db q args d) (\<lambda>(rows, err).
       case rows of
         [] \<Rightarrow> (case err of Some e \<Rightarrow> Inl e | None \<Rightarrow> Inr None)
       | r # _ \<Rightarrow> bind_res (scan r) (\<lambda>x. Inr (Some x)))"

text \<open>\<open>for rows.Next() { rows.Scan(...) }\<close> and then \<open>rows.Err()\<close>.\<close>

fun scan_rows :: "(sqlval list \<Rightarrow> 'a res) \<Rightarrow> sqlval list list \<Rightarrow> go_error option \<Rightarrow> 'a list res" where
  "scan_rows scan [] err = (case err of Some e \<Rightarrow> Inl e | None \<Rightarrow> Inr [])"
| "scan_rows scan (r # rs) err = bind_res (scan r) (\<lambda>x. bind_res (scan_rows scan rs err) (\<lambda>xs. Inr (x # xs)))"

text \<open>Conversion of a column into the Go types of the destinations.\<close>

fun scan_string :: "'d DB \<Rightarrow> nat \<Rightarrow> sqlval \<Rightarrow> string res" where
  "scan_string db i (SStr s) = Inr s"
| "scan_string db i v = Inl (ScanErr db i v)"

fun scan_bytes :: "'d DB \<Rightarrow> nat \<Rightarrow> sqlval \<Rightarrow> string res" where
  "scan_bytes db i (SStr s) = Inr s"
| "scan_bytes db i SNull = Inr []"
| "scan_bytes db i v = Inl (ScanErr db i v)"

fun scan_null_string :: "'d DB \<Rightarrow> nat \<Rightarrow> sqlval \<Rightarrow> string option res" where
  "scan_null_string db i (SStr s) = Inr (Some s)"
| "scan_null_string db i SNull = Inr None"
| "scan_null_string db i v = Inl (ScanErr db i v)"

fun scan_uint64 :: "'d DB \<Rightarrow> nat \<Rightarrow> sqlval \<Rightarrow> uint64 res" where
  "scan_uint64 db i (SInt n) = (if 0 \<le> n \<and> n < 2 ^ 64 then Inr (word_of_int n) else Inl (ScanErr db i (SInt n)))"
| "scan_uint64 db i v = Inl (ScanErr db i v)"

fun scan_int :: "'d DB \<Rightarrow> nat \<Rightarrow> sqlval \<Rightarrow> int res" where
  "scan_int db i (SInt n) = (if - (2 ^ 63) \<le> n \<and> n < 2 ^ 63 then Inr n else Inl (ScanErr db i (SInt n)))"
| "scan_int db i v = Inl (ScanErr db i v)"

fun scan_null_int64 :: "'d DB \<Rightarrow> nat \<Rightarrow> sqlval \<Rightarrow> int option res" where
  "scan_null_int64 db i SNull = Inr None"
| "scan_null_int64 db i v = bind_res (scan_int db i v) (\<lambda>n. Inr (Some n))"

fun scan_time :: "'d DB \<Rightarrow> nat \<Rightarrow> sqlval \<Rightarrow> time res" where
  "scan_time db i (STime t) = Inr t"
| "scan_time db i v = Inl (ScanErr db i v)"

section \<open>What a server promises\<close>

text \<open>Of a server whose calls may fail: nothing that happens in a transaction reaches the tables
  before it is committed, and a transaction stays open, with the locks it took, until it is committed or
  rolled back. \<open>up\<close> are the states with the tables of the schema in place and no transaction of the
  program open.\<close>

locale tx_server =
  fixes db :: "'d DB" and tabs :: "'d \<Rightarrow> tables" and up :: "'d \<Rightarrow> bool" and open_tx :: "'d \<Rightarrow> bool"
  assumes begin_frame: "up d \<Longrightarrow> BeginTx db d = (err, d') \<Longrightarrow> tabs d' = tabs d \<and> (if err = None then open_tx d' else up d')"
    and tx_exec_frame: "open_tx d \<Longrightarrow> command_ok c \<Longrightarrow> TxExecContext db c args d = (err, d') \<Longrightarrow> tabs d' = tabs d \<and> open_tx d'"
    and rollback_frame: "open_tx d \<Longrightarrow> up (Rollback db d) \<and> tabs (Rollback db d) = tabs d"

text \<open>Documents are equal up to the order of members.\<close>

fun canon :: "json \<Rightarrow> json" where
  "canon (JArr vs) = JArr (map canon vs)"
| "canon (JObj ms) = JObj (sort_key fst (map (\<lambda>(k, v). (k, canon v)) ms))"
| "canon j = j"

text \<open>A reachable server: every statement has its documented meaning, a failed one changes nothing, a
  transaction works on its own view of the tables, which a commit makes the tables of all and a
  rollback drops. Transactions do not overlap: the locks that a claim takes on the rows it selects
  keep a second one waiting. A JSON column returns the document that was stored.\<close>

locale sql_server =
  fixes db :: "'d DB" and eng :: engine and tabs :: "'d \<Rightarrow> tables" and up :: "'d \<Rightarrow> bool"
    and open_tx :: "'d \<Rightarrow> bool" and view :: "'d \<Rightarrow> tables"
  assumes query_law: "up d \<Longrightarrow> query_ok q args \<Longrightarrow> \<exists>rs. answers eng q args (tabs d) rs \<and>
      QueryContext db q args d = Inr (map (project (QCols q)) rs, None)"
    and exec_law: "up d \<Longrightarrow> command_ok c \<Longrightarrow> (case sql_exec eng c args (tabs d) of
        Some T \<Rightarrow> \<exists>d'. ExecContext db c args d = (None, d') \<and> up d' \<and> tabs d' = T
      | None \<Rightarrow> \<exists>e d'. ExecContext db c args d = (Some e, d') \<and> up d' \<and> tabs d' = tabs d)"
    and begin_law: "up d \<Longrightarrow> \<exists>d'. BeginTx db d = (None, d') \<and> open_tx d' \<and> tabs d' = tabs d \<and> view d' = tabs d"
    and tx_query_law: "open_tx d \<Longrightarrow> query_ok q args \<Longrightarrow> \<exists>rs. answers eng q args (view d) rs \<and>
      TxQueryContext db q args d = Inr (map (project (QCols q)) rs, None)"
    and tx_exec_law: "open_tx d \<Longrightarrow> command_ok c \<Longrightarrow> (case sql_exec eng c args (view d) of
        Some T \<Rightarrow> \<exists>d'. TxExecContext db c args d = (None, d') \<and> open_tx d' \<and> tabs d' = tabs d \<and> view d' = T
      | None \<Rightarrow> \<exists>e d'. TxExecContext db c args d = (Some e, d') \<and> open_tx d' \<and> tabs d' = tabs d \<and> view d' = view d)"
    and commit_law: "open_tx d \<Longrightarrow> \<exists>d'. Commit db d = (None, d') \<and> up d' \<and> tabs d' = view d"
    and rollback_law: "open_tx d \<Longrightarrow> up (Rollback db d) \<and> tabs (Rollback db d) = tabs d"
    and json_law: "wf_json j \<Longrightarrow> json_depth j \<le> max_depth \<Longrightarrow> JsonText eng j \<noteq> [] \<and>
      (\<exists>j'. unmarshal_doc (JsonText eng j) = Inr j' \<and> canon j' = canon j)"

sublocale sql_server \<subseteq> frame: tx_server db tabs up open_tx
proof unfold_locales
  show "tabs d' = tabs d \<and> (if err = None then open_tx d' else up d')" if "up d" "BeginTx db d = (err, d')" for d err d'
    using begin_law [OF that(1)] that(2) by auto
  show "tabs d' = tabs d \<and> open_tx d'" if "open_tx d" "command_ok c" "TxExecContext db c args d = (err, d')" for c args d err d'
    using tx_exec_law [OF that(1,2), of args] that(3) by (auto split: option.splits)
qed (fact rollback_law)

section \<open>A server that is its tables\<close>

record table_state =
  Committed :: tables
  Working :: tables

definition table_rows :: "engine \<Rightarrow> query \<Rightarrow> sqlval list \<Rightarrow> tables \<Rightarrow> row list" where
  "table_rows eng q args T =
     (let rs = filter (row_matches eng (QWhere q) args) (T (QTable q)) in
      row_limit q args
        (case QOrder q of
           None \<Rightarrow> rs
         | Some (c, ascending) \<Rightarrow>
             (let sorted = sort_key (\<lambda>r. order_key eng (col c r)) rs in if ascending then sorted else rev sorted)))"

definition table_db :: "engine \<Rightarrow> table_state DB" where
  "table_db eng =
     \<lparr>ExecContext = (\<lambda>c args d. case sql_exec eng c args (Committed d) of
          Some T \<Rightarrow> (None, d\<lparr>Committed := T\<rparr>) | None \<Rightarrow> (Some ''statement failed'', d)),
      QueryContext = (\<lambda>q args d. Inr (map (project (QCols q)) (table_rows eng q args (Committed d)), None)),
      BeginTx = (\<lambda>d. (None, d\<lparr>Working := Committed d\<rparr>)),
      TxExecContext = (\<lambda>c args d. case sql_exec eng c args (Working d) of
          Some T \<Rightarrow> (None, d\<lparr>Working := T\<rparr>) | None \<Rightarrow> (Some ''statement failed'', d)),
      TxQueryContext = (\<lambda>q args d. Inr (map (project (QCols q)) (table_rows eng q args (Working d)), None)),
      Commit = (\<lambda>d. (None, d\<lparr>Committed := Working d\<rparr>)),
      Rollback = (\<lambda>d. d),
      ScanErr = (\<lambda>_ _. ''unsupported Scan'')\<rparr>"

definition plain_engine :: engine where
  "plain_engine = \<lparr>Collate = (\<lambda>s. s), JsonText = render\<rparr>"

lemma table_rows_answer: "answers eng q args T (table_rows eng q args T)"
  unfolding answers_def
  by (rule exI [of _ "let rs = filter (row_matches eng (QWhere q) args) (T (QTable q)) in
        case QOrder q of None \<Rightarrow> rs | Some (c, ascending) \<Rightarrow>
          (let sorted = sort_key (\<lambda>r. order_key eng (col c r)) rs in if ascending then sorted else rev sorted)"])
    (auto simp: table_rows_def ordered_by_def Let_def split: option.split)

lemma render_nonempty_bytes: "wf_json j \<Longrightarrow> render j \<noteq> []"
  using render_nonempty by force

text \<open>Any collation will do, and documents are kept as the encoder spells them.\<close>

lemma table_server:
  assumes "JsonText eng = render"
  shows "sql_server (table_db eng) eng Committed (\<lambda>_. True) (\<lambda>_. True) Working"
proof unfold_locales
  show "\<exists>rs. answers eng q args (Committed d) rs \<and>
      QueryContext (table_db eng) q args d = Inr (map (project (QCols q)) rs, None)" for d q args
    by (rule exI [of _ "table_rows eng q args (Committed d)"]) (simp add: table_db_def table_rows_answer)
  show "\<exists>rs. answers eng q args (Working d) rs \<and>
      TxQueryContext (table_db eng) q args d = Inr (map (project (QCols q)) rs, None)" for d q args
    by (rule exI [of _ "table_rows eng q args (Working d)"]) (simp add: table_db_def table_rows_answer)
  show "JsonText eng j \<noteq> [] \<and> (\<exists>j'. unmarshal_doc (JsonText eng j) = Inr j' \<and> canon j' = canon j)"
    if "wf_json j" "json_depth j \<le> max_depth" for j
    using that by (simp add: assms unmarshal_render render_nonempty_bytes)
qed (auto simp: table_db_def split: option.split)

interpretation plain_tables: sql_server "table_db plain_engine" plain_engine Committed "\<lambda>_. True" "\<lambda>_. True" Working
  by (rule table_server) (simp add: plain_engine_def)

end
