(* ===== verification/Mysql_Store.thy ===== *)
theory Mysql_Store
  imports Sql Response_Json
begin

text \<open>
  \<open>internal/state/mysql_store.go\<close> and \<open>mysql_runs_queue.go\<close>: the store over a database. The statements
  are the SQL texts of the code; each operation sends them and converts the rows, for any database
  whatsoever, its errors included.
\<close>

definition field :: "sqlval list \<Rightarrow> nat \<Rightarrow> sqlval" where
  "field r i = (if i < length r then r ! i else SNull)"

section \<open>Canonical product state\<close>

definition q_product_hash :: query where
  "q_product_hash =
     \<lparr>QCols = [''normalized_hash''], QTable = ''product_state'',
      QWhere = [(''tenant_id'', Param 0), (''product_key'', Param 1)], QOrder = None, QLimit = None\<rparr>"

definition my_GetProductHash :: "'d DB \<Rightarrow> 'd \<Rightarrow> uint64 \<Rightarrow> string \<Rightarrow> string option res" where
  "my_GetProductHash db d tenantID productKey =
     QueryRow db q_product_hash [SInt (uint tenantID), SStr productKey] d (\<lambda>r. scan_string db 0 (field r 0))"

definition c_upsert_hash :: command where
  "c_upsert_hash =
     Insert ''product_state'' [(''tenant_id'', Param 0), (''product_key'', Param 1), (''normalized_hash'', Param 2)]
       [''normalized_hash'']"

definition my_UpsertProductHash :: "'d DB \<Rightarrow> uint64 \<Rightarrow> string \<Rightarrow> string \<Rightarrow> 'd \<Rightarrow> go_error option \<times> 'd" where
  "my_UpsertProductHash db tenantID productKey hash d =
     ExecContext db c_upsert_hash [SInt (uint tenantID), SStr productKey, SStr hash] d"

section \<open>Writing runs\<close>

definition run_cols :: "string list" where
  "run_cols = [''run_id'', ''tenant_id'', ''feed_id'', ''status'', ''push_triggered'', ''received'', ''valid'', ''rejected'',
     ''unchanged'', ''enqueued'', ''warnings_json'', ''created_at'']"

definition c_insert_run :: command where
  "c_insert_run = Insert ''runs'' (zip run_cols (map Param [0..<12])) []"

definition run_args :: "RunRecord \<Rightarrow> sqlval list" where
  "run_args run =
     [SStr (RunID run), SInt (uint (TenantID run)), (case FeedID run of None \<Rightarrow> SNull | Some f \<Rightarrow> SInt (uint f)),
      SStr (Status run), SBool (PushTriggered run), SInt (int (RunReceived run)), SInt (int (RunValid run)),
      SInt (int (RunRejected run)), SInt (int (RunUnchanged run)), SInt (int (RunEnqueued run)),
      SStr (render (warning_json (RunWarnings run))), STime (CreatedAt run)]"

definition my_InsertRun :: "'d DB \<Rightarrow> RunRecord \<Rightarrow> 'd \<Rightarrow> go_error option \<times> 'd" where
  "my_InsertRun db run d = ExecContext db c_insert_run (run_args run) d"

definition c_insert_product :: command where
  "c_insert_product =
     Insert ''run_products''
       [(''run_id'', Param 0), (''product_key'', Param 1), (''disposition'', Param 2), (''reason'', Param 3),
        (''normalized_hash'', Param 4), (''issues_json'', Param 5)] []"

text \<open>A result without issues holds a nil slice, which is encoded as null.\<close>

definition issues_json :: "ValidationIssue list \<Rightarrow> json" where
  "issues_json is = (if is = [] then JNull else JArr (map issue_json is))"

fun my_InsertRunProducts :: "'d DB \<Rightarrow> string \<Rightarrow> ProductProcessResult list \<Rightarrow> 'd \<Rightarrow> go_error option \<times> 'd" where
  "my_InsertRunProducts db runID [] d = (None, d)"
| "my_InsertRunProducts db runID (p # ps) d =
     (case ExecContext db c_insert_product
             [SStr runID, SStr (ResProductKey p), SStr (ResDisposition p), SStr (ResReason p), SStr (ResHash p),
              SStr (render (issues_json (ResIssues p)))] d of
        (Some err, d) \<Rightarrow> (Some err, d)
      | (None, d) \<Rightarrow> my_InsertRunProducts db runID ps d)"

section \<open>The idempotency cache\<close>

definition q_idempotency :: query where
  "q_idempotency =
     \<lparr>QCols = [''status_code'', ''response_body_json'', ''created_at'', ''expires_at''], QTable = ''idempotency'',
      QWhere = [(''tenant_id'', Param 0), (''endpoint'', Param 1), (''idem_key_hash'', Param 2)],
      QOrder = None, QLimit = None\<rparr>"

definition my_GetIdempotency ::
  "'d DB \<Rightarrow> time \<Rightarrow> 'd \<Rightarrow> uint64 \<Rightarrow> string \<Rightarrow> string \<Rightarrow> string IdempotencyRecord option res" where
  "my_GetIdempotency db now d tenantID endpoint idemKeyHash =
     bind_res (QueryRow db q_idempotency [SInt (uint tenantID), SStr endpoint, SStr idemKeyHash] d
       (\<lambda>r. bind_res (scan_int db 0 (field r 0)) (\<lambda>status.
            bind_res (scan_bytes db 1 (field r 1)) (\<lambda>body.
            bind_res (scan_time db 2 (field r 2)) (\<lambda>created.
            bind_res (scan_time db 3 (field r 3)) (\<lambda>expires. Inr (status, body, created, expires)))))))
     (\<lambda>found. case found of
        None \<Rightarrow> Inr None
      | Some (status, body, created, expires) \<Rightarrow>
          if now > expires then Inr None
          else Inr (Some \<lparr>StatusCode = nat status, BodyJSON = body, ExpiresAt = expires, IdemCreatedAt = created\<rparr>))"

definition c_put_idempotency :: command where
  "c_put_idempotency =
     Insert ''idempotency''
       [(''tenant_id'', Param 0), (''endpoint'', Param 1), (''idem_key_hash'', Param 2), (''status_code'', Param 3),
        (''response_body_json'', Param 4), (''created_at'', Param 5), (''expires_at'', Param 6)]
       [''status_code'', ''response_body_json'', ''created_at'', ''expires_at'']"

definition my_PutIdempotency ::
  "'d DB \<Rightarrow> uint64 \<Rightarrow> string \<Rightarrow> string \<Rightarrow> string IdempotencyRecord \<Rightarrow> 'd \<Rightarrow> go_error option \<times> 'd" where
  "my_PutIdempotency db tenantID endpoint idemKeyHash rec d =
     ExecContext db c_put_idempotency
       [SInt (uint tenantID), SStr endpoint, SStr idemKeyHash, SInt (int (StatusCode rec)), SStr (BodyJSON rec),
        STime (IdemCreatedAt rec), STime (ExpiresAt rec)] d"

section \<open>Reading runs\<close>

definition decode_warning_field :: "string \<times> json \<Rightarrow> UnknownKeyWarning \<Rightarrow> UnknownKeyWarning" where
  "decode_warning_field kv w =
     (if EqualFold (fst kv) ''unknown_keys''
      then w\<lparr>UnknownKeys := decode_string_slice (snd kv) (UnknownKeys w)\<rparr> else w)"

fun decode_warning :: "json \<Rightarrow> UnknownKeyWarning \<Rightarrow> UnknownKeyWarning" where
  "decode_warning (JObj ms) w = fold decode_warning_field ms w"
| "decode_warning _ w = w"

definition decode_issue_field :: "string \<times> json \<Rightarrow> ValidationIssue \<Rightarrow> ValidationIssue" where
  "decode_issue_field kv i =
     (if EqualFold (fst kv) ''path'' then i\<lparr>Path := decode_string (snd kv) (Path i)\<rparr>
      else if EqualFold (fst kv) ''code'' then i\<lparr>Code := decode_string (snd kv) (Code i)\<rparr>
      else if EqualFold (fst kv) ''message'' then i\<lparr>Message := decode_string (snd kv) (Message i)\<rparr>
      else i)"

fun decode_issue :: "json \<Rightarrow> ValidationIssue" where
  "decode_issue (JObj ms) = fold decode_issue_field ms \<lparr>Path = '''', Code = '''', Message = ''''\<rparr>"
| "decode_issue _ = \<lparr>Path = '''', Code = '''', Message = ''''\<rparr>"

fun decode_issues :: "json \<Rightarrow> ValidationIssue list" where
  "decode_issues (JArr vs) = map decode_issue vs"
| "decode_issues _ = []"

text \<open>\<open>if len(b) > 0 { _ = json.Unmarshal(b, &v) }\<close>\<close>

definition unmarshal_into :: "string \<Rightarrow> (json \<Rightarrow> 'a) \<Rightarrow> 'a \<Rightarrow> 'a" where
  "unmarshal_into b dec dst = (if b = [] then dst else case unmarshal_doc b of Inl _ \<Rightarrow> dst | Inr j \<Rightarrow> dec j)"

definition scan_run :: "'d DB \<Rightarrow> sqlval list \<Rightarrow> RunRecord res" where
  "scan_run db r =
     bind_res (scan_string db 0 (field r 0)) (\<lambda>runID.
     bind_res (scan_uint64 db 1 (field r 1)) (\<lambda>tenantID.
     bind_res (scan_null_int64 db 2 (field r 2)) (\<lambda>feedID.
     bind_res (scan_string db 3 (field r 3)) (\<lambda>status.
     bind_res (scan_int db 4 (field r 4)) (\<lambda>push.
     bind_res (scan_int db 5 (field r 5)) (\<lambda>received.
     bind_res (scan_int db 6 (field r 6)) (\<lambda>valid.
     bind_res (scan_int db 7 (field r 7)) (\<lambda>rejected.
     bind_res (scan_int db 8 (field r 8)) (\<lambda>unchanged.
     bind_res (scan_int db 9 (field r 9)) (\<lambda>enqueued.
     bind_res (scan_bytes db 10 (field r 10)) (\<lambda>warnings.
     bind_res (scan_time db 11 (field r 11)) (\<lambda>created.
       Inr \<lparr>RunID = runID, TenantID = tenantID, FeedID = map_option word_of_int feedID, Status = status,
            PushTriggered = (push = 1), RunReceived = nat received, RunValid = nat valid, RunRejected = nat rejected,
            RunUnchanged = nat unchanged, RunEnqueued = nat enqueued,
            RunWarnings = unmarshal_into warnings (\<lambda>j. decode_warning j \<lparr>UnknownKeys = []\<rparr>) \<lparr>UnknownKeys = []\<rparr>,
            CreatedAt = created\<rparr>))))))))))))"

definition q_list_runs :: query where
  "q_list_runs =
     \<lparr>QCols = run_cols, QTable = ''runs'', QWhere = [(''tenant_id'', Param 0)], QOrder = Some (''created_at'', False),
      QLimit = Some (Param 1)\<rparr>"

definition my_ListRuns :: "'d DB \<Rightarrow> 'd \<Rightarrow> uint64 \<Rightarrow> int \<Rightarrow> RunRecord list res" where
  "my_ListRuns db d tenantID limit =
     (let limit = (if limit \<le> 0 then 50 else limit); limit = (if limit > 200 then 200 else limit) in
      bind_res (QueryContext db q_list_runs [SInt (uint tenantID), SInt limit] d) (\<lambda>(rows, err).
        scan_rows (scan_run db) rows err))"

definition q_get_run :: query where
  "q_get_run =
     \<lparr>QCols = run_cols, QTable = ''runs'', QWhere = [(''tenant_id'', Param 0), (''run_id'', Param 1)], QOrder = None,
      QLimit = None\<rparr>"

definition my_GetRun :: "'d DB \<Rightarrow> 'd \<Rightarrow> uint64 \<Rightarrow> string \<Rightarrow> RunRecord option res" where
  "my_GetRun db d tenantID runID = QueryRow db q_get_run [SInt (uint tenantID), SStr runID] d (scan_run db)"

definition q_run_products :: query where
  "q_run_products =
     \<lparr>QCols = [''product_key'', ''disposition'', ''reason'', ''normalized_hash'', ''issues_json''],
      QTable = ''run_products'', QWhere = [(''run_id'', Param 0)], QOrder = Some (''product_key'', True),
      QLimit = Some (Param 1)\<rparr>"

definition scan_product :: "'d DB \<Rightarrow> sqlval list \<Rightarrow> ProductProcessResult res" where
  "scan_product db r =
     bind_res (scan_string db 0 (field r 0)) (\<lambda>key.
     bind_res (scan_string db 1 (field r 1)) (\<lambda>disposition.
     bind_res (scan_null_string db 2 (field r 2)) (\<lambda>reason.
     bind_res (scan_null_string db 3 (field r 3)) (\<lambda>hash.
     bind_res (scan_bytes db 4 (field r 4)) (\<lambda>issues.
       Inr \<lparr>ResProductKey = key, ResHash = (case hash of Some h \<Rightarrow> h | None \<Rightarrow> ''''), ResDisposition = disposition,
            ResReason = (case reason of Some x \<Rightarrow> x | None \<Rightarrow> ''''),
            ResIssues = unmarshal_into issues decode_issues []\<rparr>)))))"

definition my_ListRunProducts :: "'d DB \<Rightarrow> 'd \<Rightarrow> string \<Rightarrow> int \<Rightarrow> ProductProcessResult list res" where
  "my_ListRunProducts db d runID limit =
     (let limit = (if limit \<le> 0 then 200 else limit); limit = (if limit > 2000 then 2000 else limit) in
      bind_res (QueryContext db q_run_products [SStr runID, SInt limit] d) (\<lambda>(rows, err).
        scan_rows (scan_product db) rows err))"

section \<open>The queue of runs\<close>

definition q_claimable :: query where
  "q_claimable =
     \<lparr>QCols = [''run_id'', ''tenant_id''], QTable = ''runs'',
      QWhere = [(''status'', Lit (SStr ''has_changes'')), (''push_triggered'', Lit (SInt 1))],
      QOrder = Some (''created_at'', True), QLimit = Some (Param 0)\<rparr>"

definition scan_claim :: "'d DB \<Rightarrow> sqlval list \<Rightarrow> RunClaim res" where
  "scan_claim db r =
     bind_res (scan_string db 0 (field r 0)) (\<lambda>runID.
     bind_res (scan_uint64 db 1 (field r 1)) (\<lambda>tenantID. Inr \<lparr>ClaimRunID = runID, ClaimTenantID = tenantID\<rparr>))"

definition c_mark_processing :: command where
  "c_mark_processing =
     Update ''runs'' [(''status'', Lit (SStr ''processing''))]
       [(''run_id'', Param 0), (''tenant_id'', Param 1), (''status'', Lit (SStr ''has_changes''))]"

fun mark_claims :: "'d DB \<Rightarrow> RunClaim list \<Rightarrow> 'd \<Rightarrow> go_error option \<times> 'd" where
  "mark_claims db [] d = (None, d)"
| "mark_claims db (c # cs) d =
     (case TxExecContext db c_mark_processing [SStr (ClaimRunID c), SInt (uint (ClaimTenantID c))] d of
        (Some err, d) \<Rightarrow> (Some err, d)
      | (None, d) \<Rightarrow> mark_claims db cs d)"

text \<open>The deferred rollback runs on every exit; after \<open>Commit\<close> the transaction is done and it has no
  effect.\<close>

definition my_ClaimRuns :: "'d DB \<Rightarrow> int \<Rightarrow> 'd \<Rightarrow> RunClaim list res \<times> 'd" where
  "my_ClaimRuns db limit d =
     (let limit = (if limit \<le> 0 then 10 else limit) in
      case BeginTx db d of
        (Some err, d) \<Rightarrow> (Inl err, d)
      | (None, d) \<Rightarrow>
          (case bind_res (TxQueryContext db q_claimable [SInt limit] d) (\<lambda>(rows, err). scan_rows (scan_claim db) rows err) of
             Inl err \<Rightarrow> (Inl err, Rollback db d)
           | Inr claims \<Rightarrow>
               (case mark_claims db claims d of
                  (Some err, d) \<Rightarrow> (Inl err, Rollback db d)
                | (None, d) \<Rightarrow>
                    (case Commit db d of
                       (Some err, d) \<Rightarrow> (Inl err, d)
                     | (None, d) \<Rightarrow> (Inr claims, d)))))"

definition c_set_status :: "string \<Rightarrow> command" where
  "c_set_status st = Update ''runs'' [(''status'', Lit (SStr st))] [(''run_id'', Param 0), (''tenant_id'', Param 1)]"

definition my_CompleteRun :: "'d DB \<Rightarrow> uint64 \<Rightarrow> string \<Rightarrow> 'd \<Rightarrow> go_error option \<times> 'd" where
  "my_CompleteRun db tenantID runID d =
     ExecContext db (c_set_status ''completed'') [SStr runID, SInt (uint tenantID)] d"

definition my_FailRun :: "'d DB \<Rightarrow> uint64 \<Rightarrow> string \<Rightarrow> string \<Rightarrow> 'd \<Rightarrow> go_error option \<times> 'd" where
  "my_FailRun db tenantID runID message d =
     ExecContext db (c_set_status ''failed'') [SStr runID, SInt (uint tenantID)] d"

definition mysql_Store :: "'d DB \<Rightarrow> ('d, string) Store" where
  "mysql_Store db =
     \<lparr>GetProductHash = my_GetProductHash db, UpsertProductHash = my_UpsertProductHash db,
      InsertRun = my_InsertRun db, InsertRunProducts = my_InsertRunProducts db,
      GetIdempotency = my_GetIdempotency db, PutIdempotency = my_PutIdempotency db,
      ListRuns = (\<lambda>_. my_ListRuns db), GetRun = my_GetRun db, ListRunProducts = (\<lambda>_. my_ListRunProducts db),
      ClaimRuns = (\<lambda>_. my_ClaimRuns db), CompleteRun = my_CompleteRun db, FailRun = my_FailRun db\<rparr>"

lemma mysql_Store_simps [simp]:
  "GetProductHash (mysql_Store db) = my_GetProductHash db" "UpsertProductHash (mysql_Store db) = my_UpsertProductHash db"
  "InsertRun (mysql_Store db) = my_InsertRun db" "InsertRunProducts (mysql_Store db) = my_InsertRunProducts db"
  "GetIdempotency (mysql_Store db) = my_GetIdempotency db" "PutIdempotency (mysql_Store db) = my_PutIdempotency db"
  "ListRuns (mysql_Store db) = (\<lambda>_. my_ListRuns db)" "GetRun (mysql_Store db) = my_GetRun db"
  "ListRunProducts (mysql_Store db) = (\<lambda>_. my_ListRunProducts db)" "ClaimRuns (mysql_Store db) = (\<lambda>_. my_ClaimRuns db)"
  "CompleteRun (mysql_Store db) = my_CompleteRun db" "FailRun (mysql_Store db) = my_FailRun db"
  by (simp_all add: mysql_Store_def)


text \<open>Every statement is one that the tables give a meaning to.\<close>

lemma commands_ok:
  "command_ok c_upsert_hash" "command_ok c_insert_run" "command_ok c_insert_product" "command_ok c_put_idempotency"
  "command_ok c_mark_processing" "command_ok (c_set_status st)"
  by (simp_all add: c_upsert_hash_def c_insert_run_def c_insert_product_def c_put_idempotency_def c_mark_processing_def c_set_status_def
      run_cols_def known_cols_def schema_def unique_keys_def primary_key_def foreign_keys_def upt_rec)

lemma queries_ok:
  "query_ok q_product_hash args" "query_ok q_get_run args" "query_ok q_idempotency args"
  "0 \<le> n \<Longrightarrow> query_ok q_list_runs [x, SInt n]" "0 \<le> n \<Longrightarrow> query_ok q_run_products [x, SInt n]" "0 \<le> n \<Longrightarrow> query_ok q_claimable [SInt n]"
  by (simp_all add: query_ok_def q_product_hash_def q_get_run_def q_idempotency_def q_list_runs_def q_run_products_def q_claimable_def
      run_cols_def known_cols_def schema_def)

end
