(* ===== verification/Mysql_Contract.thy ===== *)
theory Mysql_Contract
  imports Mysql_Store Handlers Executor
begin

text \<open>
  The MySQL store keeps the contracts of \<open>Store\<close>, for a server that keeps its own (locale
  \<open>sql_server\<close>) and compares strings byte by byte: lookups and updates of product digests within the
  widths of their columns, and the queue of runs. Reading a run back gives the run that was inserted,
  its time rounded to the second. Where the store promises less than the code that uses it assumes,
  the difference is a theorem too.
\<close>

section \<open>Insertions\<close>

lemma sql_insert:
  assumes "store_row eng t (map (\<lambda>(c, e). (c, eval_expr args e)) ces) = Some r" "refers eng T t r"
  shows "\<not> list_ex (same_key_row eng t r) (T t) \<Longrightarrow> sql_exec eng (Insert t ces dups) args T = Some (T(t := T t @ [r]))"
    "list_ex (same_key_row eng t r) (T t) \<Longrightarrow> sql_exec eng (Insert t ces []) args T = None"
    "list_ex (same_key_row eng t r) (T t) \<Longrightarrow> dups \<noteq> [] \<Longrightarrow>
       update_first (clashing eng t r (T t)) (set_cols (map (\<lambda>c. (c, col c r)) dups)) (T t) = rows \<Longrightarrow>
       unique_ok eng t rows \<Longrightarrow> sql_exec eng (Insert t ces dups) args T = Some (T(t := rows))"
  using assms by simp_all

text \<open>Tables with one key only, whose rows stand for the entries of a map.\<close>

lemma clashing_single:
  assumes "unique_keys t = [k]" "list_ex (same_key_row eng t r) rows"
  shows "clashing eng t r rows r' = same_key_row eng t r r'"
  using assms by (auto simp: clashing_def same_key_row_def list_ex_iff)

lemma update_first_entries:
  assumes "x \<in> fst ` set hs" "\<And>e. p (row e) \<longleftrightarrow> fst e = x" "\<And>e. fst e = x \<Longrightarrow> f (row e) = row (x, h)"
  shows "update_first p f (map row hs) = map row (AList.update x h hs)"
  using assms(1)
proof (induction hs)
  case (Cons e hs)
  then show ?case using assms(2,3) by (cases e) auto
qed simp

lemma unique_entries:
  assumes "distinct (map fst hs)" "\<And>e e'. same_key_row eng t (row e) (row e') \<longleftrightarrow> fst e' = fst e"
  shows "unique_ok eng t (map row hs)"
  using assms(1) by (induction hs) (auto simp: unique_ok_def assms(2) image_iff)

lemma list_all_put: "list_all P hs \<Longrightarrow> P (x, h) \<Longrightarrow> list_all P (AList.update x h hs)"
  by (induction hs) auto

lemma update_new: "x \<notin> fst ` set hs \<Longrightarrow> AList.update x h hs = hs @ [(x, h)]"
  by (induction hs) auto

section \<open>Rows\<close>

definition run_row :: "engine \<Rightarrow> RunRecord \<Rightarrow> row" where
  "run_row eng run = zip run_cols
     [SStr (RunID run), SInt (uint (TenantID run)), (case FeedID run of None \<Rightarrow> SNull | Some f \<Rightarrow> SInt (uint f)),
      SStr (Status run), SInt (if PushTriggered run then 1 else 0), SInt (int (RunReceived run)), SInt (int (RunValid run)),
      SInt (int (RunRejected run)), SInt (int (RunUnchanged run)), SInt (int (RunEnqueued run)),
      SStr (JsonText eng (warning_json (RunWarnings run))), STime (CreatedAt run)]"

lemma col_run_row [simp]:
  "col ''run_id'' (run_row eng r) = SStr (RunID r)" "col ''tenant_id'' (run_row eng r) = SInt (uint (TenantID r))"
  "col ''status'' (run_row eng r) = SStr (Status r)" "col ''push_triggered'' (run_row eng r) = SInt (if PushTriggered r then 1 else 0)"
  "col ''created_at'' (run_row eng r) = STime (CreatedAt r)"
  by (simp_all add: run_row_def run_cols_def col_def)

lemma set_status_row: "set_cols [(''status'', SStr st)] (run_row eng r) = run_row eng (r\<lparr>Status := st\<rparr>)"
  by (simp add: set_cols_def run_row_def run_cols_def)

definition hash_row :: "(uint64 \<times> string) \<times> string \<Rightarrow> row" where
  "hash_row e = [(''tenant_id'', SInt (uint (fst (fst e)))), (''product_key'', SStr (snd (fst e))), (''normalized_hash'', SStr (snd e))]"

lemma col_hash_row [simp]:
  "col ''tenant_id'' (hash_row e) = SInt (uint (fst (fst e)))" "col ''product_key'' (hash_row e) = SStr (snd (fst e))"
  "col ''normalized_hash'' (hash_row e) = SStr (snd e)"
  by (simp_all add: hash_row_def col_def)

text \<open>Runs that the columns hold as they are.\<close>

definition whole_second :: "time \<Rightarrow> bool" where
  "whole_second t \<longleftrightarrow> t mod second = 0 \<and> second \<le> t \<and> t < 2 ^ 31 * second"

definition storable_run :: "RunRecord \<Rightarrow> bool" where
  "storable_run r \<longleftrightarrow> fits_chars 64 (RunID r) \<and> fits_chars 64 (Status r) \<and> TenantID r \<noteq> 0 \<and>
     (case FeedID r of None \<Rightarrow> True | Some f \<Rightarrow> uint f < 2 ^ 63) \<and>
     RunReceived r < 2 ^ 31 \<and> RunValid r < 2 ^ 31 \<and> RunRejected r < 2 ^ 31 \<and> RunUnchanged r < 2 ^ 31 \<and>
     RunEnqueued r < 2 ^ 31 \<and> list_all valid_utf8 (UnknownKeys (RunWarnings r)) \<and> whole_second (CreatedAt r)"

definition to_second :: "time \<Rightarrow> time" where
  "to_second t = (t + second div 2) div second * second"

lemma to_second_whole: "t mod second = 0 \<Longrightarrow> to_second t = t"
proof -
  assume "t mod second = 0"
  then obtain k where "t = 1000000000 * k" by (auto simp: second_def)
  then show ?thesis by (simp add: to_second_def second_def)
qed

section \<open>Documents read from a JSON column\<close>

lemma canon_eq_simps:
  "canon j = JStr s \<longleftrightarrow> j = JStr s" "canon j = JNull \<longleftrightarrow> j = JNull"
  by (cases j; simp)+

lemma canon_strings: "map canon js = map JStr ss \<longleftrightarrow> js = map JStr ss"
  by (induction js arbitrary: ss) (auto simp: Cons_eq_map_conv canon_eq_simps)

lemma decode_strings: "map2 decode_string (map JStr ss) (replicate (length ss) '''') = ss"
  by (induction ss) auto

lemma EqualFold_refl_keys [simp]: "EqualFold ''unknown_keys'' ''unknown_keys''"
  by (simp add: EqualFold_ascii)

lemma sort_key_single: "sort_key f xs = [x] \<Longrightarrow> xs = [x]"
  by (metis mset_single_iff mset_sort mset.simps(1,2) mset_zero_iff_right)

lemma decode_stored_warning:
  assumes "canon j = canon (warning_json w)"
  shows "decode_warning j \<lparr>UnknownKeys = []\<rparr> = w"
proof -
  have "canon j = JObj [(''unknown_keys'', JArr (map JStr (UnknownKeys w)))]"
    using assms by (simp add: warning_json_def comp_def)
  then obtain ms where j: "j = JObj ms"
    and sorted: "sort_key fst (map (\<lambda>(k, v). (k, canon v)) ms) = [(''unknown_keys'', JArr (map JStr (UnknownKeys w)))]"
    by (cases j) auto
  from sort_key_single [OF sorted] obtain v where ms: "ms = [(''unknown_keys'', v)]" and v: "canon v = JArr (map JStr (UnknownKeys w))"
    by (auto simp: map_eq_Cons_conv)
  from v have "v = JArr (map JStr (UnknownKeys w))" by (cases v) (auto simp: canon_strings)
  then show ?thesis using decode_strings [of "UnknownKeys w"] by (simp add: j ms decode_warning_field_def)
qed

section \<open>The runs of a table\<close>

definition decode_runs :: "'d DB \<Rightarrow> tables \<Rightarrow> RunRecord list" where
  "decode_runs db T = concat (map (\<lambda>row. case scan_run db (project run_cols row) of Inr r \<Rightarrow> [r] | Inl _ \<Rightarrow> []) (T ''runs''))"

definition runs_ok :: "'d DB \<Rightarrow> engine \<Rightarrow> tables \<Rightarrow> bool" where
  "runs_ok db eng T \<longleftrightarrow> T ''runs'' = map (run_row eng) (decode_runs db T) \<and> distinct (map RunID (decode_runs db T)) \<and>
     list_all storable_run (decode_runs db T)"

definition my_runs :: "'d DB \<Rightarrow> tables \<Rightarrow> string \<Rightarrow> RunRecord option" where
  "my_runs db T = map_of (map (\<lambda>r. (RunID r, r)) (decode_runs db T))"

lemma map_of_by_id:
  "distinct (map RunID rs) \<Longrightarrow> map_of (map (\<lambda>r. (RunID r, r)) rs) i = Some r \<longleftrightarrow> r \<in> set rs \<and> RunID r = i"
  by (subst map_of_eq_Some_iff) (auto simp: comp_def)

lemma filter_by_id:
  "distinct (map RunID rs) \<Longrightarrow> filter (\<lambda>r. RunID r = i \<and> p r) rs =
     (case map_of (map (\<lambda>r. (RunID r, r)) rs) i of None \<Rightarrow> [] | Some r \<Rightarrow> if p r then [r] else [])"
proof (induction rs)
  case (Cons r rs)
  have "RunID r \<notin> RunID ` set rs \<Longrightarrow> map_of (map (\<lambda>r. (RunID r, r)) rs) (RunID r) = None"
    by (simp add: map_of_eq_None_iff image_image)
  with Cons show ?case by (cases "RunID r = i") (auto split: option.splits)
qed simp

lemma map_of_by_id_map:
  assumes "\<And>r. RunID (f r) = RunID r"
  shows "map_of (map (\<lambda>r. (RunID r, r)) (map f rs)) i = map_option f (map_of (map (\<lambda>r. (RunID r, r)) rs) i)"
  by (induction rs) (auto simp: assms)

locale binary_server = sql_server db eng tabs up open_tx view
  for db :: "'d DB" and eng :: engine and tabs :: "'d \<Rightarrow> tables" and up :: "'d \<Rightarrow> bool"
    and open_tx :: "'d \<Rightarrow> bool" and view :: "'d \<Rightarrow> tables" +
  assumes collate_inj: "inj (Collate eng)"
begin

lemma collate_eq [simp]: "Collate eng a = Collate eng b \<longleftrightarrow> a = b"
  using collate_inj by (simp add: inj_eq)

lemma scan_stored_run:
  assumes "storable_run r"
  shows "scan_run db (project run_cols (run_row eng r)) = Inr r"
proof -
  let ?w = "warning_json (RunWarnings r)"
  have "wf_json ?w" "json_depth ?w \<le> max_depth"
    using assms wf_json_structs(4) depth_structs(3) [of "RunWarnings r"]
    by (auto simp: storable_run_def max_depth_def intro: order_trans)
  from json_law [OF this] obtain j where "JsonText eng ?w \<noteq> []" "unmarshal_doc (JsonText eng ?w) = Inr j" "canon j = canon ?w"
    by blast
  then have w: "unmarshal_into (JsonText eng ?w) (\<lambda>j. decode_warning j \<lparr>UnknownKeys = []\<rparr>) \<lparr>UnknownKeys = []\<rparr> = RunWarnings r"
    by (simp add: unmarshal_into_def decode_stored_warning)
  have t: "0 \<le> uint (TenantID r)" "uint (TenantID r) < 2 ^ 64" using uint_bounded [of "TenantID r"] by simp_all
  have row: "project run_cols (run_row eng r) =
     [SStr (RunID r), SInt (uint (TenantID r)), (case FeedID r of None \<Rightarrow> SNull | Some f \<Rightarrow> SInt (uint f)),
      SStr (Status r), SInt (if PushTriggered r then 1 else 0), SInt (int (RunReceived r)), SInt (int (RunValid r)),
      SInt (int (RunRejected r)), SInt (int (RunUnchanged r)), SInt (int (RunEnqueued r)),
      SStr (JsonText eng ?w), STime (CreatedAt r)]"
    by (simp add: project_def run_row_def run_cols_def col_def)
  have feed: "scan_null_int64 db 2 (case FeedID r of None \<Rightarrow> SNull | Some f \<Rightarrow> SInt (uint f)) = Inr (map_option uint (FeedID r))"
    using assms uint_nonnegative by (auto simp: storable_run_def split: option.splits intro: order_trans [of _ 0])
  have cnt: "scan_int db i (SInt (int n)) = Inr (int n)" if "n < 2 ^ 31" for i n using that by simp
  have push: "scan_int db i (SInt (if b then 1 else 0)) = Inr (if b then 1 else 0)" for i b by simp
  have tid: "scan_uint64 db i (SInt (uint (TenantID r))) = Inr (TenantID r)" for i using t by simp
  have fold_word: "map_option word_of_int (map_option uint (FeedID r)) = FeedID r" by (cases "FeedID r") simp_all
  show ?thesis
    using assms unfolding row scan_run_def
    by (simp add: field_def feed push tid w fold_word storable_run_def cnt del: scan_int.simps scan_uint64.simps)
qed

lemma decode_runs_rows:
  assumes "T ''runs'' = map (run_row eng) rs" "list_all storable_run rs"
  shows "decode_runs db T = rs"
  using assms(2) unfolding decode_runs_def assms(1)
  by (induction rs) (simp_all add: scan_stored_run)

lemma runs_okI:
  assumes "T ''runs'' = map (run_row eng) rs" "list_all storable_run rs" "distinct (map RunID rs)"
  shows "runs_ok db eng T" "decode_runs db T = rs"
  using assms decode_runs_rows [of T rs] by (simp_all add: runs_ok_def)

end

section \<open>Setting the status of runs\<close>

lemma store_status: "fits_chars 64 st \<Longrightarrow> store_col eng ''runs'' ''status'' (SStr st) = Some (SStr st)"
  by (simp add: store_col_def schema_def)

lemma fits_status [simp]: "fits_chars 64 ''processing''" "fits_chars 64 ''completed''" "fits_chars 64 ''failed''"
  by (simp_all add: fits_chars_def valid_utf8_ascii runes_ascii)

lemma claim_of_simps: "ClaimRunID (claim_of r) = RunID r" "ClaimTenantID (claim_of r) = TenantID r"
  by (simp_all add: claim_of_def)

text \<open>An update of the status of the matching runs, on the rows and on the records.\<close>

lemma update_status_rows:
  assumes "T ''runs'' = map (run_row eng) rs" "fits_chars 64 st"
    "\<And>r. r \<in> set rs \<Longrightarrow> row_matches eng wh args (run_row eng r) \<longleftrightarrow> p r"
  shows "sql_exec eng (Update ''runs'' [(''status'', Lit (SStr st))] wh) args T =
    Some (T(''runs'' := map (run_row eng) (map (\<lambda>r. if p r then r\<lparr>Status := st\<rparr> else r) rs)))"
  using assms by (auto simp: store_status set_status_row fun_eq_iff)

context binary_server
begin

lemma matches_run:
  "row_matches eng [(''run_id'', Param 0), (''tenant_id'', Param 1)] [SStr i, SInt (uint t)] (run_row eng r) \<longleftrightarrow>
     RunID r = i \<and> TenantID r = t"
  "row_matches eng [(''run_id'', Param 0), (''tenant_id'', Param 1), (''status'', Lit (SStr st))] [SStr i, SInt (uint t)] (run_row eng r) \<longleftrightarrow>
     RunID r = i \<and> TenantID r = t \<and> Status r = st"
  "row_matches eng [(''status'', Lit (SStr st)), (''push_triggered'', Lit (SInt 1))] args (run_row eng r) \<longleftrightarrow>
     Status r = st \<and> PushTriggered r"
  by (auto simp: row_matches_def word_uint_eq_iff)

lemma mark_claims_spec:
  assumes "open_tx d" "view d ''runs'' = map (run_row eng) rs" "set cs \<subseteq> set rs" "distinct (map RunID cs)" "distinct (map RunID rs)"
    "\<forall>c \<in> set cs. Status c = ''has_changes''"
  shows "\<exists>d'. mark_claims db (map claim_of cs) d = (None, d') \<and> open_tx d' \<and> tabs d' = tabs d \<and>
    view d' ''runs'' = map (run_row eng) (map (\<lambda>r. if RunID r \<in> RunID ` set cs then r\<lparr>Status := ''processing''\<rparr> else r) rs) \<and>
    (\<forall>t. t \<noteq> ''runs'' \<longrightarrow> view d' t = view d t)"
  using assms
proof (induction cs arbitrary: d rs)
  case Nil
  then show ?case by simp
next
  case (Cons c cs)
  let ?f = "\<lambda>r. if RunID r = RunID c then r\<lparr>Status := ''processing''\<rparr> else r"
  have same: "RunID r = RunID c \<Longrightarrow> r \<in> set rs \<Longrightarrow> r = c" for r
    using Cons.prems(3,5) by (metis distinct_map inj_onD list.set_intros(1) subset_iff)
  have p: "r \<in> set rs \<Longrightarrow> row_matches eng [(''run_id'', Param 0), (''tenant_id'', Param 1), (''status'', Lit (SStr ''has_changes''))]
      [SStr (RunID c), SInt (uint (TenantID c))] (run_row eng r) \<longleftrightarrow> RunID r = RunID c" for r
    unfolding matches_run using same [of r] Cons.prems(6) by auto
  have ex: "sql_exec eng c_mark_processing [SStr (RunID c), SInt (uint (TenantID c))] (view d) =
      Some ((view d)(''runs'' := map (run_row eng) (map ?f rs)))"
    unfolding c_mark_processing_def
    using update_status_rows [where T = "view d" and rs = rs and p = "\<lambda>r. RunID r = RunID c" and st = "''processing''", OF Cons.prems(2) _ p]
    by simp
  obtain d1 where d1: "TxExecContext db c_mark_processing [SStr (RunID c), SInt (uint (TenantID c))] d = (None, d1)"
    "open_tx d1" "tabs d1 = tabs d" "view d1 = (view d)(''runs'' := map (run_row eng) (map ?f rs))"
    using tx_exec_law [OF Cons.prems(1) commands_ok(5), of "[SStr (RunID c), SInt (uint (TenantID c))]"] ex by auto
  have sub: "set cs \<subseteq> set (map ?f rs)"
  proof
    fix x assume x: "x \<in> set cs"
    then have "RunID x \<in> RunID ` set cs" by simp
    with Cons.prems(4) have "RunID x \<noteq> RunID c" by (metis distinct.simps(2) list.set_map list.simps(9))
    moreover have "x \<in> set rs" using x Cons.prems(3) by auto
    ultimately show "x \<in> set (map ?f rs)" by (force simp: image_iff)
  qed
  have dist: "distinct (map RunID (map ?f rs))"
    using Cons.prems(5) by (simp add: comp_def if_distrib [of RunID] cong: if_cong)
  obtain d2 where d2: "mark_claims db (map claim_of cs) d1 = (None, d2)" "open_tx d2" "tabs d2 = tabs d1"
    "view d2 ''runs'' = map (run_row eng) (map (\<lambda>r. if RunID r \<in> RunID ` set cs then r\<lparr>Status := ''processing''\<rparr> else r) (map ?f rs))"
    "\<forall>t. t \<noteq> ''runs'' \<longrightarrow> view d2 t = view d1 t"
    using Cons.IH [OF d1(2) _ sub _ dist] Cons.prems(4,6) d1(4) by auto
  have eq: "map (\<lambda>r. if RunID r \<in> RunID ` set cs then r\<lparr>Status := ''processing''\<rparr> else r) (map ?f rs) =
      map (\<lambda>r. if RunID r \<in> RunID ` set (c # cs) then r\<lparr>Status := ''processing''\<rparr> else r) rs"
    by auto
  have "mark_claims db (map claim_of (c # cs)) d = (None, d2)" using d1(1) d2(1) by (simp add: claim_of_simps)
  moreover have "\<forall>t. t \<noteq> ''runs'' \<longrightarrow> view d2 t = view d t" using d1(4) d2(5) by simp
  ultimately show ?case using d2(2-4) d1(3) unfolding eq by (intro exI [of _ d2]) simp
qed

end

section \<open>Claiming\<close>

lemma mset_eq_map:
  "mset ys = mset (map f xs) \<Longrightarrow> \<exists>zs. ys = map f zs \<and> mset zs = mset xs"
proof (induction xs arbitrary: ys)
  case (Cons x xs)
  then have "f x \<in> set ys" by (metis list.set_intros(1) list.simps(9) set_mset_mset)
  then obtain as bs where ys: "ys = as @ f x # bs" by (meson split_list)
  with Cons.prems have "mset (as @ bs) = mset (map f xs)" by simp
  from Cons.IH [OF this] obtain zs where zs: "as @ bs = map f zs" "mset zs = mset xs" by blast
  then obtain za zb where "zs = za @ zb" "as = map f za" "bs = map f zb" by (metis append_eq_map_conv)
  then show ?case using ys zs(2) by (intro exI [of _ "za @ x # zb"]) auto
qed simp

text \<open>The first \<open>n\<close> of the claimable runs by age.\<close>

lemma oldest_prefix:
  assumes "mset Q = mset (filter claimable R)" "sorted (map CreatedAt Q)" "distinct (map RunID R)"
  shows "set (take n Q) \<subseteq> set (filter claimable R)" "distinct (map RunID (take n Q))" "sorted (map CreatedAt (take n Q))"
    "r \<in> set R \<Longrightarrow> claimable r \<Longrightarrow> r \<notin> set (take n Q) \<Longrightarrow>
       length (take n Q) = n \<and> (\<forall>r' \<in> set (take n Q). CreatedAt r' \<le> CreatedAt r)"
proof -
  have setQ: "set Q = set (filter claimable R)" using assms(1) by (rule mset_eq_setD)
  then show "set (take n Q) \<subseteq> set (filter claimable R)" using set_take_subset by metis
  have "distinct (map RunID (filter claimable R))" using assms(3) by (rule distinct_map_filter)
  then have "distinct (map RunID Q)" using assms(1) by (metis mset_map mset_eq_imp_distinct_iff)
  then show "distinct (map RunID (take n Q))" by (simp add: take_map [symmetric])
  show "sorted (map CreatedAt (take n Q))" using assms(2) by (simp add: take_map [symmetric] sorted_wrt_take)
  assume r: "r \<in> set R" "claimable r" "r \<notin> set (take n Q)"
  then have "r \<in> set Q" by (simp add: setQ)
  then have drop: "r \<in> set (drop n Q)"
    using r(3) append_take_drop_id [of n Q] by (metis Un_iff set_append)
  then have "n < length Q" by (metis drop_all empty_iff empty_set not_le_imp_less)
  moreover have "sorted (map CreatedAt (take n Q @ drop n Q))" using assms(2) by simp
  ultimately show "length (take n Q) = n \<and> (\<forall>r' \<in> set (take n Q). CreatedAt r' \<le> CreatedAt r)"
    using drop unfolding map_append by (auto simp: sorted_append)
qed

lemma mark_by_id:
  assumes "distinct (map RunID R)"
  shows "map_of (map (\<lambda>r. (RunID r, r)) (map (\<lambda>r. if RunID r \<in> I then r\<lparr>Status := ''processing''\<rparr> else r) R)) =
    mark_processing I (map_of (map (\<lambda>r. (RunID r, r)) R))"
proof
  fix i
  have "map_of (map (\<lambda>r. (RunID r, r)) (map (\<lambda>r. if RunID r \<in> I then r\<lparr>Status := ''processing''\<rparr> else r) R)) i =
      map_option (\<lambda>r. if RunID r \<in> I then r\<lparr>Status := ''processing''\<rparr> else r) (map_of (map (\<lambda>r. (RunID r, r)) R) i)"
    by (rule map_of_by_id_map) simp
  also have "\<dots> = mark_processing I (map_of (map (\<lambda>r. (RunID r, r)) R)) i"
  proof (cases "map_of (map (\<lambda>r. (RunID r, r)) R) i")
    case (Some r)
    then have "RunID r = i" using map_of_by_id [OF assms, of i r] by simp
    with Some show ?thesis by (simp add: mark_processing_def)
  qed (simp add: mark_processing_def)
  finally show "map_of (map (\<lambda>r. (RunID r, r)) (map (\<lambda>r. if RunID r \<in> I then r\<lparr>Status := ''processing''\<rparr> else r) R)) i =
      mark_processing I (map_of (map (\<lambda>r. (RunID r, r)) R)) i" .
qed

context binary_server
begin

lemma claimable_answers:
  assumes "T ''runs'' = map (run_row eng) rs" "list_all storable_run rs" "answers eng q_claimable [SInt n] T rows"
  shows "\<exists>Q. rows = map (run_row eng) (take (nat n) Q) \<and> mset Q = mset (filter claimable rs) \<and> sorted (map CreatedAt Q)"
proof -
  have "filter (row_matches eng (QWhere q_claimable) [SInt n]) (T (QTable q_claimable)) = map (run_row eng) (filter claimable rs)"
  proof -
    have "filter (\<lambda>r. Status r = ''has_changes'' \<and> PushTriggered r) rs = filter claimable rs"
      using assms(2) by (intro filter_cong refl) (auto simp: claimable_def storable_run_def list_all_iff)
    then show ?thesis by (simp add: q_claimable_def assms(1) filter_map comp_def matches_run)
  qed
  then obtain all where all: "mset all = mset (map (run_row eng) (filter claimable rs))"
    "ordered_by eng (Some (''created_at'', True)) all" "rows = take (nat n) all"
    using assms(3) by (auto simp: answers_def row_limit_def q_claimable_def)
  obtain Q where Q: "all = map (run_row eng) Q" "mset Q = mset (filter claimable rs)"
    using mset_eq_map [OF all(1)] by blast
  have "sorted (map CreatedAt Q)"
    using all(2) unfolding Q(1)
    by (simp add: ordered_by_def comp_def sorted_wrt_map) (erule sorted_wrt_mono_rel [rotated], auto)
  with Q all(3) show ?thesis by (auto simp: take_map)
qed

lemma scan_claims:
  "scan_rows (scan_claim db) (map (project [''run_id'', ''tenant_id'']) (map (run_row eng) Q)) None = Inr (map claim_of Q)"
proof (induction Q)
  case (Cons r Q)
  have "scan_uint64 db i (SInt (uint (TenantID r))) = Inr (TenantID r)" for i using uint_bounded [of "TenantID r"] by simp
  then show ?case
    using Cons by (simp add: project_def scan_claim_def field_def claim_of_def del: scan_uint64.simps)
qed simp

lemma my_claim_spec:
  assumes "up d" "runs_ok db eng (tabs d)"
  shows "\<exists>rs d'. my_ClaimRuns db limit d = (Inr (map claim_of rs), d') \<and>
    distinct (map RunID rs) \<and> length rs \<le> claim_limit limit \<and> sorted (map CreatedAt rs) \<and>
    (\<forall>r \<in> set rs. claimable r \<and> my_runs db (tabs d) (RunID r) = Some r) \<and>
    (\<forall>r. claimable r \<longrightarrow> my_runs db (tabs d) (RunID r) = Some r \<longrightarrow> r \<notin> set rs \<longrightarrow>
       length rs = claim_limit limit \<and> (\<forall>r' \<in> set rs. CreatedAt r' \<le> CreatedAt r)) \<and>
    my_runs db (tabs d') = mark_processing (RunID ` set rs) (my_runs db (tabs d)) \<and>
    up d' \<and> runs_ok db eng (tabs d') \<and> (\<forall>t. t \<noteq> ''runs'' \<longrightarrow> tabs d' t = tabs d t)"
proof -
  define R where "R = decode_runs db (tabs d)"
  have R: "tabs d ''runs'' = map (run_row eng) R" "distinct (map RunID R)" "list_all storable_run R"
    using assms(2) by (simp_all add: runs_ok_def R_def)
  let ?limit = "if limit \<le> 0 then 10 else limit"
  obtain d1 where d1: "BeginTx db d = (None, d1)" "open_tx d1" "tabs d1 = tabs d" "view d1 = tabs d"
    using begin_law [OF assms(1)] by blast
  have pos: "0 \<le> ?limit" by simp
  obtain rows where rows: "answers eng q_claimable [SInt ?limit] (view d1) rows"
    "TxQueryContext db q_claimable [SInt ?limit] d1 = Inr (map (project (QCols q_claimable)) rows, None)"
    using tx_query_law [OF d1(2) queries_ok(6) [OF pos]] by blast
  have v: "view d1 ''runs'' = map (run_row eng) R" using d1(4) R(1) by simp
  obtain Q where Q: "rows = map (run_row eng) (take (nat ?limit) Q)" "mset Q = mset (filter claimable R)" "sorted (map CreatedAt Q)"
    using claimable_answers [OF v R(3) rows(1)] by blast
  define rs where "rs = take (nat ?limit) Q"
  have lim: "nat ?limit = claim_limit limit" by (simp add: claim_limit_def)
  note pick = oldest_prefix [where n = "nat ?limit", OF Q(2,3) R(2), folded rs_def]
  have scan: "bind_res (TxQueryContext db q_claimable [SInt ?limit] d1) (\<lambda>(rows, err). scan_rows (scan_claim db) rows err) =
      Inr (map claim_of rs)"
    unfolding rows(2) Q(1) using scan_claims [of rs] by (simp add: q_claimable_def rs_def)
  obtain d2 where d2: "mark_claims db (map claim_of rs) d1 = (None, d2)" "open_tx d2" "tabs d2 = tabs d1"
    "view d2 ''runs'' = map (run_row eng) (map (\<lambda>r. if RunID r \<in> RunID ` set rs then r\<lparr>Status := ''processing''\<rparr> else r) R)"
    "\<forall>t. t \<noteq> ''runs'' \<longrightarrow> view d2 t = view d1 t"
    using mark_claims_spec [OF d1(2) v _ pick(2) R(2)] pick(1) by (auto simp: claimable_def)
  obtain d' where d': "Commit db d2 = (None, d')" "up d'" "tabs d' = view d2" using commit_law [OF d2(2)] by blast
  let ?R' = "map (\<lambda>r. if RunID r \<in> RunID ` set rs then r\<lparr>Status := ''processing''\<rparr> else r) R"
  have R': "list_all storable_run ?R'" "distinct (map RunID ?R')"
    using R(2,3) by (auto simp: list_all_iff storable_run_def comp_def if_distrib [of RunID] cong: if_cong)
  note ok' = runs_okI [of "tabs d'" ?R', unfolded d'(3), OF d2(4) R']
  have call: "my_ClaimRuns db limit d = (Inr (map claim_of rs), d')"
    using d1(1) scan d2(1) d'(1) by (simp add: my_ClaimRuns_def Let_def)
  have runs: "my_runs db (tabs d) = map_of (map (\<lambda>r. (RunID r, r)) R)" by (simp add: my_runs_def R_def)
  have marked: "my_runs db (tabs d') = mark_processing (RunID ` set rs) (my_runs db (tabs d))"
    unfolding my_runs_def R_def [symmetric] d'(3) ok'(2) by (rule mark_by_id [OF R(2)])
  have chosen: "\<forall>r \<in> set rs. claimable r \<and> my_runs db (tabs d) (RunID r) = Some r"
    using pick(1) map_of_by_id [OF R(2)] by (auto simp: runs)
  have rest: "length rs = claim_limit limit \<and> (\<forall>r' \<in> set rs. CreatedAt r' \<le> CreatedAt r)"
    if "claimable r" "my_runs db (tabs d) (RunID r) = Some r" "r \<notin> set rs" for r
    using pick(4) [OF _ that(1,3)] that(2) map_of_by_id [OF R(2)] lim by (auto simp: runs)
  have len: "length rs \<le> claim_limit limit" by (simp add: rs_def lim)
  have frame: "\<forall>t. t \<noteq> ''runs'' \<longrightarrow> tabs d' t = tabs d t" using d2(5) d'(3) d1(4) by simp
  show ?thesis
    using call pick(2) len pick(3) chosen rest marked d'(2) ok'(1) frame unfolding d'(3) [symmetric]
    by (intro exI [of _ rs] exI [of _ d'] conjI) blast+
qed

end

section \<open>The queue contract\<close>

lemma set_status_map:
  assumes "distinct (map RunID rs)"
  shows "map_of (map (\<lambda>r. (RunID r, r)) (map (\<lambda>r. if RunID r = i \<and> TenantID r = t then r\<lparr>Status := st\<rparr> else r) rs)) =
    set_status t i st (map_of (map (\<lambda>r. (RunID r, r)) rs))" (is "?lhs = _")
proof
  fix j
  have eq: "?lhs j = map_option (\<lambda>r. if RunID r = i \<and> TenantID r = t then r\<lparr>Status := st\<rparr> else r) (map_of (map (\<lambda>r. (RunID r, r)) rs) j)"
    by (rule map_of_by_id_map) simp
  show "?lhs j = set_status t i st (map_of (map (\<lambda>r. (RunID r, r)) rs)) j"
  proof (cases "map_of (map (\<lambda>r. (RunID r, r)) rs) j")
    case (Some r)
    then have "RunID r = j" using map_of_by_id [OF assms, of j r] by simp
    with eq Some show ?thesis by (simp add: set_status_def)
  next
    case None
    show ?thesis unfolding eq using None by (simp add: set_status_def)
  qed
qed

context binary_server
begin

lemma my_set_status:
  assumes "up d" "runs_ok db eng (tabs d)" "fits_chars 64 st"
  shows "\<exists>d'. ExecContext db (c_set_status st) [SStr i, SInt (uint t)] d = (None, d') \<and> up d' \<and> runs_ok db eng (tabs d') \<and>
    my_runs db (tabs d') = set_status t i st (my_runs db (tabs d)) \<and> (\<forall>x. x \<noteq> ''runs'' \<longrightarrow> tabs d' x = tabs d x)"
proof -
  define R where "R = decode_runs db (tabs d)"
  have R: "tabs d ''runs'' = map (run_row eng) R" "distinct (map RunID R)" "list_all storable_run R"
    using assms(2) by (simp_all add: runs_ok_def R_def)
  let ?R' = "map (\<lambda>r. if RunID r = i \<and> TenantID r = t then r\<lparr>Status := st\<rparr> else r) R"
  have "sql_exec eng (c_set_status st) [SStr i, SInt (uint t)] (tabs d) = Some ((tabs d)(''runs'' := map (run_row eng) ?R'))"
    unfolding c_set_status_def 
    using update_status_rows [where T = "tabs d" and rs = R and p = "\<lambda>r. RunID r = i \<and> TenantID r = t", OF R(1) assms(3) matches_run(1)]
    by simp
  with exec_law [OF assms(1) commands_ok(6), of st "[SStr i, SInt (uint t)]"]
  obtain d' where d': "ExecContext db (c_set_status st) [SStr i, SInt (uint t)] d = (None, d')" "up d'"
    "tabs d' = (tabs d)(''runs'' := map (run_row eng) ?R')" by auto
  have "map RunID ?R' = map RunID R" by simp
  then have dist: "distinct (map RunID ?R')" using R(2) by (simp only:)
  have R': "tabs d' ''runs'' = map (run_row eng) ?R'" "list_all storable_run ?R'"
    using R(3) assms(3) d'(3) by (auto simp: list_all_iff storable_run_def)
  note ok = runs_okI [of "tabs d'" ?R', OF R' dist]
  have "my_runs db (tabs d') = set_status t i st (my_runs db (tabs d))"
    unfolding my_runs_def ok(2) R_def [symmetric] by (rule set_status_map [OF R(2)])
  then show ?thesis using d' ok(1) by simp
qed

lemma my_run_key: "runs_ok db eng T \<Longrightarrow> my_runs db T i = Some r \<Longrightarrow> RunID r = i"
  using map_of_by_id [of "decode_runs db T" i r] by (simp add: runs_ok_def my_runs_def)

end

sublocale binary_server \<subseteq> queue: run_queue "\<lambda>_. my_ClaimRuns db" "my_CompleteRun db" "my_FailRun db"
  "\<lambda>d. my_runs db (tabs d)" "\<lambda>d. up d \<and> runs_ok db eng (tabs d)"
proof unfold_locales
  fix d and limit :: int
  assume inv: "up d \<and> runs_ok db eng (tabs d)"
  from my_claim_spec [OF conjunct1 [OF inv] conjunct2 [OF inv], of limit]
  show "\<exists>rs s'. my_ClaimRuns db limit d = (Inr (map claim_of rs), s') \<and>
      distinct (map RunID rs) \<and> length rs \<le> claim_limit limit \<and> sorted (map CreatedAt rs) \<and>
      (\<forall>r \<in> set rs. claimable r \<and> my_runs db (tabs d) (RunID r) = Some r) \<and>
      (\<forall>r. claimable r \<longrightarrow> my_runs db (tabs d) (RunID r) = Some r \<longrightarrow> r \<notin> set rs \<longrightarrow>
         length rs = claim_limit limit \<and> (\<forall>r' \<in> set rs. CreatedAt r' \<le> CreatedAt r)) \<and>
      my_runs db (tabs s') = mark_processing (RunID ` set rs) (my_runs db (tabs d)) \<and> up s' \<and> runs_ok db eng (tabs s')"
    by (elim exE conjE) (intro exI conjI, assumption+)
next
  fix d t i msg
  assume "up d \<and> runs_ok db eng (tabs d)"
  then obtain d1 d2 where "ExecContext db (c_set_status ''completed'') [SStr i, SInt (uint t)] d = (None, d1)" "up d1" "runs_ok db eng (tabs d1)"
    "my_runs db (tabs d1) = set_status t i ''completed'' (my_runs db (tabs d))"
    "ExecContext db (c_set_status ''failed'') [SStr i, SInt (uint t)] d = (None, d2)" "up d2" "runs_ok db eng (tabs d2)"
    "my_runs db (tabs d2) = set_status t i ''failed'' (my_runs db (tabs d))"
    using my_set_status [of d "''completed''" i t] my_set_status [of d "''failed''" i t] by auto
  then show "fst (my_CompleteRun db t i d) = None \<and>
      (up (snd (my_CompleteRun db t i d)) \<and> runs_ok db eng (tabs (snd (my_CompleteRun db t i d)))) \<and>
      my_runs db (tabs (snd (my_CompleteRun db t i d))) = set_status t i ''completed'' (my_runs db (tabs d))"
    "fst (my_FailRun db t i msg d) = None \<and>
      (up (snd (my_FailRun db t i msg d)) \<and> runs_ok db eng (tabs (snd (my_FailRun db t i msg d)))) \<and>
      my_runs db (tabs (snd (my_FailRun db t i msg d))) = set_status t i ''failed'' (my_runs db (tabs d))"
    by (simp_all add: my_CompleteRun_def my_FailRun_def)
next
  fix d i r
  assume "up d \<and> runs_ok db eng (tabs d)" "my_runs db (tabs d) i = Some r"
  then show "RunID r = i" using my_run_key by blast
qed

context binary_server
begin

lemma queue_contract:
  "run_queue (\<lambda>_. my_ClaimRuns db) (my_CompleteRun db) (my_FailRun db) (\<lambda>d. my_runs db (tabs d)) (\<lambda>d. up d \<and> runs_ok db eng (tabs d))"
  by (rule queue.run_queue_axioms)

end

section \<open>The contract of canonical product state\<close>

text \<open>Keys and digests that the columns of \<open>product_state\<close> hold as they are.\<close>

definition hash_fits :: "string \<Rightarrow> string \<Rightarrow> bool" where
  "hash_fits k h \<longleftrightarrow> fits_chars 255 k \<and> fits_chars 64 h \<and> (h = [] \<or> last h \<noteq> CHR '' '')"

definition hashes_ok :: "tables \<Rightarrow> bool" where
  "hashes_ok T \<longleftrightarrow> (\<exists>hs. T ''product_state'' = map hash_row hs \<and> distinct (map fst hs))"

lemma filter_key:
  "distinct (map fst hs) \<Longrightarrow> filter (\<lambda>e. fst e = x) hs = (case map_of hs x of None \<Rightarrow> [] | Some h \<Rightarrow> [(x, h)])"
proof (induction hs)
  case (Cons e hs)
  then show ?case
    by (cases e, cases "fst e = x") (auto simp: map_of_eq_None_iff [symmetric] simp del: map_of_eq_None_iff split: option.splits)
qed simp

lemma trim_trailing: "s = [] \<or> last s \<noteq> c \<Longrightarrow> rev (dropWhile (\<lambda>x. x = c) (rev s)) = s"
  by (cases s rule: rev_cases) auto

lemma set_hash_row: "set_cols [(''normalized_hash'', SStr h)] (hash_row e) = hash_row (fst e, h)"
  by (simp add: set_cols_def hash_row_def)

lemma store_hash_row:
  "hash_fits k h \<Longrightarrow>
     store_row eng ''product_state'' [(''tenant_id'', SInt (uint t)), (''product_key'', SStr k), (''normalized_hash'', SStr h)] =
     Some (hash_row ((t, k), h))" for t :: uint64
  using uint_bounded [of t] by (simp add: store_col_def schema_def hash_row_def hash_fits_def trim_trailing)

context binary_server
begin

lemma matches_hash:
  "row_matches eng [(''tenant_id'', Param 0), (''product_key'', Param 1)] [SInt (uint t), SStr k] (hash_row e) \<longleftrightarrow> fst e = (t, k)"
  "same_key_row eng ''product_state'' (hash_row e') (hash_row e) \<longleftrightarrow> fst e = fst e'"
  by (auto simp: row_matches_def same_key_row_def key_agrees_def unique_keys_def primary_key_def word_uint_eq_iff prod_eq_iff)

lemma my_get_hash:
  assumes "up d" "tabs d ''product_state'' = map hash_row hs" "distinct (map fst hs)"
  shows "my_GetProductHash db d t k = Inr (map_of hs (t, k))"
proof -
  let ?args = "[SInt (uint t), SStr k]"
  obtain rs where rs: "answers eng q_product_hash ?args (tabs d) rs"
    "QueryContext db q_product_hash ?args d = Inr (map (project (QCols q_product_hash)) rs, None)"
    using query_law [OF assms(1) queries_ok(1)] by blast
  have "mset rs = mset (map hash_row (filter (\<lambda>e. fst e = (t, k)) hs))"
    using rs(1) assms(2) by (auto simp: answers_def q_product_hash_def row_limit_def filter_map comp_def matches_hash(1) [unfolded One_nat_def])
  then have "rs = (case map_of hs (t, k) of None \<Rightarrow> [] | Some h \<Rightarrow> [hash_row ((t, k), h)])"
    by (cases "map_of hs (t, k)") (simp_all add: filter_key [OF assms(3)] mset_single_iff)
  then show ?thesis
    using rs(2)
    by (cases "map_of hs (t, k)") (simp_all add: my_GetProductHash_def QueryRow_def q_product_hash_def project_def field_def)
qed

lemma my_put_hash:
  assumes "up d" "tabs d ''product_state'' = map hash_row hs" "distinct (map fst hs)" "hash_fits k h"
  shows "\<exists>d'. my_UpsertProductHash db t k h d = (None, d') \<and> up d' \<and>
    tabs d' = (tabs d)(''product_state'' := map hash_row (AList.update (t, k) h hs))"
proof -
  let ?args = "[SInt (uint t), SStr k, SStr h]" and ?r = "hash_row ((t, k), h)"
  have old: "list_ex (same_key_row eng ''product_state'' ?r) (map hash_row hs) \<longleftrightarrow> (t, k) \<in> fst ` set hs"
    by (force simp: list_ex_iff matches_hash)
  have ref: "refers eng (tabs d) ''product_state'' ?r" by (simp add: refers_def foreign_keys_def)
  have row: "store_row eng ''product_state'' (map (\<lambda>(c, e). (c, eval_expr ?args e))
      [(''tenant_id'', Param 0), (''product_key'', Param 1), (''normalized_hash'', Param 2)]) = Some ?r"
    using store_hash_row [OF assms(4), of eng t] by simp
  have "sql_exec eng c_upsert_hash ?args (tabs d) =
      Some ((tabs d)(''product_state'' := map hash_row (AList.update (t, k) h hs)))"
  proof (cases "(t, k) \<in> fst ` set hs")
    case True
    then have ex: "list_ex (same_key_row eng ''product_state'' ?r) (tabs d ''product_state'')" using old assms(2) by simp
    have "clashing eng ''product_state'' ?r (tabs d ''product_state'') = same_key_row eng ''product_state'' ?r"
      using clashing_single [OF _ ex] by (simp add: unique_keys_def fun_eq_iff)
    then have "update_first (clashing eng ''product_state'' ?r (tabs d ''product_state''))
        (set_cols (map (\<lambda>c. (c, col c ?r)) [''normalized_hash''])) (tabs d ''product_state'') = map hash_row (AList.update (t, k) h hs)"
      using True unfolding assms(2) by (intro update_first_entries) (auto simp: matches_hash set_hash_row)
    then show ?thesis
      unfolding c_upsert_hash_def
      by (intro sql_insert(3) [OF row ref ex] unique_entries distinct_update assms(3)) (auto simp: matches_hash)
  next
    case False
    then have "\<not> list_ex (same_key_row eng ''product_state'' ?r) (tabs d ''product_state'')" using old assms(2) by simp
    from sql_insert(1) [OF row ref this, of "[''normalized_hash'']"] show ?thesis
      using False unfolding c_upsert_hash_def by (simp only: update_new [OF False] assms(2) map_append list.map)
  qed
  with exec_law [OF assms(1) commands_ok(1), of ?args] show ?thesis by (auto simp: my_UpsertProductHash_def)
qed

end

sublocale binary_server \<subseteq> hashes: bounded_hashes "my_GetProductHash db" "my_UpsertProductHash db"
  "\<lambda>d. up d \<and> hashes_ok (tabs d)" hash_fits
proof unfold_locales
  fix d t k
  assume "up d \<and> hashes_ok (tabs d)"
  then show "\<exists>v. my_GetProductHash db d t k = Inr v" using my_get_hash by (auto simp: hashes_ok_def)
next
  fix d t k h t' k'
  assume inv: "up d \<and> hashes_ok (tabs d)" and fit: "hash_fits k h"
  from inv obtain hs where hs: "tabs d ''product_state'' = map hash_row hs" "distinct (map fst hs)"
    by (auto simp: hashes_ok_def)
  from my_put_hash [OF conjunct1 [OF inv] hs fit, of t] obtain d' where d': "my_UpsertProductHash db t k h d = (None, d')"
    "up d'" "tabs d' ''product_state'' = map hash_row (AList.update (t, k) h hs)" by auto
  have dist: "distinct (map fst (AList.update (t, k) h hs))" using hs(2) by (rule distinct_update)
  show "fst (my_UpsertProductHash db t k h d) = None" using d'(1) by simp
  show "my_GetProductHash db (snd (my_UpsertProductHash db t k h d)) t' k' =
      (if t' = t \<and> k' = k then Inr (Some h) else my_GetProductHash db d t' k')"
    using my_get_hash [OF d'(2,3) dist] my_get_hash [OF conjunct1 [OF inv] hs] d'(1) by (simp add: update_conv')
  show "up (snd (my_UpsertProductHash db t k h d)) \<and> hashes_ok (tabs (snd (my_UpsertProductHash db t k h d)))"
    using d' dist by (auto simp: hashes_ok_def)
qed

section \<open>Inserting and reading runs\<close>

text \<open>What the table makes of a run: its time is rounded to the second.\<close>

definition stored_run :: "RunRecord \<Rightarrow> RunRecord" where
  "stored_run r = r\<lparr>CreatedAt := to_second (CreatedAt r)\<rparr>"

lemma stored_run_simps [simp]:
  "RunID (stored_run r) = RunID r" "TenantID (stored_run r) = TenantID r" "FeedID (stored_run r) = FeedID r"
  "CreatedAt (stored_run r) = to_second (CreatedAt r)" "RunWarnings (stored_run r) = RunWarnings r"
  by (simp_all add: stored_run_def)

definition tenant_known :: "tables \<Rightarrow> uint64 \<Rightarrow> bool" where
  "tenant_known T t \<longleftrightarrow> list_ex (\<lambda>r. col ''tenant_id'' r = SInt (uint t)) (T ''tenants'')"

lemma sql_eq_int: "sql_eq eng (SInt i) v \<longleftrightarrow> v = SInt i"
  by (cases v) auto

lemma refers_run:
  "refers eng T ''runs'' (run_row eng r) \<longleftrightarrow>
     tenant_known T (TenantID r) \<and> (case FeedID r of None \<Rightarrow> True
       | Some f \<Rightarrow> list_ex (\<lambda>row. col ''feed_id'' row = SInt (uint f)) (T ''feeds''))"
  by (cases "FeedID r")
    (auto simp: refers_def foreign_keys_def tenant_known_def sql_eq_int run_row_def run_cols_def col_def list_ex_iff)

lemma store_warning:
  assumes "list_all valid_utf8 (UnknownKeys w)"
  shows "store_val eng Json_doc n (SStr (render (warning_json w))) = Some (SStr (JsonText eng (warning_json w)))"
proof -
  have "wf_json (warning_json w)" "json_depth (warning_json w) \<le> max_depth"
    using assms wf_json_structs(4) depth_structs(3) [of w] by (auto simp: max_depth_def intro: order_trans)
  then show ?thesis by (simp add: unmarshal_render valid_utf8_render)
qed

lemma store_run_row:
  assumes "storable_run (stored_run r)"
  shows "store_row eng ''runs'' (map (\<lambda>(c, e). (c, eval_expr (run_args r) e)) (zip run_cols (map Param [0..<12]))) =
    Some (run_row eng (stored_run r))"
proof -
  have f: "fits_chars 64 (RunID r)" "fits_chars 64 (Status r)" "RunReceived r < 2 ^ 31" "RunValid r < 2 ^ 31"
    "RunRejected r < 2 ^ 31" "RunUnchanged r < 2 ^ 31" "RunEnqueued r < 2 ^ 31" "list_all valid_utf8 (UnknownKeys (RunWarnings r))"
    "second \<le> to_second (CreatedAt r)" "to_second (CreatedAt r) < 2 ^ 31 * second"
    using assms by (simp_all add: storable_run_def whole_second_def stored_run_def)
  have feed: "store_val eng Bigint_unsigned True (case FeedID r of None \<Rightarrow> SNull | Some f \<Rightarrow> SInt (uint f)) =
      Some (case FeedID r of None \<Rightarrow> SNull | Some f \<Rightarrow> SInt (uint f))"
    by (cases "FeedID r") (simp_all add: uint_lt2p [where 'a = 64, simplified])
  have tid: "store_val eng Bigint_unsigned False (SInt (uint (TenantID r))) = Some (SInt (uint (TenantID r)))"
    by (simp add: uint_lt2p [where 'a = 64, simplified])
  have cnt: "store_val eng Int32 False (SInt (int n)) = Some (SInt (int n))" if "n < 2 ^ 31" for n
    using that by simp
  have created: "store_val eng Timestamp False (STime (CreatedAt r)) = Some (STime (to_second (CreatedAt r)))"
    using f(9,10) by (simp add: to_second_def Let_def)
  have args: "map (\<lambda>(c, e). (c, eval_expr (run_args r) e)) (zip run_cols (map Param [0..<12])) = zip run_cols (run_args r)"
    by (simp add: run_cols_def run_args_def upt_rec)
  show ?thesis
    unfolding args
    using feed tid created f cnt store_warning [OF f(8), of eng True]
    by (simp add: run_cols_def run_args_def store_col_def schema_def run_row_def stored_run_def del: store_val.simps)
      (simp add: f)
qed

context binary_server
begin

lemma same_run: "same_key_row eng ''runs'' (run_row eng r) (run_row eng r') \<longleftrightarrow> RunID r = RunID r'"
  by (simp add: same_key_row_def key_agrees_def unique_keys_def primary_key_def)

lemma my_runs_None: "runs_ok db eng T \<Longrightarrow> my_runs db T i = None \<longleftrightarrow> (\<forall>r \<in> set (decode_runs db T). RunID r \<noteq> i)"
  by (force simp: my_runs_def map_of_eq_None_iff)

lemma run_key_clash:
  assumes "runs_ok db eng T"
  shows "list_ex (same_key_row eng ''runs'' (run_row eng r)) (T ''runs'') \<longleftrightarrow> my_runs db T (RunID r) \<noteq> None"
proof -
  have T: "T ''runs'' = map (run_row eng) (decode_runs db T)" using assms by (simp add: runs_ok_def)
  show ?thesis unfolding T using my_runs_None [OF assms, of "RunID r"] by (simp add: list_ex_iff same_run) metis
qed

lemma my_insert_run:
  assumes "up d" "runs_ok db eng (tabs d)" "storable_run (stored_run r)" "refers eng (tabs d) ''runs'' (run_row eng r)"
    "my_runs db (tabs d) (RunID r) = None"
  shows "\<exists>d'. my_InsertRun db r d = (None, d') \<and> up d' \<and> runs_ok db eng (tabs d') \<and>
    my_runs db (tabs d') = (my_runs db (tabs d))(RunID r \<mapsto> stored_run r) \<and> (\<forall>t. t \<noteq> ''runs'' \<longrightarrow> tabs d' t = tabs d t)"
proof -
  define R where "R = decode_runs db (tabs d)"
  have R: "tabs d ''runs'' = map (run_row eng) R" "distinct (map RunID R)" "list_all storable_run R"
    using assms(2) by (simp_all add: runs_ok_def R_def)
  have fresh: "RunID r \<notin> RunID ` set R" using my_runs_None [OF assms(2)] assms(5) by (auto simp: R_def)
  have ref: "refers eng (tabs d) ''runs'' (run_row eng (stored_run r))" using assms(4) by (simp add: refers_run)
  have "sql_exec eng c_insert_run (run_args r) (tabs d) = Some ((tabs d)(''runs'' := map (run_row eng) (R @ [stored_run r])))"
    unfolding c_insert_run_def
    using sql_insert(1) [OF store_run_row [OF assms(3)] ref] run_key_clash [OF assms(2), of "stored_run r"] assms(5) R(1)
    by (simp del: sql_exec.simps)
  with exec_law [OF assms(1) commands_ok(2), of "run_args r"] obtain d' where d': "my_InsertRun db r d = (None, d')" "up d'"
    "tabs d' = (tabs d)(''runs'' := map (run_row eng) (R @ [stored_run r]))"
    by (auto simp: my_InsertRun_def)
  have "tabs d' ''runs'' = map (run_row eng) (R @ [stored_run r])" "list_all storable_run (R @ [stored_run r])"
    "distinct (map RunID (R @ [stored_run r]))"
    using d'(3) R assms(3) fresh by simp_all
  note ok = runs_okI [where T = "tabs d'" and rs = "R @ [stored_run r]", OF this]
  have "my_runs db (tabs d') i = ((my_runs db (tabs d))(RunID r \<mapsto> stored_run r)) i" for i
    using fresh map_of_eq_None_iff [of "map (\<lambda>r. (RunID r, r)) R" "RunID r"]
    unfolding my_runs_def ok(2) R_def [symmetric] by (auto simp: map_add_def comp_def image_image split: option.splits)
  then have "my_runs db (tabs d') = (my_runs db (tabs d))(RunID r \<mapsto> stored_run r)" by blast
  then show ?thesis using d' ok(1) by simp
qed

text \<open>A run of a tenant that is not in \<open>tenants\<close>, or under a key that is taken, is refused.\<close>

lemma my_insert_run_refused:
  assumes "up d" "runs_ok db eng (tabs d)" "storable_run (stored_run r)"
    "\<not> tenant_known (tabs d) (TenantID r) \<or> my_runs db (tabs d) (RunID r) \<noteq> None"
  shows "\<exists>e d'. my_InsertRun db r d = (Some e, d') \<and> up d' \<and> tabs d' = tabs d"
proof -
  have "sql_exec eng c_insert_run (run_args r) (tabs d) = None"
  proof (cases "refers eng (tabs d) ''runs'' (run_row eng (stored_run r))")
    case True
    then have "list_ex (same_key_row eng ''runs'' (run_row eng (stored_run r))) (tabs d ''runs'')"
      using assms(4) run_key_clash [OF assms(2), of "stored_run r"] by (auto simp: refers_run)
    with True show ?thesis
      unfolding c_insert_run_def by (intro sql_insert(2) [OF store_run_row [OF assms(3)]])
  next
    case False
    then show ?thesis unfolding c_insert_run_def using store_run_row [OF assms(3), of eng] by simp
  qed
  with exec_law [OF assms(1) commands_ok(2), of "run_args r"] show ?thesis by (auto simp: my_InsertRun_def)
qed

lemma my_get_run:
  assumes "up d" "runs_ok db eng (tabs d)"
  shows "my_GetRun db d t i = Inr (case my_runs db (tabs d) i of None \<Rightarrow> None | Some r \<Rightarrow> if TenantID r = t then Some r else None)"
proof -
  define R where "R = decode_runs db (tabs d)"
  have R: "tabs d ''runs'' = map (run_row eng) R" "distinct (map RunID R)" "list_all storable_run R"
    using assms(2) by (simp_all add: runs_ok_def R_def)
  let ?args = "[SInt (uint t), SStr i]" and ?p = "\<lambda>r. RunID r = i \<and> TenantID r = t"
  obtain rows where rows: "answers eng q_get_run ?args (tabs d) rows"
    "QueryContext db q_get_run ?args d = Inr (map (project (QCols q_get_run)) rows, None)"
    using query_law [OF assms(1) queries_ok(2)] by blast
  have p: "row_matches eng (QWhere q_get_run) ?args (run_row eng r) \<longleftrightarrow> ?p r" for r
    by (auto simp: q_get_run_def row_matches_def word_uint_eq_iff)
  have "mset rows = mset (map (run_row eng) (filter ?p R))"
  proof -
    have "filter (row_matches eng (QWhere q_get_run) ?args) (tabs d (QTable q_get_run)) = map (run_row eng) (filter ?p R)"
      using R(1) by (simp add: q_get_run_def filter_map comp_def p [unfolded q_get_run_def, simplified])
    then show ?thesis using rows(1) by (auto simp: answers_def row_limit_def q_get_run_def)
  qed
  moreover have "filter ?p R = (case map_of (map (\<lambda>r. (RunID r, r)) R) i of None \<Rightarrow> [] | Some r \<Rightarrow> if TenantID r = t then [r] else [])"
    by (rule filter_by_id [OF R(2)])
  ultimately have "rows = (case my_runs db (tabs d) i of None \<Rightarrow> [] | Some r \<Rightarrow> if TenantID r = t then [run_row eng r] else [])"
    by (simp only: my_runs_def R_def) (auto simp del: mset_filter mset_map split: option.splits if_splits)
  moreover have "storable_run r" if "my_runs db (tabs d) i = Some r" for r
    using that R(2,3) map_of_by_id by (auto simp: my_runs_def R_def list_all_iff)
  ultimately show ?thesis
    using rows(2) by (auto simp: my_GetRun_def QueryRow_def q_get_run_def scan_stored_run split: option.splits)
qed

end

section \<open>A server that keeps the contract\<close>

interpretation plain_binary: binary_server "table_db plain_engine" plain_engine Committed "\<lambda>_. True" "\<lambda>_. True" Working
  by unfold_locales (simp add: plain_engine_def inj_on_def)

lemmas plain_server = plain_binary.binary_server_axioms

end
