(* ===== verification/Migrate.thy ===== *)
theory Migrate
  imports Mysql_Contract
begin

text \<open>
  \<open>internal/migrate/migrate.go\<close>: applying the scripts of a directory to the database. The file
  system is a parameter (\<open>os.ReadDir\<close> and \<open>os.ReadFile\<close> of a directory that does not change
  meanwhile), and so is running a script, whose text the model does not look into. The table of
  applied names is a table of \<open>Sql\<close>.
\<close>

section \<open>Files\<close>

text \<open>Entries of a directory with the flag whether they are directories themselves.\<close>

record fs =
  ReadDir :: "string \<Rightarrow> (string \<times> bool) list res"
  ReadFile :: "string \<Rightarrow> string res"

text \<open>\<open>filepath.Join\<close> of a clean directory and a name, and \<open>filepath.Base\<close>.\<close>

definition Join :: "string \<Rightarrow> string \<Rightarrow> string" where
  "Join dir name = dir @ ''/'' @ name"

definition Base :: "string \<Rightarrow> string" where
  "Base path = rev (takeWhile (\<lambda>c. c \<noteq> CHR ''/'') (rev path))"

definition migration_files :: "string \<Rightarrow> (string \<times> bool) list \<Rightarrow> string list" where
  "migration_files dir entries =
     sort (map (\<lambda>e. Join dir (fst e)) (filter (\<lambda>e. \<not> snd e \<and> HasSuffix (ToLower (fst e)) ''.sql'') entries))"

section \<open>The table of applied migrations\<close>

type_synonym 'd script = "string \<Rightarrow> 'd \<Rightarrow> go_error option \<times> 'd"

definition create_schema_migrations :: string where
  "create_schema_migrations =
     [CHR 0x0A] @ ''CREATE TABLE IF NOT EXISTS schema_migrations ('' @ [CHR 0x0A]
     @ ''  name VARCHAR(255) NOT NULL,'' @ [CHR 0x0A]
     @ ''  applied_at TIMESTAMP NOT NULL DEFAULT CURRENT_TIMESTAMP,'' @ [CHR 0x0A]
     @ ''  PRIMARY KEY (name)'' @ [CHR 0x0A] @ '') ENGINE=InnoDB;'' @ [CHR 0x0A]"

definition ensureSchemaMigrations :: "'d script \<Rightarrow> 'd \<Rightarrow> go_error option \<times> 'd" where
  "ensureSchemaMigrations script d = script create_schema_migrations d"

definition q_applied :: query where
  "q_applied = \<lparr>QCols = [''name''], QTable = ''schema_migrations'', QWhere = [(''name'', Param 0)], QOrder = None, QLimit = None\<rparr>"

definition isApplied :: "'d DB \<Rightarrow> string \<Rightarrow> 'd \<Rightarrow> bool res" where
  "isApplied db name d =
     bind_res (QueryRow db q_applied [SStr name] d (\<lambda>r. scan_string db 0 (field r 0))) (\<lambda>v. Inr (v \<noteq> None))"

definition c_mark_applied :: command where
  "c_mark_applied = Insert ''schema_migrations'' [(''name'', Param 0)] []"

definition markApplied :: "'d DB \<Rightarrow> string \<Rightarrow> 'd \<Rightarrow> go_error option \<times> 'd" where
  "markApplied db name d = ExecContext db c_mark_applied [SStr name] d"

section \<open>Applying a directory\<close>

fun apply_files :: "fs \<Rightarrow> 'd script \<Rightarrow> 'd DB \<Rightarrow> string list \<Rightarrow> 'd \<Rightarrow> go_error option \<times> 'd" where
  "apply_files fs script db [] d = (None, d)"
| "apply_files fs script db (path # paths) d =
     (let name = Base path in
      case isApplied db name d of
        Inl err \<Rightarrow> (Some err, d)
      | Inr True \<Rightarrow> apply_files fs script db paths d
      | Inr False \<Rightarrow>
          (case ReadFile fs path of
             Inl err \<Rightarrow> (Some err, d)
           | Inr sqlBytes \<Rightarrow>
               (case script sqlBytes d of
                  (Some err, d) \<Rightarrow> (Some (''migration '' @ name @ '' failed: '' @ err), d)
                | (None, d) \<Rightarrow>
                    (case markApplied db name d of
                       (Some err, d) \<Rightarrow> (Some err, d)
                     | (None, d) \<Rightarrow> apply_files fs script db paths d))))"

definition ApplyDir :: "fs \<Rightarrow> 'd script \<Rightarrow> 'd DB \<Rightarrow> string \<Rightarrow> 'd \<Rightarrow> go_error option \<times> 'd" where
  "ApplyDir fs script db dir d =
     (case ReadDir fs dir of
        Inl err \<Rightarrow> (Some err, d)
      | Inr entries \<Rightarrow>
          (case ensureSchemaMigrations script d of
             (Some err, d) \<Rightarrow> (Some err, d)
           | (None, d) \<Rightarrow> apply_files fs script db (migration_files dir entries) d))"

section \<open>Names of files\<close>

lemma Base_Join: "CHR ''/'' \<notin> set name \<Longrightarrow> Base (Join dir name) = name"
proof -
  assume "CHR ''/'' \<notin> set name"
  then have "takeWhile (\<lambda>c. c \<noteq> CHR ''/'') (rev name @ CHR ''/'' # rev dir) = rev name"
    by (subst takeWhile_append2) auto
  then show ?thesis by (simp add: Base_def Join_def)
qed

lemma Join_le: "Join dir a \<le> Join dir b \<longleftrightarrow> a \<le> b"
  unfolding Join_def by (induction dir) auto

lemma migration_files_sorted:
  "migration_files dir entries =
     map (Join dir) (sort (map fst (filter (\<lambda>e. \<not> snd e \<and> HasSuffix (ToLower (fst e)) ''.sql'') entries)))"
proof -
  have "sort (map (Join dir) ns) = map (Join dir) (sort ns)" for ns
    by (rule properties_for_sort) (simp_all add: sorted_wrt_map Join_le multiset.map_comp)
  from this [symmetric] show ?thesis by (simp add: migration_files_def comp_def)
qed

text \<open>The names of the files in the order in which they are applied.\<close>

lemma migration_names:
  assumes "distinct (map fst entries)" "\<forall>e \<in> set entries. CHR ''/'' \<notin> set (fst e)"
  shows "distinct (map Base (migration_files dir entries))"
proof -
  have base: "map Base (map (Join dir) xs) = xs" if "\<forall>n \<in> set xs. CHR ''/'' \<notin> set n" for xs
    using that by (induction xs) (auto simp: Base_Join)
  have "map Base (migration_files dir entries) =
      sort (map fst (filter (\<lambda>e. \<not> snd e \<and> HasSuffix (ToLower (fst e)) ''.sql'') entries))"
    unfolding migration_files_sorted using assms(2) by (intro base) auto
  then show ?thesis using distinct_map_filter [OF assms(1)] by simp
qed

section \<open>What the database keeps\<close>

text \<open>A server that runs scripts: \<open>sent\<close> is the sequence of scripts it was sent. Those of a given set do not
  touch the table of applied names, whether they succeed or not; for a run over a directory these are
  the statement that creates that table if it is not there, and the contents of the directory's files.\<close>

definition directory_scripts :: "fs \<Rightarrow> string \<Rightarrow> string set" where
  "directory_scripts fs dir =
     {s. s = create_schema_migrations \<or>
         (\<exists>entries. ReadDir fs dir = Inr entries \<and> (\<exists>p \<in> set (migration_files dir entries). ReadFile fs p = Inr s))}"

definition mark_row :: "string \<Rightarrow> row" where
  "mark_row n = [(''name'', SStr n)]"

locale migration_server = binary_server db eng tabs up open_tx view
  for db :: "'d DB" and eng :: engine and tabs :: "'d \<Rightarrow> tables" and up :: "'d \<Rightarrow> bool"
    and open_tx :: "'d \<Rightarrow> bool" and view :: "'d \<Rightarrow> tables" +
  fixes script :: "'d script" and sent :: "'d \<Rightarrow> string list" and scripts :: "string set"
  assumes script_law: "s \<in> scripts \<Longrightarrow> up d \<Longrightarrow> script s d = (err, d') \<Longrightarrow>
      up d' \<and> tabs d' ''schema_migrations'' = tabs d ''schema_migrations'' \<and> sent d' = sent d @ [s]"
    and exec_sent: "command_ok c \<Longrightarrow> sent (snd (ExecContext db c args d)) = sent d"
begin

lemma isApplied_marks:
  assumes "up d" "tabs d ''schema_migrations'' = map mark_row ns"
  shows "isApplied db n d = Inr (n \<in> set ns)"
proof -
  have ok: "query_ok q_applied [SStr n]" by (simp add: query_ok_def q_applied_def known_cols_def schema_def)
  obtain rs where rs: "answers eng q_applied [SStr n] (tabs d) rs"
    "QueryContext db q_applied [SStr n] d = Inr (map (project (QCols q_applied)) rs, None)"
    using query_law [OF assms(1) ok] by blast
  have "mset rs = mset (map mark_row (filter (\<lambda>x. x = n) ns))"
    using rs(1) assms(2)
    by (auto simp: answers_def q_applied_def row_limit_def filter_map comp_def row_matches_def mark_row_def col_def)
  then have "set rs = set (map mark_row (filter (\<lambda>x. x = n) ns))" by (rule mset_eq_setD)
  then have rows: "rs = [] \<longleftrightarrow> n \<notin> set ns" "\<forall>r \<in> set rs. r = mark_row n"
    unfolding set_empty [of rs, symmetric] by (auto simp only: set_map set_filter)
  show ?thesis
  proof (cases rs)
    case Nil
    then show ?thesis using rs(2) rows(1) by (simp add: isApplied_def QueryRow_def)
  next
    case (Cons r rs')
    then have "r = mark_row n" "n \<in> set ns" using rows by auto
    then show ?thesis
      using rs(2) Cons by (simp add: isApplied_def QueryRow_def q_applied_def project_def mark_row_def col_def field_def)
  qed
qed

lemma markApplied_marks:
  assumes "up d" "tabs d ''schema_migrations'' = map mark_row ns" "n \<notin> set ns" "markApplied db n d = (err, d')"
  shows "up d' \<and> sent d' = sent d \<and>
    tabs d' ''schema_migrations'' = map mark_row (if err = None then ns @ [n] else ns)"
proof -
  have ok: "command_ok c_mark_applied" by (simp add: c_mark_applied_def known_cols_def schema_def)
  have new: "\<not> list_ex (same_key_row eng ''schema_migrations'' (mark_row n)) (map mark_row ns)"
    using assms(3) by (auto simp: list_ex_iff same_key_row_def key_agrees_def unique_keys_def primary_key_def mark_row_def col_def)
  have "sql_exec eng c_mark_applied [SStr n] (tabs d) =
      (if fits_chars 255 n then Some ((tabs d)(''schema_migrations'' := map mark_row (ns @ [n]))) else None)"
    using new by (simp add: c_mark_applied_def store_col_def schema_def mark_row_def refers_def foreign_keys_def assms(2))
  with exec_law [OF assms(1) ok, of "[SStr n]"] exec_sent [OF ok, of "[SStr n]" d] assms(2,4) show ?thesis
    by (auto simp: markApplied_def split: if_splits)
qed

end

text \<open>What applying a list of files amounts to: some of the pending ones were run and recorded, in order;
  after an error at most the script of the next one was sent besides.\<close>

definition file_text :: "fs \<Rightarrow> string \<Rightarrow> string" where
  "file_text fs path = (case ReadFile fs path of Inr s \<Rightarrow> s | Inl _ \<Rightarrow> '''')"

definition applied_prefix :: "fs \<Rightarrow> string list \<Rightarrow> string list \<Rightarrow> go_error option \<Rightarrow> string list \<Rightarrow> string list \<Rightarrow> string list \<Rightarrow> bool" where
  "applied_prefix fs paths ns err ns' log log' \<longleftrightarrow>
     (\<exists>ran rest. filter (\<lambda>p. Base p \<notin> set ns) paths = ran @ rest \<and> ns' = ns @ map Base ran \<and>
        (if err = None then rest = [] \<and> log' = log @ map (file_text fs) ran
         else rest \<noteq> [] \<and> (log' = log @ map (file_text fs) ran \<or> log' = log @ map (file_text fs) (ran @ [hd rest]))))"

lemma applied_prefix_skip:
  "Base p \<in> set ns \<Longrightarrow> applied_prefix fs ps ns err ns' log log' \<Longrightarrow> applied_prefix fs (p # ps) ns err ns' log log'"
  by (simp add: applied_prefix_def)

lemma applied_prefix_stop:
  "Base p \<notin> set ns \<Longrightarrow> err \<noteq> None \<Longrightarrow> log' = log \<or> log' = log @ [file_text fs p] \<Longrightarrow> applied_prefix fs (p # ps) ns err ns log log'"
  unfolding applied_prefix_def by (rule exI [of _ "[]"]) auto

lemma applied_prefix_step:
  assumes "Base p \<notin> set ns" "Base p \<notin> set (map Base ps)" "applied_prefix fs ps (ns @ [Base p]) err ns' (log @ [file_text fs p]) log'"
  shows "applied_prefix fs (p # ps) ns err ns' log log'"
proof -
  obtain ran rest where d: "filter (\<lambda>q. Base q \<notin> set (ns @ [Base p])) ps = ran @ rest" "ns' = (ns @ [Base p]) @ map Base ran"
    "if err = None then rest = [] \<and> log' = (log @ [file_text fs p]) @ map (file_text fs) ran
     else rest \<noteq> [] \<and> (log' = (log @ [file_text fs p]) @ map (file_text fs) ran \<or> log' = (log @ [file_text fs p]) @ map (file_text fs) (ran @ [hd rest]))"
    using assms(3) unfolding applied_prefix_def by blast
  have "filter (\<lambda>q. Base q \<notin> set (ns @ [Base p])) ps = filter (\<lambda>q. Base q \<notin> set ns) ps"
    using assms(2) by (intro filter_cong) (auto simp: image_iff)
  with d assms(1) show ?thesis
    unfolding applied_prefix_def by (intro exI [of _ "p # ran"] exI [of _ rest]) (auto split: if_splits)
qed

context migration_server
begin

lemma apply_files_prefix:
  assumes "up d" "tabs d ''schema_migrations'' = map mark_row ns" "distinct (map Base paths)"
    "apply_files fs script db paths d = (err, d')" "\<forall>p \<in> set paths. \<forall>s. ReadFile fs p = Inr s \<longrightarrow> s \<in> scripts"
  shows "up d' \<and> (\<exists>ns'. tabs d' ''schema_migrations'' = map mark_row ns' \<and> applied_prefix fs paths ns err ns' (sent d) (sent d'))"
  using assms
proof (induction paths arbitrary: d ns)
  case Nil
  then show ?case by (auto simp: applied_prefix_def)
next
  case (Cons p ps)
  note app = isApplied_marks [OF Cons.prems(1,2), of "Base p"]
  have dist: "distinct (map Base ps)" "Base p \<notin> set (map Base ps)" using Cons.prems(3) by simp_all
  have ps: "\<forall>q \<in> set ps. \<forall>s. ReadFile fs q = Inr s \<longrightarrow> s \<in> scripts" using Cons.prems(5) by simp
  show ?case
  proof (cases "Base p \<in> set ns")
    case True
    then have "apply_files fs script db ps d = (err, d')" using Cons.prems(4) app by (simp add: Let_def)
    from Cons.IH [OF Cons.prems(1,2) dist(1) this ps] show ?thesis using applied_prefix_skip [OF True] by blast
  next
    case False
    show ?thesis
    proof (cases "ReadFile fs p")
      case (Inl e)
      then show ?thesis using False Cons.prems app by (auto simp: Let_def intro!: exI [of _ ns] applied_prefix_stop)
    next
      case (Inr s)
      then have body: "file_text fs p = s" by (simp add: file_text_def)
      obtain e1 d1 where d1: "script s d = (e1, d1)" by (cases "script s d")
      have "s \<in> scripts" using Cons.prems(5) Inr by simp
      note sl = script_law [OF this Cons.prems(1) d1]
      show ?thesis
      proof (cases e1)
        case (Some e)
        then show ?thesis
          using False Inr Cons.prems app d1 sl body by (auto simp: Let_def intro!: exI [of _ ns] applied_prefix_stop)
      next
        case None
        obtain e2 d2 where d2: "markApplied db (Base p) d1 = (e2, d2)" by (cases "markApplied db (Base p) d1")
        have "tabs d1 ''schema_migrations'' = map mark_row ns" using sl Cons.prems(2) by simp
        note m = markApplied_marks [OF conjunct1 [OF sl] this False d2]
        show ?thesis
        proof (cases e2)
          case (Some e)
          then show ?thesis
            using False Inr Cons.prems app d1 None d2 sl body m by (auto simp: Let_def intro!: exI [of _ ns] applied_prefix_stop)
        next
          case e2: None
          then have rest: "apply_files fs script db ps d2 = (err, d')"
            using False Inr Cons.prems(4) app d1 None d2 by (simp add: Let_def)
          have "up d2" "tabs d2 ''schema_migrations'' = map mark_row (ns @ [Base p])" "sent d2 = sent d @ [file_text fs p]"
            using m e2 sl body by simp_all
          with Cons.IH [OF this(1,2) dist(1) rest ps] show ?thesis using applied_prefix_step [OF False dist(2)] by auto
        qed
      qed
    qed
  qed
qed

end

section \<open>A server that notes the scripts it is sent\<close>

definition note_script :: "table_state script" where
  "note_script s d = (None, d\<lparr>Committed := (Committed d)(''sent'' := Committed d ''sent'' @ [[(''script'', SStr s)]])\<rparr>)"

definition noted :: "table_state \<Rightarrow> string list" where
  "noted d = concat (map (\<lambda>r. case col ''script'' r of SStr s \<Rightarrow> [s] | _ \<Rightarrow> []) (Committed d ''sent''))"

lemma sent_not_known: "\<not> known_cols ''sent'' cs"
  by (simp add: known_cols_def schema_def)

lemma command_ok_table:
  assumes "command_ok c" "sql_exec eng c args T = Some T'"
  shows "T' ''sent'' = T ''sent''"
proof (cases c)
  case (Insert t ces dups)
  then have "t \<noteq> ''sent''" using assms(1) sent_not_known by auto
  with assms(2) Insert show ?thesis by (auto simp: Let_def split: option.splits if_splits)
next
  case (Update t ces wh)
  then have "t \<noteq> ''sent''" using assms(1) sent_not_known by auto
  with assms(2) Update show ?thesis by (auto split: option.splits)
qed

interpretation noting: migration_server "table_db plain_engine" plain_engine Committed "\<lambda>_. True" "\<lambda>_. True" Working note_script noted scripts
  for scripts
proof unfold_locales
  show "True \<and> Committed d' ''schema_migrations'' = Committed d ''schema_migrations'' \<and> noted d' = noted d @ [s]"
    if "note_script s d = (err, d')" for s d err d'
    using that by (auto simp: note_script_def noted_def col_def)
  show "noted (snd (ExecContext (table_db plain_engine) c args d)) = noted d" if "command_ok c" for c args d
    using command_ok_table [OF that, of plain_engine args "Committed d"]
    by (cases "sql_exec plain_engine c args (Committed d)") (simp_all add: noted_def table_db_def)
qed

section \<open>Properties\<close>

lemma ApplyDir_files:
  assumes "ReadDir fs dir = Inr entries" "script create_schema_migrations d = (None, d1)"
  shows "ApplyDir fs script db dir d = apply_files fs script db (migration_files dir entries) d1"
  using assms by (simp add: ApplyDir_def ensureSchemaMigrations_def)

text \<open>The names that are still to be applied, in their order.\<close>

definition pending :: "(string \<times> bool) list \<Rightarrow> string list \<Rightarrow> string list" where
  "pending entries ns =
     sort (filter (\<lambda>n. n \<notin> set ns) (map fst (filter (\<lambda>e. \<not> snd e \<and> HasSuffix (ToLower (fst e)) ''.sql'') entries)))"

lemma pending_after: "pending entries (ns @ pre) = filter (\<lambda>n. n \<notin> set pre) (pending entries ns)"
  by (simp add: pending_def filter_sort conj_commute)

lemma pending_append: "distinct (pre @ post) \<Longrightarrow> pending entries ns = pre @ post \<Longrightarrow> pending entries (ns @ pre) = post"
  unfolding pending_after by (auto intro!: filter_True simp: filter_empty_conv)

lemma distinct_pending: "distinct (map fst entries) \<Longrightarrow> distinct (pending entries ns)"
  by (simp add: pending_def distinct_map_filter)

lemma pending_files:
  assumes "\<forall>e \<in> set entries. CHR ''/'' \<notin> set (fst e)"
  shows "filter (\<lambda>p. Base p \<notin> set ns) (migration_files dir entries) = map (Join dir) (pending entries ns)"
proof -
  have files: "migration_files dir entries =
      map (Join dir) (sort (map fst (filter (\<lambda>e. \<not> snd e \<and> HasSuffix (ToLower (fst e)) ''.sql'') entries)))"
    by (rule migration_files_sorted)
  have "filter (\<lambda>p. Base p \<notin> set ns) (map (Join dir) ms) = map (Join dir) (filter (\<lambda>n. n \<notin> set ns) ms)"
    if "\<forall>n \<in> set ms. CHR ''/'' \<notin> set n" for ms
    using that by (induction ms) (auto simp: Base_Join)
  with files show ?thesis using assms by (simp add: pending_def filter_sort)
qed

context migration_server
begin

lemma ApplyDir_pending:
  assumes "up d" "tabs d ''schema_migrations'' = map mark_row ns" "ReadDir fs dir = Inr entries"
    "distinct (map fst entries)" "\<forall>e \<in> set entries. CHR ''/'' \<notin> set (fst e)"
    "script create_schema_migrations d = (None, d0)" "ApplyDir fs script db dir d = (err, d')" "directory_scripts fs dir \<subseteq> scripts"
  shows "\<exists>ran rest. pending entries ns = ran @ rest \<and> up d' \<and> tabs d' ''schema_migrations'' = map mark_row (ns @ ran) \<and>
    (if err = None then rest = [] \<and> sent d' = sent d @ create_schema_migrations # map (file_text fs \<circ> Join dir) ran
     else rest \<noteq> [] \<and> sent d' \<in> {sent d @ create_schema_migrations # map (file_text fs \<circ> Join dir) ran,
       sent d @ create_schema_migrations # map (file_text fs \<circ> Join dir) (ran @ [hd rest])})"
proof -
  have "create_schema_migrations \<in> scripts" using assms(8) by (auto simp: directory_scripts_def)
  note s = script_law [OF this assms(1,6)]
  have files: "\<forall>p \<in> set (migration_files dir entries). \<forall>s. ReadFile fs p = Inr s \<longrightarrow> s \<in> scripts"
    using assms(3,8) by (auto simp: directory_scripts_def)
  have "tabs d0 ''schema_migrations'' = map mark_row ns" using s assms(2) by simp
  from apply_files_prefix [OF conjunct1 [OF s] this migration_names [OF assms(4,5)] _ files] assms(7)
  obtain ns' where ns': "up d'" "tabs d' ''schema_migrations'' = map mark_row ns'"
    "applied_prefix fs (migration_files dir entries) ns err ns' (sent d0) (sent d')"
    unfolding ApplyDir_files [where script = script and d = d, OF assms(3,6)] by blast
  obtain ran rest where r: "map (Join dir) (pending entries ns) = ran @ rest" "ns' = ns @ map Base ran"
    "if err = None then rest = [] \<and> sent d' = sent d0 @ map (file_text fs) ran
     else rest \<noteq> [] \<and> (sent d' = sent d0 @ map (file_text fs) ran \<or> sent d' = sent d0 @ map (file_text fs) (ran @ [hd rest]))"
    using ns'(3) unfolding applied_prefix_def pending_files [OF assms(5)] by blast
  then obtain ran' rest' where p: "pending entries ns = ran' @ rest'" "ran = map (Join dir) ran'" "rest = map (Join dir) rest'"
    by (auto simp: map_eq_append_conv)
  have "\<forall>n \<in> set (pending entries ns). CHR ''/'' \<notin> set n" using assms(5) by (auto simp: pending_def)
  then have "map Base ran = ran'" using p by (auto simp: Base_Join intro!: map_idI)
  then show ?thesis
    using r ns'(1,2) p s by (intro exI [of _ ran'] exI [of _ rest']) (auto simp: comp_def hd_map split: if_splits)
qed

end

text \<open>(C19) Migrations are applied in order and once: when ApplyDir succeeds, the database was sent, after the
  creation of the bookkeeping table, the scripts of exactly those .sql files of the directory that
  were not recorded before, in the order of their names, and their names are recorded; a further
  run over the same directory sends none of them again.\<close>

theorem migrations_in_order_once:
  assumes "migration_server db eng tabs up open_tx view script sent (directory_scripts fs dir)" "up d" "tabs d ''schema_migrations'' = map mark_row ns"
    "ReadDir fs dir = Inr entries" "distinct (map fst entries)" "\<forall>e \<in> set entries. CHR ''/'' \<notin> set (fst e)"
    "script create_schema_migrations d = (None, d0)" "ApplyDir fs script db dir d = (None, d')"
  shows "sorted (pending entries ns) \<and>
    set (pending entries ns) = {n. (n, False) \<in> set entries \<and> HasSuffix (ToLower n) ''.sql'' \<and> n \<notin> set ns} \<and>
    sent d' = sent d @ create_schema_migrations # map (file_text fs \<circ> Join dir) (pending entries ns) \<and>
    tabs d' ''schema_migrations'' = map mark_row (ns @ pending entries ns) \<and>
    (\<forall>err d''. ApplyDir fs script db dir d' = (err, d'') \<longrightarrow>
       sent d'' = sent d' @ [create_schema_migrations] \<and> tabs d'' ''schema_migrations'' = tabs d' ''schema_migrations'')"
proof -
  note run = migration_server.ApplyDir_pending [OF assms(1), OF assms(2-8) order_refl]
  have one: "up d'" "sent d' = sent d @ create_schema_migrations # map (file_text fs \<circ> Join dir) (pending entries ns)"
    "tabs d' ''schema_migrations'' = map mark_row (ns @ pending entries ns)"
    using run by auto
  have none: "pending entries (ns @ pending entries ns) = []"
    using pending_append [of "pending entries ns" "[]" entries ns] distinct_pending [OF assms(5)] by simp
  have again: "sent d'' = sent d' @ [create_schema_migrations] \<and> tabs d'' ''schema_migrations'' = tabs d' ''schema_migrations''"
    if call: "ApplyDir fs script db dir d' = (err, d'')" for err d''
  proof -
    obtain e d1 where d1: "script create_schema_migrations d' = (e, d1)" by (cases "script create_schema_migrations d'")
    have "create_schema_migrations \<in> directory_scripts fs dir" by (simp add: directory_scripts_def)
    note s = migration_server.script_law [OF assms(1) this one(1) d1]
    show ?thesis
    proof (cases e)
      case (Some x)
      then have "d'' = d1" using call d1 assms(4) by (simp add: ApplyDir_def ensureSchemaMigrations_def)
      then show ?thesis using s by simp
    next
      case None
      from migration_server.ApplyDir_pending [OF assms(1), OF one(1,3) assms(4-6) d1 [unfolded None] call order_refl] none one(3)
      show ?thesis by (auto split: if_splits)
    qed
  qed
  have "set (pending entries ns) = {n. (n, False) \<in> set entries \<and> HasSuffix (ToLower n) ''.sql'' \<and> n \<notin> set ns}"
    by (auto simp: pending_def image_iff)
  moreover have "sorted (pending entries ns)" by (simp add: pending_def)
  ultimately show ?thesis using one(2,3) again by blast
qed

definition sample_fs :: "string res \<Rightarrow> fs" where
  "sample_fs content = \<lparr>ReadDir = (\<lambda>_. Inr [(''0001_init.sql'', False), (''notes'', True)]), ReadFile = (\<lambda>_. content)\<rparr>"

definition empty_tables :: table_state where
  "empty_tables = \<lparr>Committed = (\<lambda>_. []), Working = (\<lambda>_. [])\<rparr>"

lemma sample_entries:
  "ReadDir (sample_fs c) dir = Inr [(''0001_init.sql'', False), (''notes'', True)]"
  "distinct (map fst [(''0001_init.sql'', False), (''notes'', True)])"
  "\<forall>e \<in> set [(''0001_init.sql'', False), (''notes'', True)]. CHR ''/'' \<notin> set (fst e)"
  by (simp_all add: sample_fs_def)

lemma sample_name: "HasSuffix (ToLower ''0001_init.sql'') ''.sql''"
  by (simp add: HasSuffix_def suffix_to_prefix ToLower_def char_to_lower_def)

lemma sample_pending: "pending [(''0001_init.sql'', False), (''notes'', True)] [] = [''0001_init.sql'']"
  using sample_name by (simp add: pending_def)

lemma sample_files: "migration_files ''migrations'' [(''0001_init.sql'', False), (''notes'', True)] = [''migrations/0001_init.sql'']"
  using sample_name by (simp add: migration_files_def Join_def)

lemma sample_base: "Base ''migrations/0001_init.sql'' = ''0001_init.sql''"
  by (simp add: Base_def)

lemma sample_created:
  "note_script create_schema_migrations empty_tables = (None, snd (note_script create_schema_migrations empty_tables))"
  "Committed empty_tables ''schema_migrations'' = map mark_row []"
  by (simp_all add: note_script_def empty_tables_def)

theorem migrations_in_order_once_witness:
  "\<exists>d'. ApplyDir (sample_fs (Inr ''CREATE TABLE t (i INT)'')) note_script (table_db plain_engine) ''migrations'' empty_tables = (None, d') \<and>
    noted d' = [create_schema_migrations, ''CREATE TABLE t (i INT)''] \<and> Committed d' ''schema_migrations'' = [mark_row ''0001_init.sql'']"
proof -
  let ?fs = "sample_fs (Inr ''CREATE TABLE t (i INT)'')"
  have fits: "fits_chars 255 ''0001_init.sql''" by (simp add: fits_chars_def valid_utf8_ascii runes_ascii)
  have "\<exists>d'. ApplyDir ?fs note_script (table_db plain_engine) ''migrations'' empty_tables = (None, d')"
    using fits
    by (simp add: ApplyDir_def sample_entries ensureSchemaMigrations_def note_script_def sample_files sample_base isApplied_def QueryRow_def
        table_db_def table_rows_def q_applied_def row_limit_def empty_tables_def sample_fs_def markApplied_def c_mark_applied_def
        store_col_def schema_def refers_def foreign_keys_def)
  then obtain d' where d': "ApplyDir ?fs note_script (table_db plain_engine) ''migrations'' empty_tables = (None, d')" by blast
  have "file_text ?fs (Join ''migrations'' ''0001_init.sql'') = ''CREATE TABLE t (i INT)''" by (simp add: file_text_def sample_fs_def)
  moreover have "noted empty_tables = []" by (simp add: noted_def empty_tables_def)
  ultimately show ?thesis
    using migrations_in_order_once [OF noting.migration_server_axioms, OF TrueI sample_created(2) sample_entries sample_created(1) d'] d'
    unfolding sample_pending by auto
qed

text \<open>(C20) A failed migration stops the run and is retried: when ApplyDir fails after the bookkeeping table
  was created, the pending files before some point were run and recorded in order, the script at
  that point may have been sent but is not recorded, nothing after it was sent, and what is
  pending for the next run begins with it.\<close>

theorem migrations_resume_after_failure:
  assumes "migration_server db eng tabs up open_tx view script sent (directory_scripts fs dir)" "up d" "tabs d ''schema_migrations'' = map mark_row ns"
    "ReadDir fs dir = Inr entries" "distinct (map fst entries)" "\<forall>e \<in> set entries. CHR ''/'' \<notin> set (fst e)"
    "script create_schema_migrations d = (None, d0)" "ApplyDir fs script db dir d = (Some err, d')"
  shows "\<exists>ran rest. pending entries ns = ran @ rest \<and> rest \<noteq> [] \<and>
    tabs d' ''schema_migrations'' = map mark_row (ns @ ran) \<and> pending entries (ns @ ran) = rest \<and>
    sent d' \<in> {sent d @ create_schema_migrations # map (file_text fs \<circ> Join dir) ran,
      sent d @ create_schema_migrations # map (file_text fs \<circ> Join dir) (ran @ [hd rest])}"
proof -
  obtain ran rest where r: "pending entries ns = ran @ rest" "tabs d' ''schema_migrations'' = map mark_row (ns @ ran)" "rest \<noteq> []"
    "sent d' \<in> {sent d @ create_schema_migrations # map (file_text fs \<circ> Join dir) ran,
      sent d @ create_schema_migrations # map (file_text fs \<circ> Join dir) (ran @ [hd rest])}"
    using migration_server.ApplyDir_pending [OF assms(1), OF assms(2-8) order_refl] by auto
  moreover have "pending entries (ns @ ran) = rest"
    using pending_append [of ran rest entries ns] distinct_pending [OF assms(5), of ns] r(1) by simp
  ultimately show ?thesis by blast
qed

theorem migrations_resume_after_failure_witness:
  "\<exists>d'. ApplyDir (sample_fs (Inl ''no such file'')) note_script (table_db plain_engine) ''migrations'' empty_tables = (Some ''no such file'', d') \<and>
    Committed d' ''schema_migrations'' = [] \<and> pending [(''0001_init.sql'', False), (''notes'', True)] [] \<noteq> []"
proof -
  let ?fs = "sample_fs (Inl ''no such file'')" and ?d = "snd (note_script create_schema_migrations empty_tables)"
  have d': "ApplyDir ?fs note_script (table_db plain_engine) ''migrations'' empty_tables = (Some ''no such file'', ?d)"
    by (simp add: ApplyDir_def sample_entries ensureSchemaMigrations_def note_script_def sample_files sample_base isApplied_def QueryRow_def
        table_db_def table_rows_def q_applied_def row_limit_def empty_tables_def)
      (simp add: sample_fs_def)
  from migrations_resume_after_failure [OF noting.migration_server_axioms, OF TrueI sample_created(2) sample_entries sample_created(1) d']
  obtain ran rest where r: "[''0001_init.sql''] = ran @ rest" "rest \<noteq> []" "Committed ?d ''schema_migrations'' = map mark_row ran"
    unfolding sample_pending by auto
  then have "ran = []" by (cases ran) auto
  with r(3) d' show ?thesis by (auto simp: sample_pending)
qed

end
