(* ===== verification/Mysql_Tables.thy ===== *)
theory Mysql_Tables
  imports Mysql_Contract Worker Upsert
begin

text \<open>
  More of what the MySQL store keeps, for the same servers as \<open>Mysql_Contract\<close>: the products of a
  run and cached responses written and read back, and the steps of the upsert handler over the store.
\<close>

section \<open>Issues read from a JSON column\<close>

lemma fold_lower: "97 \<le> r \<Longrightarrow> r \<le> 122 \<Longrightarrow> fold_rune r = r"
  unfolding fold_rune_def rune_to_lower_def by simp

lemma issue_field_simps [simp]:
  "decode_issue_field (''path'', v) i = i\<lparr>Path := decode_string v (Path i)\<rparr>"
  "decode_issue_field (''code'', v) i = i\<lparr>Code := decode_string v (Code i)\<rparr>"
  "decode_issue_field (''message'', v) i = i\<lparr>Message := decode_string v (Message i)\<rparr>"
  by (simp_all add: decode_issue_field_def EqualFold_ascii fold_lower)

lemma fields_commute:
  assumes "kv \<in> {(''path'', JStr p), (''code'', JStr c), (''message'', JStr m)}"
    "kv' \<in> {(''path'', JStr p), (''code'', JStr c), (''message'', JStr m)}"
  shows "decode_issue_field kv \<circ> decode_issue_field kv' = decode_issue_field kv' \<circ> decode_issue_field kv"
  using assms by (auto simp: fun_eq_iff)

lemma canon_strings_pairs:
  "map (\<lambda>(k, v). (k, canon v)) ms = map (\<lambda>(k, s). (k, JStr s)) kss \<longleftrightarrow> ms = map (\<lambda>(k, s). (k, JStr s)) kss"
  by (induction ms arbitrary: kss) (auto simp: Cons_eq_map_conv map_eq_Cons_conv canon_eq_simps)

lemma decode_stored_issue:
  assumes "canon j = canon (issue_json i)"
  shows "decode_issue j = i"
proof -
  let ?kss = "[(''path'', Path i), (''code'', Code i), (''message'', Message i)]"
  let ?ms = "map (\<lambda>(k, s). (k, JStr s)) ?kss"
  have canon: "canon j = JObj (sort_key fst ?ms)" using assms by (simp add: issue_json_def)
  then obtain ms where j: "j = JObj ms" and sorted: "sort_key fst (map (\<lambda>(k, v). (k, canon v)) ms) = sort_key fst ?ms"
    by (cases j) auto
  then have "mset (map (\<lambda>(k, v). (k, canon v)) ms) = mset ?ms" by (metis mset_sort)
  from mset_eq_map [OF this] obtain kss where kss: "map (\<lambda>(k, v). (k, canon v)) ms = map (\<lambda>(k, s). (k, JStr s)) kss" "mset kss = mset ?kss"
    by blast
  then have ms: "ms = map (\<lambda>(k, s). (k, JStr s)) kss" by (simp only: canon_strings_pairs)
  then have perm: "mset ms = mset ?ms" using kss(2) by (simp add: mset_map)
  then have "set ms = set ?ms" by (rule mset_eq_setD)
  then have "fold decode_issue_field ms = fold decode_issue_field ?ms"
    using perm by (intro fold_multiset_equiv fields_commute [of _ "Path i" "Code i" "Message i"]) auto
  then show ?thesis by (simp add: j)
qed

lemma decode_stored_issues:
  assumes "canon j = canon (issues_json is)"
  shows "decode_issues j = is"
proof (cases "is = []")
  case True
  then show ?thesis using assms by (simp add: issues_json_def canon_eq_simps)
next
  case False
  then obtain vs where j: "j = JArr vs" and vs: "map canon vs = map (\<lambda>i. canon (issue_json i)) is"
    using assms by (cases j) (auto simp: issues_json_def)
  from vs have "map decode_issue vs = is"
    by (induction vs arbitrary: "is") (auto simp: Cons_eq_map_conv decode_stored_issue)
  then show ?thesis by (simp add: j)
qed

lemma issues_json_ok:
  "list_all valid_issue is \<Longrightarrow> wf_json (issues_json is)" "json_depth (issues_json is) \<le> max_depth"
proof -
  show "list_all valid_issue is \<Longrightarrow> wf_json (issues_json is)"
    by (auto simp: issues_json_def list_all_iff wf_json_structs(1))
  have "json_depth (JArr (map issue_json is)) \<le> 2"
    using depth_arr [of "map issue_json is" 1] by (auto simp: depth_structs(1))
  then show "json_depth (issues_json is) \<le> max_depth" by (simp add: issues_json_def max_depth_def)
qed

text \<open>The issues of base validation are plain ASCII.\<close>

lemma valid_issue_ascii: "ascii p \<Longrightarrow> ascii c \<Longrightarrow> ascii m \<Longrightarrow> valid_issue \<lparr>Path = p, Code = c, Message = m\<rparr>"
  by (simp add: valid_issue_def valid_utf8_ascii)

lemma valid_requireNonEmpty:
  "list_all valid_issue (Issues res) \<Longrightarrow> ascii path \<Longrightarrow> list_all valid_issue (Issues (requireNonEmpty path v res))"
  by (simp add: requireNonEmpty_def valid_issue_ascii)

lemma valid_base_issues: "list_all valid_issue (Issues (ValidateProductBase p))"
  unfolding ValidateProductBase_def Let_def
  by (simp add: empty_result_def decimal_msg_def currency_msg_def valid_issue_ascii valid_requireNonEmpty)

section \<open>The products of a run\<close>

definition product_row :: "engine \<Rightarrow> string \<Rightarrow> ProductProcessResult \<Rightarrow> row" where
  "product_row eng i p =
     [(''run_id'', SStr i), (''product_key'', SStr (ResProductKey p)), (''disposition'', SStr (ResDisposition p)),
      (''reason'', SStr (ResReason p)), (''normalized_hash'', SStr (ResHash p)),
      (''issues_json'', SStr (JsonText eng (issues_json (ResIssues p))))]"

lemma col_product_row [simp]:
  "col ''run_id'' (product_row eng i p) = SStr i" "col ''product_key'' (product_row eng i p) = SStr (ResProductKey p)"
  by (simp_all add: product_row_def col_def)

definition storable_product :: "ProductProcessResult \<Rightarrow> bool" where
  "storable_product p \<longleftrightarrow> hash_fits (ResProductKey p) (ResHash p) \<and> fits_chars 64 (ResDisposition p) \<and>
     fits_chars 255 (ResReason p) \<and> list_all valid_issue (ResIssues p)"

text \<open>A run identifier that no row of \<open>run_products\<close> carries yet, and one whose rows are given
  results.\<close>

definition products_of :: "engine \<Rightarrow> tables \<Rightarrow> string \<Rightarrow> ProductProcessResult list \<Rightarrow> bool" where
  "products_of eng T i ps \<longleftrightarrow>
     filter (\<lambda>r. sql_eq eng (col ''run_id'' r) (SStr i)) (T ''run_products'') = map (product_row eng i) ps"

definition insert_product_args :: "string \<Rightarrow> ProductProcessResult \<Rightarrow> sqlval list" where
  "insert_product_args i p =
     [SStr i, SStr (ResProductKey p), SStr (ResDisposition p), SStr (ResReason p), SStr (ResHash p),
      SStr (render (issues_json (ResIssues p)))]"

lemma store_product_row:
  assumes "storable_product p" "fits_chars 64 i"
  shows "store_row eng ''run_products'' (map (\<lambda>(c, e). (c, eval_expr (insert_product_args i p) e))
      [(''run_id'', Param 0), (''product_key'', Param 1), (''disposition'', Param 2), (''reason'', Param 3),
       (''normalized_hash'', Param 4), (''issues_json'', Param 5)]) = Some (product_row eng i p)"
proof -
  have f: "fits_chars 255 (ResProductKey p)" "fits_chars 64 (ResHash p)" "ResHash p = [] \<or> last (ResHash p) \<noteq> CHR '' ''"
    "fits_chars 64 (ResDisposition p)" "fits_chars 255 (ResReason p)" "list_all valid_issue (ResIssues p)"
    using assms(1) by (simp_all add: storable_product_def hash_fits_def)
  have "store_val eng Json_doc True (SStr (render (issues_json (ResIssues p)))) = Some (SStr (JsonText eng (issues_json (ResIssues p))))"
    using issues_json_ok [of "ResIssues p"] f(6) by (simp add: unmarshal_render valid_utf8_render)
  then show ?thesis
    using f(1,2,4,5) assms(2) trim_trailing [OF f(3)]
    by (simp add: insert_product_args_def store_col_def schema_def product_row_def)
qed

context binary_server
begin

lemma scan_stored_product:
  assumes "storable_product p"
  shows "scan_product db (project (QCols q_run_products) (product_row eng i p)) = Inr p"
proof -
  let ?j = "issues_json (ResIssues p)"
  have "wf_json ?j" "json_depth ?j \<le> max_depth"
    using assms issues_json_ok [of "ResIssues p"] by (simp_all add: storable_product_def)
  from json_law [OF this] obtain j where "JsonText eng ?j \<noteq> []" "unmarshal_doc (JsonText eng ?j) = Inr j" "canon j = canon ?j"
    by blast
  then have "unmarshal_into (JsonText eng ?j) decode_issues [] = ResIssues p"
    by (simp add: unmarshal_into_def decode_stored_issues)
  then show ?thesis
    by (simp add: scan_product_def q_run_products_def project_def product_row_def col_def field_def)
qed

end

lemma sql_eq_sym: "sql_eq eng a b = sql_eq eng b a"
  by (cases a; cases b; auto)

lemma c_insert_product_exec:
  "my_InsertRunProducts db i (p # ps) d =
     (case ExecContext db c_insert_product (insert_product_args i p) d of
        (Some err, d) \<Rightarrow> (Some err, d) | (None, d) \<Rightarrow> my_InsertRunProducts db i ps d)"
  by (simp add: insert_product_args_def)

lemma product_key_clash:
  "list_ex (same_key_row eng ''run_products'' (product_row eng i p)) rows \<longleftrightarrow>
     list_ex (\<lambda>r. sql_eq eng (col ''product_key'' r) (SStr (ResProductKey p))) (filter (\<lambda>r. sql_eq eng (col ''run_id'' r) (SStr i)) rows)"
  by (auto simp: same_key_row_def key_agrees_def unique_keys_def primary_key_def list_ex_iff sql_eq_sym [of eng "SStr _"])

context binary_server
begin

lemma insert_product_step:
  assumes "storable_product p" "fits_chars 64 i" "list_ex (\<lambda>r. sql_eq eng (col ''run_id'' r) (SStr i)) (T ''runs'')"
    "products_of eng T i qs" "ResProductKey p \<notin> ResProductKey ` set qs"
  shows "sql_exec eng c_insert_product (insert_product_args i p) T = Some (T(''run_products'' := T ''run_products'' @ [product_row eng i p]))"
proof -
  have ref: "refers eng T ''run_products'' (product_row eng i p)"
    using assms(3) by (auto simp: refers_def foreign_keys_def list_ex_iff sql_eq_sym [of eng "SStr _"])
  have "\<not> list_ex (same_key_row eng ''run_products'' (product_row eng i p)) (T ''run_products'')"
    unfolding product_key_clash using assms(4,5) by (simp add: products_of_def list_ex_iff image_iff) metis
  then show ?thesis
    unfolding c_insert_product_def by (rule sql_insert(1) [OF store_product_row [OF assms(1,2)] ref])
qed

lemma my_insert_products:
  assumes "up d" "list_all storable_product ps" "fits_chars 64 i" "list_ex (\<lambda>r. sql_eq eng (col ''run_id'' r) (SStr i)) (tabs d ''runs'')"
    "products_of eng (tabs d) i qs" "distinct (map ResProductKey (qs @ ps))"
  shows "\<exists>d'. my_InsertRunProducts db i ps d = (None, d') \<and> up d' \<and> products_of eng (tabs d') i (qs @ ps) \<and>
    (\<forall>t. t \<noteq> ''run_products'' \<longrightarrow> tabs d' t = tabs d t) \<and>
    (\<forall>j rs. j \<noteq> i \<longrightarrow> products_of eng (tabs d) j rs \<longrightarrow> products_of eng (tabs d') j rs)"
  using assms
proof (induction ps arbitrary: d qs)
  case (Cons p ps)
  have "ResProductKey p \<notin> ResProductKey ` set qs" "storable_product p" using Cons.prems(2,6) by auto
  from insert_product_step [OF this(2) Cons.prems(3-5) this(1)]
    exec_law [OF Cons.prems(1) commands_ok(3), of "insert_product_args i p"]
  obtain d1 where d1: "ExecContext db c_insert_product (insert_product_args i p) d = (None, d1)" "up d1"
    "tabs d1 = (tabs d)(''run_products'' := tabs d ''run_products'' @ [product_row eng i p])" by auto
  have own: "products_of eng (tabs d1) i (qs @ [p])" using Cons.prems(5) d1(3) by (simp add: products_of_def)
  have other: "products_of eng (tabs d1) j rs" if "j \<noteq> i" "products_of eng (tabs d) j rs" for j rs
    using that d1(3) by (simp add: products_of_def)
  have "list_ex (\<lambda>r. sql_eq eng (col ''run_id'' r) (SStr i)) (tabs d1 ''runs'')" using Cons.prems(4) d1(3) by simp
  with Cons.IH [OF d1(2) _ Cons.prems(3) _ own] Cons.prems(2,6)
  obtain d' where d': "my_InsertRunProducts db i ps d1 = (None, d')" "up d'" "products_of eng (tabs d') i ((qs @ [p]) @ ps)"
    "\<forall>t. t \<noteq> ''run_products'' \<longrightarrow> tabs d' t = tabs d1 t"
    "\<forall>j rs. j \<noteq> i \<longrightarrow> products_of eng (tabs d1) j rs \<longrightarrow> products_of eng (tabs d') j rs" by auto
  have "my_InsertRunProducts db i (p # ps) d = (None, d')" unfolding c_insert_product_exec using d1(1) d'(1) by simp
  then show ?case using d'(2-5) d1(3) other by (intro exI [of _ d']) auto
qed simp

lemma my_list_products:
  assumes "up d" "products_of eng (tabs d) i ps" "list_all storable_product ps"
  shows "\<exists>Q. mset Q = mset ps \<and> sorted (map (Collate eng \<circ> ResProductKey) Q) \<and>
    my_ListRunProducts db d i limit = Inr (take (nat (if limit \<le> 0 then 200 else min limit 2000)) Q)"
proof -
  let ?n = "if limit \<le> 0 then 200 else min limit 2000"
  have pos: "0 \<le> ?n" by simp
  obtain rows where rows: "answers eng q_run_products [SStr i, SInt ?n] (tabs d) rows"
    "QueryContext db q_run_products [SStr i, SInt ?n] d = Inr (map (project (QCols q_run_products)) rows, None)"
    using query_law [OF assms(1) queries_ok(5) [OF pos]] by blast
  have "filter (row_matches eng (QWhere q_run_products) [SStr i, SInt ?n]) (tabs d (QTable q_run_products)) = map (product_row eng i) ps"
    using assms(2) by (simp add: products_of_def q_run_products_def row_matches_def [abs_def])
  then obtain all where all: "mset all = mset (map (product_row eng i) ps)" "ordered_by eng (Some (''product_key'', True)) all"
    "rows = take (nat ?n) all"
    using rows(1) by (auto simp: answers_def row_limit_def q_run_products_def)
  obtain Q where Q: "all = map (product_row eng i) Q" "mset Q = mset ps" using mset_eq_map [OF all(1)] by blast
  have "scan_rows (scan_product db) (map (project (QCols q_run_products)) (map (product_row eng i) qs)) None = Inr qs"
    if "list_all storable_product qs" for qs
    using that by (induction qs) (simp_all add: scan_stored_product)
  moreover have "list_all storable_product (take (nat ?n) Q)"
    using assms(3) mset_eq_setD [OF Q(2)] set_take_subset [of "nat ?n" Q] by (auto simp: list_all_iff)
  ultimately have "my_ListRunProducts db d i limit = Inr (take (nat ?n) Q)"
    using rows(2) unfolding all(3) Q(1) by (auto simp: my_ListRunProducts_def Let_def take_map min_def split: if_splits)
  moreover have "sorted (map (Collate eng \<circ> ResProductKey) Q)"
    using all(2) unfolding Q(1)
    by (simp add: ordered_by_def comp_def sorted_wrt_map)
  ultimately show ?thesis using Q(2) by blast
qed

end

lemma sql_insert_frame: "sql_exec eng (Insert t ces dups) args T = Some T' \<Longrightarrow> x \<noteq> t \<Longrightarrow> T' x = T x"
  by (auto simp: Let_def split: option.splits if_splits)

text \<open>Whatever the collation: results whose keys it identifies do not fit into the table together.\<close>

definition key_taken :: "engine \<Rightarrow> tables \<Rightarrow> string \<Rightarrow> ProductProcessResult \<Rightarrow> bool" where
  "key_taken eng T i p \<longleftrightarrow> list_ex (\<lambda>r. sql_eq eng (col ''run_id'' r) (SStr i) \<and>
     sql_eq eng (col ''product_key'' r) (SStr (ResProductKey p))) (T ''run_products'')"

lemma insert_product_success:
  assumes "sql_exec eng c_insert_product (insert_product_args i p) T = Some T'"
  shows "\<not> key_taken eng T i p" "key_taken eng T' i q \<longleftrightarrow> key_taken eng T i q \<or> Collate eng (ResProductKey p) = Collate eng (ResProductKey q)"
proof -
  obtain r where r: "store_row eng ''run_products'' (map (\<lambda>(c, e). (c, eval_expr (insert_product_args i p) e))
      [(''run_id'', Param 0), (''product_key'', Param 1), (''disposition'', Param 2), (''reason'', Param 3),
       (''normalized_hash'', Param 4), (''issues_json'', Param 5)]) = Some r"
    and new: "\<not> list_ex (same_key_row eng ''run_products'' r) (T ''run_products'')" "T' = T(''run_products'' := T ''run_products'' @ [r])"
    using assms by (auto simp: c_insert_product_def simp del: store_row.simps split: option.splits if_splits)
  have cols: "col ''run_id'' r = SStr i" "col ''product_key'' r = SStr (ResProductKey p)"
    using r by (auto simp: insert_product_args_def store_col_def schema_def col_def split: option.splits if_splits)
  show "\<not> key_taken eng T i p"
    using new(1) cols by (auto simp: key_taken_def same_key_row_def key_agrees_def unique_keys_def primary_key_def list_ex_iff sql_eq_sym [of eng "SStr _"])
  show "key_taken eng T' i q \<longleftrightarrow> key_taken eng T i q \<or> Collate eng (ResProductKey p) = Collate eng (ResProductKey q)"
    using cols by (auto simp: key_taken_def new(2))
qed

context sql_server
begin

lemma insert_products_frame:
  "up d \<Longrightarrow> my_InsertRunProducts db i ps d = (err, d') \<Longrightarrow> up d' \<and> (x \<noteq> ''run_products'' \<longrightarrow> tabs d' x = tabs d x)"
proof (induction ps arbitrary: d)
  case (Cons p ps)
  obtain e d1 where d1: "ExecContext db c_insert_product (insert_product_args i p) d = (e, d1)"
    by (cases "ExecContext db c_insert_product (insert_product_args i p) d")
  have "up d1 \<and> (x \<noteq> ''run_products'' \<longrightarrow> tabs d1 x = tabs d x)"
    using exec_law [OF Cons.prems(1) commands_ok(3), of "insert_product_args i p"] d1
      sql_insert_frame [of eng _ _ _ "insert_product_args i p" "tabs d"]
    by (auto simp: c_insert_product_def simp del: sql_exec.simps split: option.splits)
  then show ?case using Cons.IH [of d1] Cons.prems(2) d1 unfolding c_insert_product_exec by (cases e) auto
qed simp

lemma colliding_products_refused:
  assumes "up d" "\<not> distinct (map (Collate eng \<circ> ResProductKey) ps) \<or> list_ex (key_taken eng (tabs d) i) ps"
  shows "\<exists>e d'. my_InsertRunProducts db i ps d = (Some e, d')"
  using assms
proof (induction ps arbitrary: d)
  case (Cons p ps)
  obtain e d1 where d1: "ExecContext db c_insert_product (insert_product_args i p) d = (e, d1)"
    by (cases "ExecContext db c_insert_product (insert_product_args i p) d")
  show ?case
  proof (cases e)
    case (Some x)
    then show ?thesis unfolding c_insert_product_exec using d1 by simp
  next
    case None
    then obtain T where T: "sql_exec eng c_insert_product (insert_product_args i p) (tabs d) = Some T" "up d1" "tabs d1 = T"
      using exec_law [OF Cons.prems(1) commands_ok(3), of "insert_product_args i p"] d1 by (auto split: option.splits)
    have "\<not> distinct (map (Collate eng \<circ> ResProductKey) ps) \<or> list_ex (key_taken eng (tabs d1) i) ps"
      using Cons.prems(2) insert_product_success [OF T(1)] unfolding T(3) by (auto simp: list_ex_iff comp_def)
    from Cons.IH [OF T(2) this] d1 None show ?thesis unfolding c_insert_product_exec by simp
  qed
qed simp

end

section \<open>Cached responses\<close>

definition idem_row :: "engine \<Rightarrow> (uint64 \<times> string \<times> string) \<times> json IdempotencyRecord \<Rightarrow> row" where
  "idem_row eng e = (case e of ((t, ep, k), rec) \<Rightarrow>
     [(''tenant_id'', SInt (uint t)), (''endpoint'', SStr ep), (''idem_key_hash'', SStr k),
      (''status_code'', SInt (int (StatusCode rec))), (''response_body_json'', SStr (JsonText eng (BodyJSON rec))),
      (''created_at'', STime (IdemCreatedAt rec)), (''expires_at'', STime (ExpiresAt rec))])"

definition caches_ok :: "engine \<Rightarrow> tables \<Rightarrow> bool" where
  "caches_ok eng T \<longleftrightarrow> (\<exists>cs. T ''idempotency'' = map (idem_row eng) cs \<and> distinct (map fst cs) \<and>
     list_all (\<lambda>e. StatusCode (snd e) < 2 ^ 31) cs)"


text \<open>What a cache entry becomes: the server's spelling of the body, times to the second.\<close>

definition as_stored :: "json \<Rightarrow> string IdempotencyRecord \<Rightarrow> json IdempotencyRecord" where
  "as_stored j rec = \<lparr>StatusCode = StatusCode rec, BodyJSON = j, ExpiresAt = to_second (ExpiresAt rec),
     IdemCreatedAt = to_second (IdemCreatedAt rec)\<rparr>"

definition as_read :: "engine \<Rightarrow> json IdempotencyRecord \<Rightarrow> string IdempotencyRecord" where
  "as_read eng rec = \<lparr>StatusCode = StatusCode rec, BodyJSON = JsonText eng (BodyJSON rec), ExpiresAt = ExpiresAt rec,
     IdemCreatedAt = IdemCreatedAt rec\<rparr>"

definition timestamp_ok :: "time \<Rightarrow> bool" where
  "timestamp_ok t \<longleftrightarrow> second \<le> to_second t \<and> to_second t < 2 ^ 31 * second"

lemma col_idem_row [simp]:
  "col ''tenant_id'' (idem_row eng e) = SInt (uint (fst (fst e)))" "col ''endpoint'' (idem_row eng e) = SStr (fst (snd (fst e)))"
  "col ''idem_key_hash'' (idem_row eng e) = SStr (snd (snd (fst e)))" "col ''status_code'' (idem_row eng e) = SInt (int (StatusCode (snd e)))"
  "col ''response_body_json'' (idem_row eng e) = SStr (JsonText eng (BodyJSON (snd e)))"
  "col ''created_at'' (idem_row eng e) = STime (IdemCreatedAt (snd e))" "col ''expires_at'' (idem_row eng e) = STime (ExpiresAt (snd e))"
  by (simp_all add: idem_row_def col_def split: prod.split)

lemma set_idem_row:
  "set_cols (map (\<lambda>c. (c, col c (idem_row eng e))) [''status_code'', ''response_body_json'', ''created_at'', ''expires_at'']) (idem_row eng e') =
     idem_row eng (fst e', snd e)"
  by (cases e'; cases "fst e'") (simp add: set_cols_def, simp add: idem_row_def)

definition put_args :: "uint64 \<Rightarrow> string \<Rightarrow> string \<Rightarrow> string IdempotencyRecord \<Rightarrow> sqlval list" where
  "put_args t ep k rec =
     [SInt (uint t), SStr ep, SStr k, SInt (int (StatusCode rec)), SStr (BodyJSON rec), STime (IdemCreatedAt rec), STime (ExpiresAt rec)]"

lemma store_idem_row:
  assumes "fits_chars 255 ep" "hash_fits '''' k" "StatusCode rec < 2 ^ 31" "unmarshal_doc (BodyJSON rec) = Inr j"
    "valid_utf8 (BodyJSON rec)" "timestamp_ok (IdemCreatedAt rec)" "timestamp_ok (ExpiresAt rec)"
  shows "store_row eng ''idempotency'' (map (\<lambda>(c, e). (c, eval_expr (put_args t ep k rec) e))
      [(''tenant_id'', Param 0), (''endpoint'', Param 1), (''idem_key_hash'', Param 2), (''status_code'', Param 3),
       (''response_body_json'', Param 4), (''created_at'', Param 5), (''expires_at'', Param 6)]) =
    Some (idem_row eng ((t, ep, k), as_stored j rec))"
proof -
  have k: "fits_chars 64 k" "rev (dropWhile (\<lambda>x. x = CHR '' '') (rev k)) = k"
    using assms(2) trim_trailing [of k] by (auto simp: hash_fits_def)
  have ts: "store_val eng Timestamp False (STime x) = Some (STime (to_second x))" if "timestamp_ok x" for x
    using that by (simp add: timestamp_ok_def to_second_def Let_def)
  have tid: "store_val eng Bigint_unsigned False (SInt (uint t)) = Some (SInt (uint t))"
    by (simp add: uint_lt2p [where 'a = 64, simplified])
  have key: "store_val eng (Fixed_char 64) False (SStr k) = Some (SStr k)" using k by simp
  have doc: "store_val eng Json_doc False (SStr (BodyJSON rec)) = Some (SStr (JsonText eng j))" using assms(4,5) by simp
  have st: "store_val eng Int32 False (SInt (int (StatusCode rec))) = Some (SInt (int (StatusCode rec)))" using assms(3) by simp
  have ep: "store_val eng (Varchar 255) False (SStr ep) = Some (SStr ep)" using assms(1) by simp
  show ?thesis
    using tid key doc st ep ts [OF assms(6)] ts [OF assms(7)]
    by (simp add: put_args_def store_col_def schema_def idem_row_def as_stored_def del: store_val.simps)
qed


context binary_server
begin

lemma matches_idem:
  "row_matches eng [(''tenant_id'', Param 0), (''endpoint'', Param (Suc 0)), (''idem_key_hash'', Param 2)]
     [SInt (uint t), SStr ep, SStr k] (idem_row eng e) \<longleftrightarrow> fst e = (t, ep, k)"
  "same_key_row eng ''idempotency'' (idem_row eng e') (idem_row eng e) \<longleftrightarrow> fst e = fst e'"
  by (auto simp: row_matches_def same_key_row_def key_agrees_def unique_keys_def primary_key_def word_uint_eq_iff prod_eq_iff)

lemma my_get_idem:
  assumes "up d" "tabs d ''idempotency'' = map (idem_row eng) cs" "distinct (map fst cs)" "list_all (\<lambda>e. StatusCode (snd e) < 2 ^ 31) cs"
  shows "my_GetIdempotency db now d t ep k =
    Inr (case map_of cs (t, ep, k) of None \<Rightarrow> None | Some rec \<Rightarrow> if now > ExpiresAt rec then None else Some (as_read eng rec))"
proof -
  let ?args = "[SInt (uint t), SStr ep, SStr k]"
  obtain rs where rs: "answers eng q_idempotency ?args (tabs d) rs"
    "QueryContext db q_idempotency ?args d = Inr (map (project (QCols q_idempotency)) rs, None)"
    using query_law [OF assms(1) queries_ok(3)] by blast
  have "mset rs = mset (map (idem_row eng) (filter (\<lambda>e. fst e = (t, ep, k)) cs))"
    using rs(1) assms(2) by (auto simp: answers_def q_idempotency_def row_limit_def filter_map comp_def matches_idem(1))
  then have row: "rs = (case map_of cs (t, ep, k) of None \<Rightarrow> [] | Some rec \<Rightarrow> [idem_row eng ((t, ep, k), rec)])"
    by (cases "map_of cs (t, ep, k)") (simp_all add: filter_key [OF assms(3)] mset_single_iff)
  show ?thesis
  proof (cases "map_of cs (t, ep, k)")
    case None
    with row rs(2) show ?thesis by (simp add: my_GetIdempotency_def QueryRow_def)
  next
    case (Some rec)
    then have "((t, ep, k), rec) \<in> set cs" by (rule map_of_SomeD)
    then have "StatusCode rec < 2 ^ 31" using assms(4) by (auto simp: list_all_iff)
    with Some row rs(2) show ?thesis
      by (simp add: my_GetIdempotency_def QueryRow_def q_idempotency_def project_def field_def as_read_def)
  qed
qed

lemma my_put_idem:
  assumes "up d" "tabs d ''idempotency'' = map (idem_row eng) cs" "distinct (map fst cs)" "tenant_known (tabs d) t"
    "fits_chars 255 ep" "hash_fits '''' k" "StatusCode rec < 2 ^ 31" "unmarshal_doc (BodyJSON rec) = Inr j"
    "valid_utf8 (BodyJSON rec)" "timestamp_ok (IdemCreatedAt rec)" "timestamp_ok (ExpiresAt rec)"
  shows "\<exists>d'. my_PutIdempotency db t ep k rec d = (None, d') \<and> up d' \<and>
    tabs d' = (tabs d)(''idempotency'' := map (idem_row eng) (AList.update (t, ep, k) (as_stored j rec) cs))"
proof -
  let ?args = "put_args t ep k rec" and ?r = "idem_row eng ((t, ep, k), as_stored j rec)"
  let ?dups = "[''status_code'', ''response_body_json'', ''created_at'', ''expires_at'']"
  have old: "list_ex (same_key_row eng ''idempotency'' ?r) (map (idem_row eng) cs) \<longleftrightarrow> (t, ep, k) \<in> fst ` set cs"
    by (force simp: list_ex_iff matches_idem)
  have ref: "refers eng (tabs d) ''idempotency'' ?r"
    using assms(4) by (auto simp: refers_def foreign_keys_def tenant_known_def sql_eq_int list_ex_iff)
  note row = store_idem_row [OF assms(5-11), of eng t]
  have "sql_exec eng c_put_idempotency ?args (tabs d) =
      Some ((tabs d)(''idempotency'' := map (idem_row eng) (AList.update (t, ep, k) (as_stored j rec) cs)))"
  proof (cases "(t, ep, k) \<in> fst ` set cs")
    case True
    then have ex: "list_ex (same_key_row eng ''idempotency'' ?r) (tabs d ''idempotency'')" using old assms(2) by simp
    have "clashing eng ''idempotency'' ?r (tabs d ''idempotency'') = same_key_row eng ''idempotency'' ?r"
      using clashing_single [OF _ ex] by (simp add: unique_keys_def fun_eq_iff)
    then have "update_first (clashing eng ''idempotency'' ?r (tabs d ''idempotency''))
        (set_cols (map (\<lambda>c. (c, col c ?r)) ?dups)) (tabs d ''idempotency'') = map (idem_row eng) (AList.update (t, ep, k) (as_stored j rec) cs)"
      using True unfolding assms(2) by (intro update_first_entries) (auto simp only: matches_idem set_idem_row fst_conv snd_conv)
    then show ?thesis
      unfolding c_put_idempotency_def
      by (intro sql_insert(3) [OF row ref ex] unique_entries distinct_update assms(3)) (auto simp: matches_idem)
  next
    case False
    then have "\<not> list_ex (same_key_row eng ''idempotency'' ?r) (tabs d ''idempotency'')" using old assms(2) by simp
    from sql_insert(1) [OF row ref this, of ?dups] show ?thesis
      using False unfolding c_put_idempotency_def by (simp only: update_new [OF False] assms(2) map_append list.map)
  qed
  with exec_law [OF assms(1) commands_ok(4), of ?args] show ?thesis
    by (auto simp: my_PutIdempotency_def put_args_def)
qed

end


section \<open>Handlers over the MySQL store\<close>

lemma runs_cong:
  assumes "T ''runs'' = T' ''runs''"
  shows "runs_ok db eng T = runs_ok db eng T'" "my_runs db T = my_runs db T'"
  using assms by (simp_all add: runs_ok_def my_runs_def decode_runs_def)

lemma products_of_cong: "T ''run_products'' = T' ''run_products'' \<Longrightarrow> products_of eng T i ps = products_of eng T' i ps"
  by (simp add: products_of_def)

lemma tenant_known_cong: "T ''tenants'' = T' ''tenants'' \<Longrightarrow> tenant_known T t = tenant_known T' t"
  by (simp add: tenant_known_def)

lemma run_record_ids [simp]:
  "RunID (run_record i t w out now) = i" "TenantID (run_record i t w out now) = t" "FeedID (run_record i t w out now) = None"
  by (simp_all add: run_record_def)

lemma storable_writes:
  "list_all storable_product ps \<Longrightarrow> \<forall>(k, h) \<in> set (hash_writes ps). hash_fits k h"
  by (auto simp: hash_writes_def list_all_iff storable_product_def)

context binary_server
begin

lemma puts_frame:
  assumes "up d" "hashes_ok (tabs d)" "\<forall>(k, h) \<in> set khs. hash_fits k h"
  shows "up (fold (\<lambda>(k, h) d. snd (my_UpsertProductHash db t k h d)) khs d)"
    "x \<noteq> ''product_state'' \<Longrightarrow> tabs (fold (\<lambda>(k, h) d. snd (my_UpsertProductHash db t k h d)) khs d) x = tabs d x"
proof -
  have "up (fold (\<lambda>(k, h) d. snd (my_UpsertProductHash db t k h d)) khs d) \<and>
    (x \<noteq> ''product_state'' \<longrightarrow> tabs (fold (\<lambda>(k, h) d. snd (my_UpsertProductHash db t k h d)) khs d) x = tabs d x)"
    using assms
  proof (induction khs arbitrary: d)
    case (Cons kh khs)
    obtain k h where kh: "kh = (k, h)" by (cases kh)
    have fit: "hash_fits k h" "\<forall>(k, h) \<in> set khs. hash_fits k h" using Cons.prems(3) kh by auto
    obtain hs where hs: "tabs d ''product_state'' = map hash_row hs" "distinct (map fst hs)"
      using Cons.prems(2) by (auto simp: hashes_ok_def)
    obtain d' where d': "my_UpsertProductHash db t k h d = (None, d')" "up d'"
      "tabs d' = (tabs d)(''product_state'' := map hash_row (AList.update (t, k) h hs))"
      using my_put_hash [OF Cons.prems(1) hs fit(1)] by blast
    have "hashes_ok (tabs d')" using d'(3) distinct_update [OF hs(2)] by (auto simp: hashes_ok_def)
    from Cons.IH [OF d'(2) this fit(2)] show ?case using d' kh by simp
  qed simp
  then show "up (fold (\<lambda>(k, h) d. snd (my_UpsertProductHash db t k h d)) khs d)"
    "x \<noteq> ''product_state'' \<Longrightarrow> tabs (fold (\<lambda>(k, h) d. snd (my_UpsertProductHash db t k h d)) khs d) x = tabs d x" by blast+
qed

lemma my_finish_run:
  assumes "up d" "runs_ok db eng (tabs d)" "tenant_known (tabs d) t" "my_runs db (tabs d) i = None" "products_of eng (tabs d) i []"
    "storable_run (stored_run (run_record i t w out now))" "list_all storable_product (OutProducts out)"
    "distinct (map ResProductKey (OutProducts out))"
  shows "\<exists>d'. finish_run (mysql_Store db) i t w out now d = (writeJSON 200 (PRun (run_response i w out)), d') \<and> up d' \<and>
    runs_ok db eng (tabs d') \<and> my_runs db (tabs d') = (my_runs db (tabs d))(i \<mapsto> stored_run (run_record i t w out now)) \<and>
    products_of eng (tabs d') i (OutProducts out) \<and> (\<forall>x. x \<notin> {''runs'', ''run_products''} \<longrightarrow> tabs d' x = tabs d x)"
proof -
  let ?r = "run_record i t w out now"
  have "refers eng (tabs d) ''runs'' (run_row eng ?r)" using assms(3) by (simp add: refers_run)
  from my_insert_run [OF assms(1,2,6) this] assms(4)
  obtain d1 where d1: "my_InsertRun db ?r d = (None, d1)" "up d1" "runs_ok db eng (tabs d1)"
    "my_runs db (tabs d1) = (my_runs db (tabs d))(i \<mapsto> stored_run ?r)" "\<forall>x. x \<noteq> ''runs'' \<longrightarrow> tabs d1 x = tabs d x" by auto
  have fits: "fits_chars 64 i" using assms(6) by (simp add: storable_run_def)
  have "\<exists>r \<in> set (decode_runs db (tabs d1)). RunID r = i"
    using my_runs_None [OF d1(3), of i] d1(4) by auto
  then have run: "list_ex (\<lambda>r. sql_eq eng (col ''run_id'' r) (SStr i)) (tabs d1 ''runs'')"
    using d1(3) by (auto simp: runs_ok_def list_ex_iff)
  have prods: "products_of eng (tabs d1) i []" using products_of_cong [of "tabs d1" "tabs d"] d1(5) assms(5) by simp
  from my_insert_products [OF d1(2) assms(7) fits run prods] assms(8)
  obtain d2 where d2: "my_InsertRunProducts db i (OutProducts out) d1 = (None, d2)" "up d2" "products_of eng (tabs d2) i (OutProducts out)"
    "\<forall>x. x \<noteq> ''run_products'' \<longrightarrow> tabs d2 x = tabs d1 x" by auto
  have "tabs d2 ''runs'' = tabs d1 ''runs''" using d2(4) by simp
  note cong = runs_cong [where db = db and T = "tabs d2" and T' = "tabs d1", OF this]
  have "finish_run (mysql_Store db) i t w out now d = (writeJSON 200 (PRun (run_response i w out)), d2)"
    using d1(1) d2(1) by (simp add: finish_run_def run_response_def)
  then show ?thesis using d2 d1(3-5) cong by (intro exI [of _ d2]) simp
qed

text \<open>The upsert handler up to the recording of the run.\<close>

lemma my_upsert_persist:
  assumes "up d" "hashes_ok (tabs d)" "HandlerStore h = Some (mysql_Store db)" "Method r = ''POST''" "NewRunID rt = Inr i"
    "BodyErr r = None" "ParseProductsAllowUnknown (BodyBytes r) = Inr parsed" "ctx_TenantID (ReqCtx r) = t"
    "ProcessProducts (RngChannels rt) (Products parsed) (EnabledChannels h) (Some (my_GetProductHash db d t)) = Inr out"
    "list_all storable_product (OutProducts out)"
  shows "\<exists>d1. DebugUpsert_ServeHTTP h rt r d = finish_run (mysql_Store db) i t (Warnings parsed) out (NowRun rt) d1 \<and> up d1 \<and>
    hashes_ok (tabs d1) \<and> (\<forall>x. x \<noteq> ''product_state'' \<longrightarrow> tabs d1 x = tabs d x) \<and>
    (\<forall>k. my_GetProductHash db d1 t k =
      (case map_of (rev (hash_writes (OutProducts out))) k of Some h \<Rightarrow> Inr (Some h) | None \<Rightarrow> my_GetProductHash db d t k))"
proof -
  let ?d1 = "fold (\<lambda>(k, h) d. snd (my_UpsertProductHash db t k h d)) (hash_writes (OutProducts out)) d"
  note fit = storable_writes [OF assms(10)]
  have "persist_products (mysql_Store db) t (OutProducts out) d = (None, ?d1)"
    using assms(1,2) fit by (intro hashes.persist_products_ok) auto
  then have "DebugUpsert_ServeHTTP h rt r d = finish_run (mysql_Store db) i t (Warnings parsed) out (NowRun rt) ?d1"
    using assms(3-9) by (simp add: DebugUpsert_ServeHTTP_def Let_def)
  moreover have "up ?d1 \<and> hashes_ok (tabs ?d1)"
    using assms(1,2) fit by (intro hashes.binv_puts) auto
  moreover have "my_GetProductHash db ?d1 t k =
      (case map_of (rev (hash_writes (OutProducts out))) k of Some h \<Rightarrow> Inr (Some h) | None \<Rightarrow> my_GetProductHash db d t k)" for k
    using hashes.bget_puts [OF conjI [OF assms(1,2)] fit, of t t k] by simp
  ultimately show ?thesis using puts_frame(2) [OF assms(1,2) fit] by (intro exI [of _ ?d1]) blast
qed

end

end
