(* ===== verification/Mysql_Service.thy ===== *)
theory Mysql_Service
  imports Mysql_Tables
begin

text \<open>
  The service over the MySQL store: the theorems of the store's contracts and of the handlers, the
  executor and the worker that run on it. They hold for every server that keeps the contract
  \<open>sql_server\<close>, or \<open>binary_server\<close> where strings have to be told apart byte by byte; the witnesses use
  the server that is its tables.
\<close>

section \<open>A sample database\<close>

definition sample_tables :: "RunRecord list \<Rightarrow> (string \<times> ProductProcessResult) list \<Rightarrow> tables" where
  "sample_tables rs ps = (\<lambda>t.
     if t = ''tenants'' then [[(''tenant_id'', SInt 1), (''name'', SStr ''default'')], [(''tenant_id'', SInt 7), (''name'', SStr ''seven'')]]
     else if t = ''runs'' then map (run_row plain_engine) rs
     else if t = ''run_products'' then map (\<lambda>(i, p). product_row plain_engine i p) ps else [])"

definition sample_db :: "RunRecord list \<Rightarrow> (string \<times> ProductProcessResult) list \<Rightarrow> table_state" where
  "sample_db rs ps = \<lparr>Committed = sample_tables rs ps, Working = (\<lambda>_. [])\<rparr>"

lemma sample_db_tables [simp]:
  "Committed (sample_db rs ps) ''runs'' = map (run_row plain_engine) rs"
  "Committed (sample_db rs ps) ''run_products'' = map (\<lambda>(i, p). product_row plain_engine i p) ps"
  "Committed (sample_db rs ps) ''product_state'' = []" "Committed (sample_db rs ps) ''idempotency'' = []"
  by (simp_all add: sample_db_def sample_tables_def)

lemma sample_tenants: "tenant_known (Committed (sample_db rs ps)) 7" "\<not> tenant_known (Committed (sample_db rs ps)) 3"
  by (simp_all add: tenant_known_def sample_db_def sample_tables_def col_def)

lemma sample_hashes: "hashes_ok (Committed (sample_db rs ps))"
  by (auto simp: hashes_ok_def)

lemma sample_runs:
  assumes "list_all storable_run rs" "distinct (map RunID rs)"
  shows "runs_ok (table_db plain_engine) plain_engine (Committed (sample_db rs ps))"
    "my_runs (table_db plain_engine) (Committed (sample_db rs ps)) = map_of (map (\<lambda>r. (RunID r, r)) rs)"
  using plain_binary.runs_okI [where T = "Committed (sample_db rs ps)" and rs = rs] assms
  by (simp_all add: my_runs_def)

definition queued_run :: "string \<Rightarrow> time \<Rightarrow> RunRecord" where
  "queued_run i t = (sample_run i 7 (t * second))\<lparr>Status := ''has_changes'', PushTriggered := True\<rparr>"

lemma fits_ascii: "ascii s \<Longrightarrow> length s \<le> n \<Longrightarrow> fits_chars n s"
  by (simp add: fits_chars_def valid_utf8_ascii runes_ascii)

lemma storable_queued: "ascii i \<Longrightarrow> length i \<le> 64 \<Longrightarrow> 1 \<le> t \<Longrightarrow> t < 2 ^ 31 \<Longrightarrow> storable_run (queued_run i t)"
  by (simp add: queued_run_def sample_run_def storable_run_def fits_ascii whole_second_def second_def)

section \<open>The queue\<close>

text \<open>(C16) Claiming from MySQL refines the queue contract: on a reachable server whose runs the columns
  hold, ClaimRuns commits and returns the oldest waiting runs of all tenants, each once and at most
  the limit (10 if not positive), leaves out a waiting run only when the limit is used up by runs
  that are not younger, marks exactly the returned runs as processing, and changes no other
  table.\<close>

theorem mysql_claim_refines_queue:
  assumes "binary_server db eng tabs up open_tx view" "up d" "runs_ok db eng (tabs d)"
  shows "\<exists>rs d'. my_ClaimRuns db limit d = (Inr (map claim_of rs), d') \<and>
    distinct (map RunID rs) \<and> length rs \<le> claim_limit limit \<and> sorted (map CreatedAt rs) \<and>
    (\<forall>r \<in> set rs. claimable r \<and> my_runs db (tabs d) (RunID r) = Some r) \<and>
    (\<forall>r. claimable r \<longrightarrow> my_runs db (tabs d) (RunID r) = Some r \<longrightarrow> r \<notin> set rs \<longrightarrow>
       length rs = claim_limit limit \<and> (\<forall>r' \<in> set rs. CreatedAt r' \<le> CreatedAt r)) \<and>
    my_runs db (tabs d') = mark_processing (RunID ` set rs) (my_runs db (tabs d)) \<and>
    up d' \<and> runs_ok db eng (tabs d') \<and> (\<forall>t. t \<noteq> ''runs'' \<longrightarrow> tabs d' t = tabs d t)"
  by (rule binary_server.my_claim_spec [OF assms])

theorem mysql_claim_refines_queue_witness:
  "\<exists>rs d'. my_ClaimRuns (table_db plain_engine) 1 (sample_db [queued_run ''b'' 20, queued_run ''a'' 10] []) = (Inr (map claim_of rs), d') \<and>
     length rs \<le> 1 \<and> set rs \<subseteq> {queued_run ''b'' 20, queued_run ''a'' 10}"
proof -
  let ?rs = "[queued_run ''b'' 20, queued_run ''a'' 10]"
  have ok: "list_all storable_run ?rs" "distinct (map RunID ?rs)"
    by (simp_all add: storable_queued) (simp add: queued_run_def sample_run_def)
  note runs = sample_runs [OF ok, of "[]"]
  obtain rs d' where "my_ClaimRuns (table_db plain_engine) 1 (sample_db ?rs []) = (Inr (map claim_of rs), d')" "length rs \<le> claim_limit 1"
    and mem: "\<forall>r \<in> set rs. claimable r \<and> my_runs (table_db plain_engine) (Committed (sample_db ?rs [])) (RunID r) = Some r"
    using mysql_claim_refines_queue [OF plain_server, OF TrueI runs(1), of 1] by (elim exE conjE) (rule that, assumption+)
  moreover have "set rs \<subseteq> set ?rs"
  proof
    fix r assume "r \<in> set rs"
    then have "map_of (map (\<lambda>r. (RunID r, r)) ?rs) (RunID r) = Some r" using mem unfolding runs(2) by blast
    from map_of_SomeD [OF this] show "r \<in> set ?rs" by auto
  qed
  ultimately show ?thesis by (auto simp: claim_limit_def)
qed

context tx_server
begin

lemma mark_claims_frame:
  "open_tx d \<Longrightarrow> mark_claims db cs d = (err, d') \<Longrightarrow> tabs d' = tabs d \<and> open_tx d'"
proof (induction cs arbitrary: d)
  case (Cons c cs)
  obtain e d1 where d1: "TxExecContext db c_mark_processing [SStr (ClaimRunID c), SInt (uint (ClaimTenantID c))] d = (e, d1)"
    by (cases "TxExecContext db c_mark_processing [SStr (ClaimRunID c), SInt (uint (ClaimTenantID c))] d")
  with tx_exec_frame [OF Cons.prems(1) commands_ok(5) d1] Cons.IH [of d1] Cons.prems(2) show ?case by (cases e) auto
qed simp

end

text \<open>(C22) A claim that fails changes nothing and holds nothing: when ClaimRuns returns an error on a
  server whose calls may fail at any point, then its transaction is over, with no table changed,
  whatever it had marked before; or the error is that of the commit of such a transaction.\<close>

theorem mysql_failed_claim_changes_nothing:
  assumes "tx_server db tabs up open_tx" "up d" "my_ClaimRuns db limit d = (Inl err, d')"
  shows "up d' \<and> tabs d' = tabs d \<or>
    (\<exists>d1. open_tx d1 \<and> tabs d1 = tabs d \<and> Commit db d1 = (Some err, d'))"
proof -
  obtain e d1 where d1: "BeginTx db d = (e, d1)" by (cases "BeginTx db d")
  note b = tx_server.begin_frame [OF assms(1,2) d1]
  show ?thesis
  proof (cases e)
    case (Some x)
    then show ?thesis using assms(3) d1 b by (simp add: my_ClaimRuns_def Let_def)
  next
    case None
    have frame: "up (Rollback db x)" "tabs (Rollback db x) = tabs x" if "open_tx x" for x
      using tx_server.rollback_frame [OF assms(1) that] by simp_all
    show ?thesis
      using assms(3) d1 b None frame tx_server.mark_claims_frame [OF assms(1)]
      by (auto simp: my_ClaimRuns_def Let_def split: sum.splits prod.splits option.splits)
  qed
qed

text \<open>A server that allows one statement per transaction and fails the others.\<close>

record flaky_state = table_state +
  InTx :: bool
  Sent :: nat

definition flaky_db :: "flaky_state DB" where
  "flaky_db =
     \<lparr>ExecContext = (\<lambda>_ _ d. (Some ''read only'', d)),
      QueryContext = (\<lambda>q args d. Inr (map (project (QCols q)) (table_rows plain_engine q args (Committed d)), None)),
      BeginTx = (\<lambda>d. if InTx d then (Some ''busy'', d) else (None, d\<lparr>Working := Committed d, InTx := True, Sent := 0\<rparr>)),
      TxExecContext = (\<lambda>c args d.
        if 0 < Sent d then (Some ''deadlock'', d)
        else case sql_exec plain_engine c args (Working d) of
            Some T \<Rightarrow> (None, d\<lparr>Working := T, Sent := 1\<rparr>) | None \<Rightarrow> (Some ''statement failed'', d)),
      TxQueryContext = (\<lambda>q args d. Inr (map (project (QCols q)) (table_rows plain_engine q args (Working d)), None)),
      Commit = (\<lambda>d. (None, d\<lparr>Committed := Working d, InTx := False\<rparr>)),
      Rollback = (\<lambda>d. d\<lparr>InTx := False\<rparr>),
      ScanErr = (\<lambda>_ _. ''unsupported Scan'')\<rparr>"

interpretation flaky: tx_server flaky_db Committed "\<lambda>d. \<not> InTx d" InTx
  by unfold_locales (auto simp: flaky_db_def split: if_splits option.splits)

text \<open>Of two waiting runs the first is marked, the second statement fails, and nothing remains of it.\<close>

theorem mysql_failed_claim_changes_nothing_witness:
  "\<exists>d d'. Committed d = Committed (sample_db [queued_run ''a'' 10, queued_run ''b'' 20] []) \<and>
     fst (TxExecContext flaky_db c_mark_processing [SStr ''a'', SInt 7] (snd (BeginTx flaky_db d))) = None \<and>
     my_ClaimRuns flaky_db 5 d = (Inl ''deadlock'', d') \<and> \<not> InTx d' \<and> Committed d' = Committed d"
proof -
  let ?T = "Committed (sample_db [queued_run ''a'' 10, queued_run ''b'' 20] [])"
  let ?d = "\<lparr>Committed = ?T, Working = ?T, InTx = False, Sent = 0\<rparr>"
  have rows: "map (project (QCols q_claimable)) (table_rows plain_engine q_claimable [SInt 5] ?T) =
      [[SStr ''a'', SInt 7], [SStr ''b'', SInt 7]]"
    by (simp add: table_rows_def q_claimable_def row_matches_def row_limit_def project_def queued_run_def sample_run_def second_def)
  have "store_row plain_engine ''runs'' [(''status'', SStr ''processing'')] = Some [(''status'', SStr ''processing'')]"
    by (simp add: store_col_def schema_def fits_chars_def valid_utf8_ascii runes_ascii)
  then obtain T where T: "sql_exec plain_engine c_mark_processing [SStr ''a'', SInt 7] ?T = Some T"
    by (simp add: c_mark_processing_def)
  have claim: "\<exists>d'. my_ClaimRuns flaky_db 5 ?d = (Inl ''deadlock'', d')"
    using rows T by (simp add: my_ClaimRuns_def flaky_db_def scan_claim_def field_def)
  then obtain d' where claim: "my_ClaimRuns flaky_db 5 ?d = (Inl ''deadlock'', d')" ..
  have "\<nexists>d1. Commit flaky_db d1 = (Some ''deadlock'', d')" by (simp add: flaky_db_def)
  then have "\<not> InTx d' \<and> Committed d' = ?T"
    using mysql_failed_claim_changes_nothing [OF flaky.tx_server_axioms _ claim] by simp
  moreover have "fst (TxExecContext flaky_db c_mark_processing [SStr ''a'', SInt 7] (snd (BeginTx flaky_db ?d))) = None"
    using T by (simp add: flaky_db_def)
  ultimately show ?thesis using claim by (intro exI [of _ ?d] exI [of _ d']) simp
qed

text \<open>(C17) The worker drains a MySQL queue: when no new runs arrive, a runner over the MySQL store whose
  ticks have together room for all waiting runs keeps running, ends with no run waiting, has turned
  every run that was waiting into a completed or failed one, and has touched no other run.\<close>

theorem mysql_worker_drains_queue:
  assumes "binary_server db eng tabs up open_tx view" "up d" "runs_ok db eng (tabs d)"
    "is_permuter p" "\<forall>q \<in> set ps. is_permuter q"
    "RunnerStore r = Some (mysql_Store db)" "RunnerExecutor r = Some (Execute e rng)"
    "card (waiting (my_runs db (tabs d))) \<le> (1 + length ps) * claim_limit (MaxPerClaim r)"
  shows "\<exists>d' w'. Run r ctx p (map Tick ps) (d, w) = Waiting (d', w') \<and> waiting (my_runs db (tabs d')) = {} \<and>
    (\<forall>i x. my_runs db (tabs d) i = Some x \<longrightarrow>
       (if claimable x then \<exists>st \<in> {''completed'', ''failed''}. my_runs db (tabs d') i = Some (x\<lparr>Status := st\<rparr>)
        else my_runs db (tabs d') i = Some x))"
proof -
  have "run_queue (\<lambda>_. my_ClaimRuns db) (my_CompleteRun db) (my_FailRun db) (\<lambda>d. my_runs db (tabs d)) (\<lambda>d. up d \<and> runs_ok db eng (tabs d))"
    by (rule binary_server.queue_contract [OF assms(1)])
  from run_queue.Run_drains [OF this assms(6) _ _ _ assms(7,4,5) conjI [OF assms(2,3)] _ assms(8)]
  show ?thesis by (simp add: my_runs_def finite_waiting)
qed


theorem mysql_worker_drains_queue_witness:
  "\<exists>d' w'. Run (worker_main_runner (mysql_Store (table_db plain_engine)) rev) Background rev []
       (sample_db [queued_run ''a'' 10] [], ()) = Waiting (d', w') \<and>
     waiting (my_runs (table_db plain_engine) (Committed d')) = {}"
proof -
  let ?r = "worker_main_runner (mysql_Store (table_db plain_engine)) rev"
  have ok: "list_all storable_run [queued_run ''a'' 10]" "distinct (map RunID [queued_run ''a'' 10])"
    by (simp_all add: storable_queued)
  note runs = sample_runs [OF ok, of "[]"]
  have "waiting (my_runs (table_db plain_engine) (Committed (sample_db [queued_run ''a'' 10] []))) \<subseteq> {''a''}"
    unfolding runs(2) by (auto simp: waiting_def queued_run_def sample_run_def split: if_splits)
  then have "card (waiting (my_runs (table_db plain_engine) (Committed (sample_db [queued_run ''a'' 10] [])))) \<le> 1"
    by (metis card_mono card_1_singleton_iff finite.emptyI finite.insertI One_nat_def card.empty card_insert_disjoint empty_iff)
  then have c: "card (waiting (my_runs (table_db plain_engine) (Committed (sample_db [queued_run ''a'' 10] [])))) \<le>
      (1 + length ([] :: RunRecord permuter list)) * claim_limit (MaxPerClaim ?r)"
    by (simp add: worker_main_runner_def Let_def claim_limit_def)
  have r: "RunnerStore ?r = Some (mysql_Store (table_db plain_engine))"
    "RunnerExecutor ?r = Some (Execute \<lparr>ExecStore = Some (mysql_Store (table_db plain_engine)), ProductLimit = 0, OnExecute = None\<rparr> rev)"
    by (simp_all add: worker_main_runner_def Let_def)
  have "\<forall>q \<in> set ([] :: RunRecord permuter list). is_permuter q" by simp
  from mysql_worker_drains_queue [OF plain_server, OF TrueI runs(1) permuter_rev this r c, of Background "()"]
  show ?thesis by (simp only: list.map) blast
qed

section \<open>Executing runs\<close>

text \<open>(C23) The executor over MySQL hands over at most 2000 products: for a stored run of the tenant the
  hook is called once, with the run and the enqueued ones among the first 2000 of its products in
  the order of their keys, whatever larger product limit the executor asks for (100000 when
  unset); the others are never handed over, and the worker then completes the run.\<close>

theorem mysql_execute_first_2000:
  assumes "binary_server db eng tabs up open_tx view" "up d" "runs_ok db eng (tabs d)" "my_runs db (tabs d) i = Some r"
    "TenantID r = t" "i \<noteq> ''''" "t \<noteq> 0" "products_of eng (tabs d) i ps" "list_all storable_product ps"
    "limit \<le> 0 \<or> 2000 \<le> limit"
  shows "\<exists>Q. mset Q = mset ps \<and> sorted (map (Collate eng \<circ> ResProductKey) Q) \<and>
    Execute \<lparr>ExecStore = Some (mysql_Store db), ProductLimit = limit, OnExecute = Some f\<rparr> rng ctx i t (d, w) =
      (let qs = filter (\<lambda>p. ResDisposition p = ''enqueued'') (take 2000 Q) in (fst (f ctx r qs w), (d, snd (f ctx r qs w))))"
proof -
  let ?l = "if limit \<le> 0 then 100000 else limit"
  have run: "my_GetRun db d t i = Inr (Some r)"
    using binary_server.my_get_run [OF assms(1-3), of t i] assms(4,5) by simp
  obtain Q where Q: "mset Q = mset ps" "sorted (map (Collate eng \<circ> ResProductKey) Q)"
    "my_ListRunProducts db d i ?l = Inr (take (nat (if ?l \<le> 0 then 200 else min ?l 2000)) Q)"
    using binary_server.my_list_products [OF assms(1,2,8,9)] by blast
  have "nat (if ?l \<le> 0 then 200 else min ?l 2000) = 2000" using assms(10) by auto
  with Q(3) have "my_ListRunProducts db d i ?l = Inr (take 2000 Q)" by simp
  then show ?thesis
    using Q(1,2) run assms(6,7)
    by (intro exI [of _ Q]) (auto simp: Execute_def Let_def split: prod.split)
qed

theorem mysql_execute_first_2000_witness:
  "\<exists>Q. mset Q = mset [sample_result ''b'' ''enqueued'', sample_result ''a'' ''rejected''] \<and>
     Execute \<lparr>ExecStore = Some (mysql_Store (table_db plain_engine)), ProductLimit = 0,
        OnExecute = Some (\<lambda>ctx r ps w. (None, w @ [(RunID r, ps)]))\<rparr> rev Background ''r'' 7
        (sample_db [queued_run ''r'' 10] [(''r'', sample_result ''b'' ''enqueued''), (''r'', sample_result ''a'' ''rejected'')], []) =
      (None, (sample_db [queued_run ''r'' 10] [(''r'', sample_result ''b'' ''enqueued''), (''r'', sample_result ''a'' ''rejected'')],
        [(''r'', filter (\<lambda>p. ResDisposition p = ''enqueued'') (take 2000 Q))]))"
proof -
  let ?ps = "[sample_result ''b'' ''enqueued'', sample_result ''a'' ''rejected'']"
  have ok: "list_all storable_run [queued_run ''r'' 10]" "distinct (map RunID [queued_run ''r'' 10])"
    by (simp_all add: storable_queued)
  note runs = sample_runs [OF ok, of "map (Pair ''r'') ?ps"]
  have r: "my_runs (table_db plain_engine) (Committed (sample_db [queued_run ''r'' 10] (map (Pair ''r'') ?ps))) ''r'' = Some (queued_run ''r'' 10)"
    "TenantID (queued_run ''r'' 10) = 7" "RunID (queued_run ''r'' 10) = ''r''"
    unfolding runs(2) by (simp_all add: queued_run_def sample_run_def)
  have ps: "products_of plain_engine (Committed (sample_db [queued_run ''r'' 10] (map (Pair ''r'') ?ps))) ''r'' ?ps"
    by (simp add: products_of_def)
  have st: "list_all storable_product ?ps"
    by (simp add: sample_result_def storable_product_def hash_fits_def fits_ascii)
  have ne: "''r'' \<noteq> ''''" "(7 :: uint64) \<noteq> 0" "(0 :: int) \<le> 0 \<or> 2000 \<le> (0 :: int)" by simp_all
  from mysql_execute_first_2000 [OF plain_server, OF TrueI runs(1) r(1,2) ne(1,2) ps st ne(3), of "\<lambda>ctx r ps w. (None, w @ [(RunID r, ps)])" rev Background "[]"]
  obtain Q where "mset Q = mset ?ps"
    "Execute \<lparr>ExecStore = Some (mysql_Store (table_db plain_engine)), ProductLimit = 0,
        OnExecute = Some (\<lambda>ctx r ps w. (None, w @ [(RunID r, ps)]))\<rparr> rev Background ''r'' 7 (sample_db [queued_run ''r'' 10] (map (Pair ''r'') ?ps), []) =
      (None, (sample_db [queued_run ''r'' 10] (map (Pair ''r'') ?ps), [(''r'', filter (\<lambda>p. ResDisposition p = ''enqueued'') (take 2000 Q))]))"
    unfolding Let_def fst_conv snd_conv r(3) append_Nil by (elim exE conjE) (rule that, assumption+)
  then show ?thesis by (intro exI [of _ Q]) (simp only: list.map simp_thms)
qed


section \<open>Upserts\<close>

text \<open>(C15) An upsert over MySQL does what it does over the memory store, up to the rounding of times: for a
  tenant of the database, when the columns hold the results, their keys are distinct and the run
  identifier is new, a POST whose body parses answers 200 with the result of processing against
  the stored digests; afterwards the run reads back as recorded, its time rounded to the second,
  its products are the rows of the run, every valid product has its digest, and no other digest
  of the tenant and no cached response has changed.\<close>

theorem mysql_upsert_records_run:
  assumes "binary_server db eng tabs up open_tx view" "up d" "runs_ok db eng (tabs d)" "hashes_ok (tabs d)"
    "HandlerStore h = Some (mysql_Store db)" "Method r = ''POST''" "NewRunID rt = Inr i" "BodyErr r = None"
    "ParseProductsAllowUnknown (BodyBytes r) = Inr parsed" "ctx_TenantID (ReqCtx r) = t"
    "ProcessProducts (RngChannels rt) (Products parsed) (EnabledChannels h) (Some (my_GetProductHash db d t)) = Inr out"
    "list_all storable_product (OutProducts out)" "distinct (map ResProductKey (OutProducts out))"
    "storable_run (stored_run (run_record i t (Warnings parsed) out (NowRun rt)))"
    "tenant_known (tabs d) t" "my_runs db (tabs d) i = None" "products_of eng (tabs d) i []"
  shows "\<exists>d'. DebugUpsert_ServeHTTP h rt r d = (writeJSON 200 (PRun (run_response i (Warnings parsed) out)), d') \<and> up d' \<and>
    my_GetRun db d' t i = Inr (Some (stored_run (run_record i t (Warnings parsed) out (NowRun rt)))) \<and>
    products_of eng (tabs d') i (OutProducts out) \<and> tabs d' ''idempotency'' = tabs d ''idempotency'' \<and>
    (\<forall>k. my_GetProductHash db d' t k =
      (case map_of (rev (hash_writes (OutProducts out))) k of Some h \<Rightarrow> Inr (Some h) | None \<Rightarrow> my_GetProductHash db d t k))"
proof -
  let ?r = "run_record i t (Warnings parsed) out (NowRun rt)"
  obtain d1 where d1: "DebugUpsert_ServeHTTP h rt r d = finish_run (mysql_Store db) i t (Warnings parsed) out (NowRun rt) d1" "up d1"
    "hashes_ok (tabs d1)" "\<forall>x. x \<noteq> ''product_state'' \<longrightarrow> tabs d1 x = tabs d x"
    and get: "\<forall>k. my_GetProductHash db d1 t k =
      (case map_of (rev (hash_writes (OutProducts out))) k of Some h \<Rightarrow> Inr (Some h) | None \<Rightarrow> my_GetProductHash db d t k)"
    using binary_server.my_upsert_persist [OF assms(1), OF assms(2,4-12)] by blast
  have same: "runs_ok db eng (tabs d1)" "tenant_known (tabs d1) t" "my_runs db (tabs d1) i = None" "products_of eng (tabs d1) i []"
    using runs_cong [where db = db and T = "tabs d1" and T' = "tabs d"] products_of_cong [where T = "tabs d1" and T' = "tabs d"]
      tenant_known_cong [where T = "tabs d1" and T' = "tabs d"] d1(4) assms(3,15-17) by simp_all
  obtain d' where d': "finish_run (mysql_Store db) i t (Warnings parsed) out (NowRun rt) d1 =
      (writeJSON 200 (PRun (run_response i (Warnings parsed) out)), d')" "up d'" "runs_ok db eng (tabs d')"
    "my_runs db (tabs d') = (my_runs db (tabs d1))(i \<mapsto> stored_run ?r)" "products_of eng (tabs d') i (OutProducts out)"
    "\<forall>x. x \<notin> {''runs'', ''run_products''} \<longrightarrow> tabs d' x = tabs d1 x"
    using binary_server.my_finish_run [OF assms(1), OF d1(2) same assms(14,12,13)] by blast
  have "my_GetRun db d' t i = Inr (Some (stored_run ?r))"
    using binary_server.my_get_run [OF assms(1), OF d'(2,3), of t i] d'(4) by simp
  moreover have "my_GetProductHash db d' t k = my_GetProductHash db d1 t k" for k
  proof -
    obtain hs where hs: "tabs d1 ''product_state'' = map hash_row hs" "distinct (map fst hs)"
      using d1(3) by (auto simp: hashes_ok_def)
    have "tabs d' ''product_state'' = map hash_row hs" using d'(6) hs(1) by simp
    then show ?thesis
      using binary_server.my_get_hash [OF assms(1), OF d1(2) hs] binary_server.my_get_hash [OF assms(1), OF d'(2) _ hs(2)] by simp
  qed
  ultimately show ?thesis
    using d1(1,4) d'(1,2,5,6) get by (intro exI [of _ d']) simp
qed

definition my_handler :: "(table_state, string) DebugUpsertHandler" where
  "my_handler = \<lparr>HandlerStore = Some (mysql_Store (table_db plain_engine)), EnabledChannels = [''google'']\<rparr>"

abbreviation my_runtime :: Runtime where
  "my_runtime \<equiv> sample_runtime ''a'' (5 * second)"

lemma my_run_id: "NewRunID my_runtime = Inr ''run_61''"
  by (simp add: NewRunID_sample hex_pair hex_digit_def char_of_eq_iff)

text \<open>The output for the sample product, with the digest \<open>h\<close>, is one that the columns hold.\<close>

lemma hex_digest:
  assumes "length h = 64" "set h \<subseteq> set ''0123456789abcdef''"
  shows "fits_chars 64 h" "last h \<noteq> CHR '' ''" "h \<noteq> []"
proof -
  have "ascii h" using assms(2) by (auto simp: ascii_def)
  then show "fits_chars 64 h" using assms(1) by (simp add: fits_chars_def runes_ascii valid_utf8_ascii)
  show ne: "h \<noteq> []" using assms(1) by auto
  have "last h \<in> set ''0123456789abcdef''" using assms(2) last_in_set [OF ne] by blast
  then show "last h \<noteq> CHR '' ''" by auto
qed

lemmas storable_records = fits_ascii storable_run_def stored_run_def run_record_def run_status_def whole_second_def to_second_whole
  second_def sample_runtime_def RunStatusNoChangeDetected_def RunStatusCompleted_def RunStatusHasChanges_def

lemma enqueued_storable:
  assumes "length h = 64" "set h \<subseteq> set ''0123456789abcdef''"
  shows "list_all storable_product (OutProducts (enqueued_output h))"
    "t \<noteq> 0 \<Longrightarrow> storable_run (stored_run (run_record ''run_61'' t \<lparr>UnknownKeys = []\<rparr> (enqueued_output h) (NowRun my_runtime)))"
    "distinct (map ResProductKey (OutProducts (enqueued_output h)))"
    "map_of (rev (hash_writes (OutProducts (enqueued_output h)))) ''sku1'' = Some h"
  using hex_digest [OF assms]
  by (simp_all add: enqueued_output_def storable_product_def hash_fits_def storable_records persisted_def)

lemma product_processed_my:
  assumes "HashNormalized (sample_product ''sku1'') = Inr h"
  shows "ProcessProducts (RngChannels my_runtime) (Products \<lparr>Products = [sample_product ''sku1''], Warnings = w\<rparr>) (EnabledChannels my_handler)
      (Some (my_GetProductHash (table_db plain_engine) (sample_db [] []) t)) = Inr (enqueued_output h)"
proof -
  have "my_GetProductHash (table_db plain_engine) (sample_db [] []) t ''sku1'' = Inr None"
    using binary_server.my_get_hash [OF plain_server, OF TrueI, of "sample_db [] []" "[]" t "''sku1''"] by simp
  then show ?thesis using product_processed_out [OF assms sample_runtime_channels] by (simp add: my_handler_def)
qed

theorem mysql_upsert_records_run_witness:
  "\<exists>h d'. DebugUpsert_ServeHTTP my_handler my_runtime product_request (sample_db [] []) =
      (writeJSON 200 (PRun (run_response ''run_61'' \<lparr>UnknownKeys = []\<rparr> (enqueued_output h))), d') \<and> length h = 64 \<and>
    products_of plain_engine (Committed d') ''run_61'' (OutProducts (enqueued_output h)) \<and>
    my_GetProductHash (table_db plain_engine) d' 7 ''sku1'' = Inr (Some h)"
proof -
  obtain h where digest: "HashNormalized (sample_product ''sku1'') = Inr h" "length h = 64" "set h \<subseteq> set ''0123456789abcdef''"
    by (rule product_digest)
  note store = enqueued_storable [OF digest(2,3)]
  have handler: "HandlerStore my_handler = Some (mysql_Store (table_db plain_engine))" by (simp add: my_handler_def)
  have parse: "ParseProductsAllowUnknown (BodyBytes product_request) =
      Inr \<lparr>Products = [sample_product ''sku1''], Warnings = \<lparr>UnknownKeys = []\<rparr>\<rparr>" by (simp add: product_parse)
  have runs: "runs_ok (table_db plain_engine) plain_engine (Committed (sample_db [] []))"
    "my_runs (table_db plain_engine) (Committed (sample_db [] [])) ''run_61'' = None"
    using sample_runs [of "[]" "[]"] by simp_all
  have none: "products_of plain_engine (Committed (sample_db [] [])) ''run_61'' []" by (simp add: products_of_def)
  have rec: "storable_run (stored_run (run_record ''run_61'' 7
      (Warnings \<lparr>Products = [sample_product ''sku1''], Warnings = \<lparr>UnknownKeys = []\<rparr>\<rparr>) (enqueued_output h) (NowRun my_runtime)))"
    using store(2) [of 7] by simp
  from mysql_upsert_records_run [OF plain_server, OF TrueI runs(1) sample_hashes handler product_request_simps(1) my_run_id
      product_request_simps(2) parse product_request_simps(4) product_processed_my [OF digest(1)] store(1,3) rec sample_tenants(1) runs(2) none]
  obtain d' where d': "DebugUpsert_ServeHTTP my_handler my_runtime product_request (sample_db [] []) =
      (writeJSON 200 (PRun (run_response ''run_61'' \<lparr>UnknownKeys = []\<rparr> (enqueued_output h))), d')"
    "products_of plain_engine (Committed d') ''run_61'' (OutProducts (enqueued_output h))"
    and get: "\<forall>k. my_GetProductHash (table_db plain_engine) d' 7 k =
      (case map_of (rev (hash_writes (OutProducts (enqueued_output h)))) k of
         Some h \<Rightarrow> Inr (Some h) | None \<Rightarrow> my_GetProductHash (table_db plain_engine) (sample_db [] []) 7 k)"
    by (elim exE conjE) (rule that, simp_all)
  have "my_GetProductHash (table_db plain_engine) d' 7 ''sku1'' = Inr (Some h)" using get store(4) by simp
  with d' digest(2) show ?thesis by blast
qed

text \<open>(C25) Recording a run for a tenant that has no row in the tenants table fails after its digests are
  stored: the answer is 500 and no run is recorded, yet every valid product has its digest, so
  sending the products again finds them unchanged and their changes are never pushed.\<close>

theorem mysql_unknown_tenant_loses_changes:
  assumes "binary_server db eng tabs up open_tx view" "up d" "runs_ok db eng (tabs d)" "hashes_ok (tabs d)"
    "HandlerStore h = Some (mysql_Store db)" "Method r = ''POST''" "NewRunID rt = Inr i" "BodyErr r = None"
    "ParseProductsAllowUnknown (BodyBytes r) = Inr parsed" "ctx_TenantID (ReqCtx r) = t"
    "ProcessProducts (RngChannels rt) (Products parsed) (EnabledChannels h) (Some (my_GetProductHash db d t)) = Inr out"
    "list_all storable_product (OutProducts out)"
    "storable_run (stored_run (run_record i t (Warnings parsed) out (NowRun rt)))" "\<not> tenant_known (tabs d) t"
  shows "\<exists>e d'. DebugUpsert_ServeHTTP h rt r d = (writeJSON 500 (error_body_with ''persist_run_failed'' e ''run_id'' i), d') \<and> up d' \<and>
    tabs d' ''runs'' = tabs d ''runs'' \<and>
    (\<forall>k. my_GetProductHash db d' t k =
      (case map_of (rev (hash_writes (OutProducts out))) k of Some h \<Rightarrow> Inr (Some h) | None \<Rightarrow> my_GetProductHash db d t k))"
proof -
  let ?r = "run_record i t (Warnings parsed) out (NowRun rt)"
  obtain d1 where d1: "DebugUpsert_ServeHTTP h rt r d = finish_run (mysql_Store db) i t (Warnings parsed) out (NowRun rt) d1" "up d1"
    "hashes_ok (tabs d1)" "\<forall>x. x \<noteq> ''product_state'' \<longrightarrow> tabs d1 x = tabs d x"
    and get: "\<forall>k. my_GetProductHash db d1 t k =
      (case map_of (rev (hash_writes (OutProducts out))) k of Some h \<Rightarrow> Inr (Some h) | None \<Rightarrow> my_GetProductHash db d t k)"
    using binary_server.my_upsert_persist [OF assms(1), OF assms(2,4-12)] by blast
  have same: "runs_ok db eng (tabs d1)" "\<not> tenant_known (tabs d1) t"
    using runs_cong [where db = db and T = "tabs d1" and T' = "tabs d"]
      tenant_known_cong [where T = "tabs d1" and T' = "tabs d"] d1(4) assms(3,14) by simp_all
  obtain e d' where d': "my_InsertRun db ?r d1 = (Some e, d')" "up d'" "tabs d' = tabs d1"
    using binary_server.my_insert_run_refused [OF assms(1), OF d1(2) same(1) assms(13)] same(2) by auto
  obtain hs where hs: "tabs d1 ''product_state'' = map hash_row hs" "distinct (map fst hs)"
    using d1(3) by (auto simp: hashes_ok_def)
  have "my_GetProductHash db d' t k = my_GetProductHash db d1 t k" for k
    using binary_server.my_get_hash [OF assms(1), OF d1(2) hs] binary_server.my_get_hash [OF assms(1), OF d'(2) _ hs(2)] hs(1) d'(3) by simp
  then show ?thesis
    using d1(1,4) d' get by (intro exI [of _ e] exI [of _ d']) (simp add: finish_run_def)
qed

theorem mysql_unknown_tenant_loses_changes_witness:
  "\<exists>e d' h. DebugUpsert_ServeHTTP my_handler my_runtime (product_request\<lparr>ReqCtx := WithTenantID Background 3\<rparr>) (sample_db [] []) =
      (writeJSON 500 (error_body_with ''persist_run_failed'' e ''run_id'' ''run_61''), d') \<and> Committed d' ''runs'' = [] \<and>
    my_GetProductHash (table_db plain_engine) d' 3 ''sku1'' = Inr (Some h)"
proof -
  let ?r = "product_request\<lparr>ReqCtx := WithTenantID Background 3\<rparr>"
  obtain h where digest: "HashNormalized (sample_product ''sku1'') = Inr h" "length h = 64" "set h \<subseteq> set ''0123456789abcdef''"
    by (rule product_digest)
  note store = enqueued_storable [OF digest(2,3)]
  have handler: "HandlerStore my_handler = Some (mysql_Store (table_db plain_engine))" by (simp add: my_handler_def)
  have r: "Method ?r = ''POST''" "BodyErr ?r = None" "ctx_TenantID (ReqCtx ?r) = 3"
    "ParseProductsAllowUnknown (BodyBytes ?r) = Inr \<lparr>Products = [sample_product ''sku1''], Warnings = \<lparr>UnknownKeys = []\<rparr>\<rparr>"
    using product_parse by (simp_all add: ctx_TenantID_With)
  have runs: "runs_ok (table_db plain_engine) plain_engine (Committed (sample_db [] []))"
    using sample_runs [of "[]" "[]"] by simp
  have rec: "storable_run (stored_run (run_record ''run_61'' 3
      (Warnings \<lparr>Products = [sample_product ''sku1''], Warnings = \<lparr>UnknownKeys = []\<rparr>\<rparr>) (enqueued_output h) (NowRun my_runtime)))"
    using store(2) [of 3] by simp
  from mysql_unknown_tenant_loses_changes [OF plain_server, OF TrueI runs sample_hashes handler r(1) my_run_id r(2,4,3)
      product_processed_my [OF digest(1)] store(1) rec sample_tenants(2)]
  obtain e d' where d': "DebugUpsert_ServeHTTP my_handler my_runtime ?r (sample_db [] []) =
      (writeJSON 500 (error_body_with ''persist_run_failed'' e ''run_id'' ''run_61''), d')" "Committed d' ''runs'' = []"
    and get: "\<forall>k. my_GetProductHash (table_db plain_engine) d' 3 k =
      (case map_of (rev (hash_writes (OutProducts (enqueued_output h)))) k of
         Some h \<Rightarrow> Inr (Some h) | None \<Rightarrow> my_GetProductHash (table_db plain_engine) (sample_db [] []) 3 k)"
    by (elim exE conjE) (rule that, simp_all)
  have "my_GetProductHash (table_db plain_engine) d' 3 ''sku1'' = Inr (Some h)" using get store(4) by simp
  with d' show ?thesis by blast
qed

text \<open>(C24) Keys that the database does not tell apart: when two results of a batch have keys that are equal
  in the collation of the server (equal, both empty because the products had none, or differing
  only in case where the collation ignores it), the run is recorded but its products are not all,
  and both upsert endpoints answer 500; the run stays in the table for the workers.\<close>

theorem mysql_colliding_keys_fail:
  assumes "sql_server db eng tabs up open_tx view" "up d"
    "\<not> distinct (map (Collate eng \<circ> ResProductKey) (OutProducts out))"
    "my_InsertRun db (run_record i t w out now) d = (None, d1)"
  shows "\<exists>e d'. finish_run (mysql_Store db) i t w out now d =
      (writeJSON 500 (error_body_with ''persist_run_products_failed'' e ''run_id'' i), d') \<and> tabs d' ''runs'' = tabs d1 ''runs''"
proof -
  have "up d1"
    using sql_server.exec_law [OF assms(1,2) commands_ok(2), of "run_args (run_record i t w out now)"] assms(4)
    by (auto simp: my_InsertRun_def split: option.splits)
  moreover from this obtain e d' where d': "my_InsertRunProducts db i (OutProducts out) d1 = (Some e, d')"
    using sql_server.colliding_products_refused [OF assms(1), of d1 "OutProducts out" i] assms(3) by auto
  ultimately have "tabs d' ''runs'' = tabs d1 ''runs''"
    using sql_server.insert_products_frame [OF assms(1), of d1 i "OutProducts out" "Some e" d' "''runs''"] by simp
  then show ?thesis using assms(4) d' by (intro exI [of _ e] exI [of _ d']) (simp add: finish_run_def)
qed

text \<open>A collation that ignores the case of letters.\<close>

definition folding_engine :: engine where
  "folding_engine = \<lparr>Collate = ToLower, JsonText = render\<rparr>"

definition colliding_output :: ProcessOutput where
  "colliding_output =
     \<lparr>Summary = \<lparr>Received = 2, Valid = 2, Rejected = 0, Unchanged = 0, Enqueued = 2\<rparr>,
      OutProducts = [sample_result ''SKU-a'' ''enqueued'', sample_result ''sku-A'' ''enqueued'']\<rparr>"

theorem mysql_colliding_keys_fail_witness:
  "\<exists>e d'. finish_run (mysql_Store (table_db folding_engine)) ''run_61'' 7 \<lparr>UnknownKeys = []\<rparr> colliding_output
        (NowRun my_runtime) (sample_db [] []) =
      (writeJSON 500 (error_body_with ''persist_run_products_failed'' e ''run_id'' ''run_61''), d')"
proof -
  let ?r = "run_record ''run_61'' 7 \<lparr>UnknownKeys = []\<rparr> colliding_output (NowRun my_runtime)" and ?d = "sample_db [] []"
  have server: "sql_server (table_db folding_engine) folding_engine Committed (\<lambda>_. True) (\<lambda>_. True) Working"
    by (rule table_server) (simp add: folding_engine_def)
  have lower: "char_of (97 :: nat) = CHR ''a''" "char_of (107 :: nat) = CHR ''k''" "char_of (115 :: nat) = CHR ''s''"
    "char_of (117 :: nat) = CHR ''u''" by (simp_all add: char_of_eq_iff)
  have keys: "\<not> distinct (map (Collate folding_engine \<circ> ResProductKey) (OutProducts colliding_output))"
    by (simp add: colliding_output_def folding_engine_def sample_result_def ToLower_def char_to_lower_def lower)
  have st: "storable_run (stored_run ?r)"
    by (simp add: colliding_output_def storable_records)
  have "refers folding_engine (Committed ?d) ''runs'' (run_row folding_engine (stored_run ?r))"
    using sample_tenants(1) [of "[]" "[]"] by (simp add: refers_run)
  from sql_insert(1) [OF store_run_row [OF st] this, of "[]"]
  have "sql_exec folding_engine c_insert_run (run_args ?r) (Committed ?d) =
      Some ((Committed ?d)(''runs'' := Committed ?d ''runs'' @ [run_row folding_engine (stored_run ?r)]))"
    by (simp add: c_insert_run_def del: sql_exec.simps)
  then have run: "my_InsertRun (table_db folding_engine) ?r ?d =
      (None, ?d\<lparr>Committed := (Committed ?d)(''runs'' := Committed ?d ''runs'' @ [run_row folding_engine (stored_run ?r)])\<rparr>)"
    by (simp add: my_InsertRun_def table_db_def del: sql_exec.simps)
  show ?thesis using mysql_colliding_keys_fail [OF server, OF TrueI keys run] by blast
qed

section \<open>Cached responses\<close>

text \<open>(C18) The idempotency cache over MySQL: a response whose body is a JSON document is stored for a tenant
  of the database, and until its expiry, rounded to the second, the same tenant, endpoint and key
  read back its status and the same document in the server's spelling; after it they read
  nothing, and every other entry reads as before.\<close>

theorem mysql_cached_response_roundtrip:
  assumes "binary_server db eng tabs up open_tx view" "up d" "caches_ok eng (tabs d)" "tenant_known (tabs d) t"
    "fits_chars 255 ep" "hash_fits '''' k" "StatusCode rec < 2 ^ 31" "unmarshal_doc (BodyJSON rec) = Inr j"
    "valid_utf8 (BodyJSON rec)" "timestamp_ok (IdemCreatedAt rec)" "timestamp_ok (ExpiresAt rec)"
  shows "\<exists>d'. my_PutIdempotency db t ep k rec d = (None, d') \<and> up d' \<and> caches_ok eng (tabs d') \<and>
    (\<forall>now t' ep' k'. my_GetIdempotency db now d' t' ep' k' =
      (if t' = t \<and> ep' = ep \<and> k' = k
       then Inr (if to_second (ExpiresAt rec) < now then None
                 else Some \<lparr>StatusCode = StatusCode rec, BodyJSON = JsonText eng j, ExpiresAt = to_second (ExpiresAt rec),
                            IdemCreatedAt = to_second (IdemCreatedAt rec)\<rparr>)
       else my_GetIdempotency db now d t' ep' k'))"
proof -
  obtain cs where cs: "tabs d ''idempotency'' = map (idem_row eng) cs" "distinct (map fst cs)" "list_all (\<lambda>e. StatusCode (snd e) < 2 ^ 31) cs"
    using assms(3) by (auto simp: caches_ok_def)
  let ?cs = "AList.update (t, ep, k) (as_stored j rec) cs"
  obtain d' where d': "my_PutIdempotency db t ep k rec d = (None, d')" "up d'"
    "tabs d' = (tabs d)(''idempotency'' := map (idem_row eng) ?cs)"
    using binary_server.my_put_idem [OF assms(1), OF assms(2) cs(1,2) assms(4-11)] by blast
  have cs': "tabs d' ''idempotency'' = map (idem_row eng) ?cs" "distinct (map fst ?cs)" "list_all (\<lambda>e. StatusCode (snd e) < 2 ^ 31) ?cs"
    using d'(3) distinct_update [OF cs(2)] cs(3) assms(7) by (simp_all add: list_all_put as_stored_def)
  have "my_GetIdempotency db now d' t' ep' k' =
      (if t' = t \<and> ep' = ep \<and> k' = k
       then Inr (if to_second (ExpiresAt rec) < now then None
                 else Some \<lparr>StatusCode = StatusCode rec, BodyJSON = JsonText eng j, ExpiresAt = to_second (ExpiresAt rec),
                            IdemCreatedAt = to_second (IdemCreatedAt rec)\<rparr>)
       else my_GetIdempotency db now d t' ep' k')" for now t' ep' k'
    using binary_server.my_get_idem [OF assms(1), OF d'(2) cs', of now t' ep' k']
      binary_server.my_get_idem [OF assms(1), OF assms(2) cs, of now t' ep' k']
    by (simp add: update_conv' as_stored_def as_read_def)
  moreover have "caches_ok eng (tabs d')" using cs' by (auto simp: caches_ok_def)
  ultimately show ?thesis using d'(1,2) by blast
qed

theorem mysql_cached_response_roundtrip_witness:
  "\<exists>d'. my_PutIdempotency (table_db plain_engine) 7 ''/p'' ''k''
      \<lparr>StatusCode = 200, BodyJSON = ''[ 1 ]'', ExpiresAt = 90 * second, IdemCreatedAt = 5 * second\<rparr> (sample_db [] []) = (None, d') \<and>
    my_GetIdempotency (table_db plain_engine) (60 * second) d' 7 ''/p'' ''k'' =
      Inr (Some \<lparr>StatusCode = 200, BodyJSON = ''[1]'', ExpiresAt = 90 * second, IdemCreatedAt = 5 * second\<rparr>)"
proof -
  let ?rec = "\<lparr>StatusCode = 200, BodyJSON = ''[ 1 ]'', ExpiresAt = 90 * second, IdemCreatedAt = 5 * second\<rparr>"
  have c: "caches_ok plain_engine (Committed (sample_db [] []))" by (simp add: caches_ok_def)
  have f: "fits_chars 255 ''/p''" "hash_fits '''' ''k''" by (simp_all add: hash_fits_def fits_ascii)
  have s: "StatusCode ?rec < 2 ^ 31" "valid_utf8 (BodyJSON ?rec)" "timestamp_ok (IdemCreatedAt ?rec)" "timestamp_ok (ExpiresAt ?rec)"
    by (simp_all add: valid_utf8_ascii timestamp_ok_def to_second_def second_def)
  have doc: "unmarshal_doc (BodyJSON ?rec) = Inr (JArr [JNum ''1''])" by (simp add: json_eval)
  have "JsonText plain_engine (JArr [JNum ''1'']) = ''[1]''" by (simp add: plain_engine_def)
  moreover obtain d' where "my_PutIdempotency (table_db plain_engine) 7 ''/p'' ''k'' ?rec (sample_db [] []) = (None, d')"
    "\<forall>now t' ep' k'. my_GetIdempotency (table_db plain_engine) now d' t' ep' k' =
      (if t' = 7 \<and> ep' = ''/p'' \<and> k' = ''k''
       then Inr (if to_second (ExpiresAt ?rec) < now then None
                 else Some \<lparr>StatusCode = StatusCode ?rec, BodyJSON = JsonText plain_engine (JArr [JNum ''1'']), ExpiresAt = to_second (ExpiresAt ?rec),
                            IdemCreatedAt = to_second (IdemCreatedAt ?rec)\<rparr>)
       else my_GetIdempotency (table_db plain_engine) now (sample_db [] []) t' ep' k')"
    using mysql_cached_response_roundtrip [OF plain_server, OF TrueI c sample_tenants(1) f s(1) doc s(2-4)]
    by (elim exE conjE) (rule that, assumption+)
  ultimately show ?thesis by (auto simp: to_second_def second_def)
qed

end
