(* ===== verification/Startup.thy ===== *)
theory Startup
  imports Migrate Mysql_Service Server
begin

text \<open>
  How the two processes start: \<open>internal/config\<close>, \<open>internal/state/factory.go\<close>, \<open>internal/db\<close> and the
  beginning of \<open>cmd/api/main.go\<close> and \<open>cmd/worker/main.go\<close>. The environment, the SQL driver, the PEM
  parser and the file system are parameters. \<open>os.Exit(1)\<close> is an outcome, with the message that was
  logged; other log lines, the listener and the signals that end a process are left out. The store that \<open>NewStore\<close> returns is the memory store with its initial state, or the MySQL
  store over an open database.
\<close>

section \<open>Configuration\<close>

record Config =
  CfgEnv :: string
  CfgPort :: string
  StateBackend :: string
  MySQLDSN :: string
  RunMigrations :: bool

definition getenv :: "(string \<Rightarrow> string) \<Rightarrow> string \<Rightarrow> string \<Rightarrow> string" where
  "getenv os key fallback = (let v = os key in if v = '''' then fallback else v)"

definition Load :: "(string \<Rightarrow> string) \<Rightarrow> Config" where
  "Load os =
     \<lparr>CfgEnv = getenv os ''ENV'' ''dev'', CfgPort = getenv os ''PORT'' ''8080'',
      StateBackend = getenv os ''STATE_BACKEND'' ''memory'', MySQLDSN = getenv os ''DB_DSN'' '''',
      RunMigrations = (getenv os ''RUN_MIGRATIONS'' ''false'' = ''true'')\<rparr>"

section \<open>Opening a database\<close>

record 'd driver =
  SqlOpen :: "string \<Rightarrow> ('d DB \<times> 'd) res"
  SetPool :: "nat \<Rightarrow> nat \<Rightarrow> int \<Rightarrow> 'd \<Rightarrow> 'd"
  PingContext :: "'d \<Rightarrow> go_error option"

definition db_Open :: "'d driver \<Rightarrow> string \<Rightarrow> ('d DB \<times> 'd) res" where
  "db_Open drv dsn = bind_res (SqlOpen drv dsn) (\<lambda>(db, d). Inr (db, SetPool drv 20 20 (5 * 60 * second) d))"

section \<open>The store factory\<close>

text \<open>A database that does not answer the ping is closed and dropped.\<close>

record FactoryConfig =
  FactoryBackend :: string
  FactoryDSN :: string

datatype ('d, 'b) FactoryResult = FromMemory "'b MemoryStore" | FromMySQL "'d DB" 'd

definition NewStore :: "'d driver \<Rightarrow> FactoryConfig \<Rightarrow> ('d, 'b) FactoryResult res" where
  "NewStore drv cfg =
     (let backend = ToLower (TrimSpace (FactoryBackend cfg)); backend = (if backend = '''' then ''memory'' else backend) in
      if backend = ''memory'' then Inr (FromMemory NewMemoryStore)
      else if backend = ''mysql'' then
        (if TrimSpace (FactoryDSN cfg) = '''' then Inl ''DB_DSN is required when STATE_BACKEND=mysql''
         else bind_res (db_Open drv (FactoryDSN cfg)) (\<lambda>(db, d).
           case PingContext drv d of Some err \<Rightarrow> Inl err | None \<Rightarrow> Inr (FromMySQL db d)))
      else Inl ''unknown STATE_BACKEND (use memory or mysql)'')"

section \<open>The API process\<close>

text \<open>Handlers cache response bodies; the MySQL store keeps their bytes.\<close>

definition bytes_Store :: "('s, string) Store \<Rightarrow> ('s, body) Store" where
  "bytes_Store st =
     \<lparr>GetProductHash = GetProductHash st, UpsertProductHash = UpsertProductHash st,
      InsertRun = InsertRun st, InsertRunProducts = InsertRunProducts st,
      GetIdempotency = (\<lambda>now s t e k. bind_res (GetIdempotency st now s t e k) (\<lambda>found.
        Inr (map_option (\<lambda>rec. \<lparr>StatusCode = StatusCode rec, BodyJSON = TextBody (BodyJSON rec), ExpiresAt = ExpiresAt rec,
          IdemCreatedAt = IdemCreatedAt rec\<rparr>) found))),
      PutIdempotency = (\<lambda>t e k rec. PutIdempotency st t e k \<lparr>StatusCode = StatusCode rec, BodyJSON = body_bytes (BodyJSON rec),
          ExpiresAt = ExpiresAt rec, IdemCreatedAt = IdemCreatedAt rec\<rparr>),
      ListRuns = ListRuns st, GetRun = GetRun st, ListRunProducts = ListRunProducts st,
      ClaimRuns = ClaimRuns st, CompleteRun = CompleteRun st, FailRun = FailRun st\<rparr>"

text \<open>What surrounds a process.\<close>

record ('d, 'k) world =
  Getenv :: "string \<Rightarrow> string"
  Driver :: "'d driver"
  ParsePEM :: "string \<Rightarrow> 'k res"
  Files :: fs
  Script :: "'d script"
  HealthPing :: "Runtime \<Rightarrow> go_error option"
  WorldGunzip :: gunzip
  WorldJwt :: "'k jwt_parser"
  WorldMux :: "Request \<Rightarrow> Response"

datatype ('d, 'k) api_process =
  Exited string
| ServingMemory string "(body MemoryStore, 'k) ApiConfig" "body MemoryStore"
| ServingMySQL string "('d, 'k) ApiConfig" 'd

definition load_config :: "('d, 'k) world \<Rightarrow> Config" where
  "load_config w = (let cfg = Load (Getenv w) in if StateBackend cfg = '''' then cfg\<lparr>StateBackend := ''memory''\<rparr> else cfg)"

definition load_key :: "('d, 'k) world \<Rightarrow> Config \<Rightarrow> 'k option res" where
  "load_key w cfg =
     (case LoadRSAPublicKeyFromEnv (ParsePEM w) (Getenv w) ''JWT_PUBLIC_KEY_PEM'' of
        Inl err \<Rightarrow> if CfgEnv cfg \<noteq> ''dev'' then Inl (''JWT public key load failed: '' @ err) else Inr None
      | Inr pub \<Rightarrow> Inr (Some pub))"

definition c_bootstrap_tenant :: command where
  "c_bootstrap_tenant =
     Insert ''tenants'' [(''tenant_id'', Lit (SInt 1)), (''name'', Lit (SStr ''debug''))] [''name'']"

text \<open>Migrations and the tenant of the debug endpoints, before a MySQL store is served.\<close>

definition prepare_db :: "('d, 'k) world \<Rightarrow> Config \<Rightarrow> 'd DB \<Rightarrow> 'd \<Rightarrow> go_error option \<times> 'd" where
  "prepare_db w cfg db d =
     (case (if RunMigrations cfg then ApplyDir (Files w) (Script w) db ''migrations'' d else (None, d)) of
        (Some err, d) \<Rightarrow> (Some (''migrations failed: '' @ err), d)
      | (None, d) \<Rightarrow>
          if CfgEnv cfg = ''dev'' then
            (case ExecContext db c_bootstrap_tenant [] d of
               (Some err, d) \<Rightarrow> (Some (''bootstrap tenant failed: '' @ err), d)
             | (None, d) \<Rightarrow> (None, d))
          else (None, d))"

definition api_config :: "('d, 'k) world \<Rightarrow> Config \<Rightarrow> 'k option \<Rightarrow> (Runtime \<Rightarrow> go_error option option) \<Rightarrow> ('s, body) Store \<Rightarrow> ('s, 'k) ApiConfig" where
  "api_config w cfg pub ping store =
     \<lparr>Env = CfgEnv cfg, Backend = StateBackend cfg, Ping = ping, PublicKey = pub, ApiStore = store,
      Gunzip = WorldGunzip w, Jwt = WorldJwt w, MuxOther = WorldMux w\<rparr>"

definition api_main :: "('d, 'k) world \<Rightarrow> ('d, 'k) api_process" where
  "api_main w =
     (let cfg = load_config w in
      case NewStore (Driver w) \<lparr>FactoryBackend = StateBackend cfg, FactoryDSN = MySQLDSN cfg\<rparr> of
        Inl err \<Rightarrow> Exited (''state store init failed: '' @ err)
      | Inr res \<Rightarrow>
          (case load_key w cfg of
             Inl msg \<Rightarrow> Exited msg
           | Inr pub \<Rightarrow>
               (case res of
                  FromMemory s \<Rightarrow> ServingMemory ('':'' @ CfgPort cfg) (api_config w cfg pub (\<lambda>_. None) memory_Store) s
                | FromMySQL db d \<Rightarrow>
                    (case prepare_db w cfg db d of
                       (Some msg, d) \<Rightarrow> Exited msg
                     | (None, d) \<Rightarrow>
                         ServingMySQL ('':'' @ CfgPort cfg)
                           (api_config w cfg pub (\<lambda>rt. Some (HealthPing w rt)) (bytes_Store (mysql_Store db))) d))))"

section \<open>The worker process\<close>

datatype ('d, 'w) worker_process =
  WorkerExited string
| WorkingMemory "(string MemoryStore, 'w, string) Runner" "string MemoryStore"
| WorkingMySQL "('d, 'w, string) Runner" 'd

definition worker_main :: "('d, 'k) world \<Rightarrow> ProductProcessResult permuter \<Rightarrow> ('d, 'w) worker_process" where
  "worker_main w rng =
     (let cfg = load_config w in
      case NewStore (Driver w) \<lparr>FactoryBackend = StateBackend cfg, FactoryDSN = MySQLDSN cfg\<rparr> of
        Inl err \<Rightarrow> WorkerExited (''state store init failed: '' @ err)
      | Inr (FromMemory s) \<Rightarrow> WorkingMemory (worker_main_runner memory_Store rng) s
      | Inr (FromMySQL db d) \<Rightarrow> WorkingMySQL (worker_main_runner (mysql_Store db) rng) d)"

text \<open>How a process ends when its loop returns: \<open>Some\<close> is the message with which it exits. A signal cancels the
  context of the worker, whose loop then returns \<open>context.Canceled\<close>; \<open>Shutdown\<close> makes the listener return
  \<open>http.ErrServerClosed\<close>.\<close>

definition Canceled :: go_error where
  "Canceled = ''context canceled''"

definition ErrServerClosed :: go_error where
  "ErrServerClosed = ''http: Server closed''"

definition worker_stopped :: "'a run_outcome \<Rightarrow> string option" where
  "worker_stopped res =
     (case res of Returned (Some err) _ \<Rightarrow> if err \<noteq> Canceled then Some (''worker stopped: '' @ err) else None | _ \<Rightarrow> None)"

definition server_stopped :: "go_error option \<Rightarrow> string option" where
  "server_stopped res = (case res of Some err \<Rightarrow> if err \<noteq> ErrServerClosed then Some (''server error: '' @ err) else None | None \<Rightarrow> None)"

section \<open>Authentication of a started server\<close>

text \<open>A request is authorized when its bearer token is accepted under the key of the environment.\<close>

definition bearer_token :: "Request \<Rightarrow> string" where
  "bearer_token r =
     (let authz = TrimSpace (HeaderGet r ''Authorization'') in
      if HasPrefix authz ''Bearer '' then TrimSpace (TrimPrefix authz ''Bearer '') else '''')"

definition token_accepted :: "'k jwt_parser \<Rightarrow> 'k option \<Rightarrow> Request \<Rightarrow> bool" where
  "token_accepted jwt pub r \<longleftrightarrow>
     bearer_token r \<noteq> '''' \<and> (case ParseAndValidateRS256 jwt (bearer_token r) pub of Inl _ \<Rightarrow> False | Inr _ \<Rightarrow> True)"

definition authorized :: "('d, 'k) world \<Rightarrow> Request \<Rightarrow> bool" where
  "authorized w r \<longleftrightarrow>
     (case LoadRSAPublicKeyFromEnv (ParsePEM w) (Getenv w) ''JWT_PUBLIC_KEY_PEM'' of
        Inl _ \<Rightarrow> False | Inr pub \<Rightarrow> token_accepted (WorldJwt w) (Some pub) r)"

definition guarded :: "('d, 'k) world \<Rightarrow> ('s, 'k) ApiConfig \<Rightarrow> bool" where
  "guarded w cfg \<longleftrightarrow>
     (\<forall>rt r s. if authorized w r then api_root cfg rt r s = api_mux cfg rt (with_tenant r DefaultTenantID) s
        else (\<exists>message. api_root cfg rt r s = (unauthorized message, s)))"

lemma api_root_outside_dev:
  assumes "\<not> is_dev (Env cfg)"
  shows "if token_accepted (Jwt cfg) (PublicKey cfg) r
    then api_root cfg rt r s = api_mux cfg rt (with_tenant r DefaultTenantID) s
    else \<exists>message. api_root cfg rt r s = (unauthorized message, s)"
  using assms
  by (auto simp: token_accepted_def bearer_token_def api_root_def Auth_ServeHTTP_def Tenant_ServeHTTP_def Let_def split: sum.splits)

lemma is_dev_dev: "is_dev ''dev''"
  by (simp add: is_dev_def TrimSpace_id EqualFold_ascii)

lemma load_config_simps [simp]:
  "CfgEnv (load_config w) = getenv (Getenv w) ''ENV'' ''dev''"
  "CfgPort (load_config w) = getenv (Getenv w) ''PORT'' ''8080''"
  "StateBackend (load_config w) = getenv (Getenv w) ''STATE_BACKEND'' ''memory''"
  "MySQLDSN (load_config w) = getenv (Getenv w) ''DB_DSN'' ''''"
  "RunMigrations (load_config w) \<longleftrightarrow> Getenv w ''RUN_MIGRATIONS'' = ''true''"
  by (simp_all add: load_config_def Load_def getenv_def Let_def)

text \<open>The key that a server outside \<open>dev\<close> was started with, and the configuration of its routes.\<close>

lemma started_key:
  assumes "\<And>message. api_main w \<noteq> Exited message" "CfgEnv (load_config w) \<noteq> ''dev''"
  obtains pub where "LoadRSAPublicKeyFromEnv (ParsePEM w) (Getenv w) ''JWT_PUBLIC_KEY_PEM'' = Inr pub"
    "load_key w (load_config w) = Inr (Some pub)"
proof (cases "load_key w (load_config w)")
  case (Inl err)
  then have "\<exists>message. api_main w = Exited message" by (simp add: api_main_def Let_def split: sum.split)
  then show thesis using assms(1) by blast
next
  case (Inr p)
  then show thesis using that assms(2) by (auto simp: load_key_def split: sum.splits if_splits)
qed

lemma guarded_api_config:
  assumes "\<not> is_dev (CfgEnv c)" "LoadRSAPublicKeyFromEnv (ParsePEM w) (Getenv w) ''JWT_PUBLIC_KEY_PEM'' = Inr pub"
  shows "guarded w (api_config w c (Some pub) ping store)"
proof -
  have "Env (api_config w c (Some pub) ping store) = CfgEnv c" "Jwt (api_config w c (Some pub) ping store) = WorldJwt w"
    "PublicKey (api_config w c (Some pub) ping store) = Some pub" by (simp_all add: api_config_def)
  then have "authorized w r \<longleftrightarrow> token_accepted (Jwt (api_config w c (Some pub) ping store)) (PublicKey (api_config w c (Some pub) ping store)) r" for r
    using assms(2) by (simp add: authorized_def)
  with api_root_outside_dev [of "api_config w c (Some pub) ping store"] assms(1) show ?thesis
    unfolding guarded_def by (simp only: \<open>Env _ = _\<close>) blast
qed

lemma api_main_guarded:
  assumes "\<not> is_dev (CfgEnv (load_config w))"
  shows "case api_main w of Exited message \<Rightarrow> True | ServingMemory addr cfg s \<Rightarrow> guarded w cfg | ServingMySQL addr cfg d \<Rightarrow> guarded w cfg"
proof (cases "\<exists>message. api_main w = Exited message")
  case False
  have "CfgEnv (load_config w) \<noteq> ''dev''" using assms is_dev_dev by metis
  with False obtain pub where pub: "LoadRSAPublicKeyFromEnv (ParsePEM w) (Getenv w) ''JWT_PUBLIC_KEY_PEM'' = Inr pub"
    "load_key w (load_config w) = Inr (Some pub)" using started_key by blast
  show ?thesis
    unfolding api_main_def Let_def pub(2)
    by (simp add: guarded_api_config [OF assms pub(1)] del: load_config_simps split: sum.split FactoryResult.split prod.split option.split)
qed auto

section \<open>The tenant of the debug endpoints\<close>

lemma update_first_hit: "list_ex p xs \<Longrightarrow> \<exists>x \<in> set xs. p x \<and> f x \<in> set (update_first p f xs)"
  by (induction xs) auto

lemma set_name: "col ''tenant_id'' (set_cols [(''name'', v)] r) = col ''tenant_id'' r" "col ''name'' (set_cols [(''name'', v)] r) = v"
  by (simp_all add: set_cols_def col_def update_conv)

definition debug_row :: row where
  "debug_row = [(''tenant_id'', SInt 1), (''name'', SStr ''debug'')]"

definition named_debug :: "engine \<Rightarrow> row \<Rightarrow> bool" where
  "named_debug eng r \<longleftrightarrow> sql_eq eng (SStr ''debug'') (col ''name'' r)"

definition debug_tenant_ready :: "engine \<Rightarrow> tables \<Rightarrow> bool" where
  "debug_tenant_ready eng T \<longleftrightarrow>
     tenant_known T 1 \<or> (\<exists>r \<in> set (T ''tenants''). col ''tenant_id'' r \<noteq> SInt 1 \<and> named_debug eng r)"

lemma debug_clash:
  assumes "list_ex (same_key_row eng ''tenants'' debug_row) rows"
  shows "\<exists>r \<in> set (update_first (clashing eng ''tenants'' debug_row rows) (set_cols [(''name'', SStr ''debug'')]) rows). named_debug eng r"
proof -
  have "list_ex (clashing eng ''tenants'' debug_row rows) rows"
    using assms(1) by (auto simp: list_ex_iff same_key_row_def clashing_def unique_keys_def primary_key_def split: option.split)
  from update_first_hit [OF this, of "set_cols [(''name'', SStr ''debug'')]"] show ?thesis
    by (force simp: named_debug_def set_name)
qed

lemma bootstrap_exec:
  assumes "sql_exec eng c_bootstrap_tenant [] T = Some T'"
  shows "debug_tenant_ready eng T'"
proof -
  have fits: "fits_chars 255 ''debug''" by (simp add: fits_chars_def valid_utf8_ascii runes_ascii)
  have stored: "store_row eng ''tenants'' [(''tenant_id'', SInt 1), (''name'', SStr ''debug'')] = Some debug_row"
    using fits by (simp add: store_col_def schema_def debug_row_def)
  have refs: "refers eng T ''tenants'' debug_row" by (simp add: refers_def foreign_keys_def)
  show ?thesis
  proof (cases "list_ex (same_key_row eng ''tenants'' debug_row) (T ''tenants'')")
    case False
    then have "debug_row \<in> set (T' ''tenants'')"
      using assms stored refs by (auto simp: c_bootstrap_tenant_def)
    then show ?thesis by (auto simp: debug_tenant_ready_def tenant_known_def list_ex_iff debug_row_def col_def intro!: bexI)
  next
    case True
    then have "T' ''tenants'' = update_first (clashing eng ''tenants'' debug_row (T ''tenants'')) (set_cols [(''name'', SStr ''debug'')]) (T ''tenants'')"
      using assms stored refs by (auto simp: c_bootstrap_tenant_def debug_row_def col_def Let_def split: if_splits)
    with debug_clash [OF True] show ?thesis
      by (auto simp: debug_tenant_ready_def tenant_known_def list_ex_iff)
  qed
qed


lemma bootstrap_ok: "command_ok c_bootstrap_tenant" "command_ok c_mark_applied"
  by (simp_all add: c_bootstrap_tenant_def c_mark_applied_def known_cols_def schema_def foreign_keys_def)

context sql_server
begin

lemma exec_up:
  assumes "up d" "command_ok c" "ExecContext db c args d = (err, d')"
  shows "up d'"
  using exec_law [OF assms(1,2), of args] assms(3) by (auto split: option.splits)

lemma apply_files_up:
  assumes "\<forall>s d. up d \<longrightarrow> up (snd (script s d))"
  shows "up d \<Longrightarrow> up (snd (apply_files fs script db paths d))"
proof (induction paths arbitrary: d)
  case (Cons p ps)
  have run: "up d2" if "up d1" "script s d1 = (e, d2)" for s e d1 d2
    using assms that by (metis snd_conv)
  have mark: "up d2" if "up d1" "markApplied db n d1 = (e, d2)" for n e d1 d2
    using exec_up [OF that(1) bootstrap_ok(2)] that(2) by (simp add: markApplied_def)
  show ?case
  proof (cases "isApplied db (Base p) d")
    case (Inr b)
    have "up (snd (apply_files fs script db (p # ps) d))" if "ReadFile fs p = Inr content" "\<not> b" for content
    proof (cases "script content d")
      case s: (Pair e d1)
      show ?thesis
      proof (cases "markApplied db (Base p) d1")
        case (Pair e' d2)
        then show ?thesis
          using Inr that s run [OF Cons.prems s] mark [OF _ Pair] Cons.IH [of d2] by (cases e; cases e') (simp_all add: Let_def)
      qed
    qed
    then show ?thesis using Inr Cons by (cases b; cases "ReadFile fs p") (auto simp: Let_def)
  qed (simp add: Cons.prems Let_def)
qed simp

lemma ApplyDir_up:
  assumes "\<forall>s d. up d \<longrightarrow> up (snd (script s d))" "up d"
  shows "up (snd (ApplyDir fs script db dir d))"
proof (cases "script create_schema_migrations d")
  case (Pair e d1)
  have "up d1" using assms Pair by (metis snd_conv)
  then show ?thesis
    using apply_files_up [OF assms(1), of d1] assms(2) Pair
    by (simp add: ApplyDir_def ensureSchemaMigrations_def split: sum.split option.split)
qed

lemma bootstrap_ready:
  assumes "up d" "ExecContext db c_bootstrap_tenant [] d = (None, d')"
  shows "up d' \<and> debug_tenant_ready eng (tabs d')"
  using exec_law [OF assms(1) bootstrap_ok(1), of "[]"] assms(2) by (auto split: option.splits intro: bootstrap_exec)

lemma prepare_db_ready:
  assumes "\<forall>s d. up d \<longrightarrow> up (snd (Script w s d))" "up d" "CfgEnv cfg = ''dev''" "prepare_db w cfg db d = (None, d')"
  shows "up d' \<and> debug_tenant_ready eng (tabs d')"
proof -
  obtain e d1 where d1: "(if RunMigrations cfg then ApplyDir (Files w) (Script w) db ''migrations'' d else (None, d)) = (e, d1)"
    by (cases "if RunMigrations cfg then ApplyDir (Files w) (Script w) db ''migrations'' d else (None, d)") auto
  have "up d1" using ApplyDir_up [OF assms(1,2), of "Files w" "''migrations''"] d1 assms(2) by (auto split: if_splits)
  moreover have "ExecContext db c_bootstrap_tenant [] d1 = (None, d')"
    using assms(3,4) d1 by (auto simp: prepare_db_def split: option.splits prod.splits)
  ultimately show ?thesis by (rule bootstrap_ready)
qed

end

lemma api_main_MySQL:
  assumes "api_main w = ServingMySQL addr cfg d'"
  obtains db d where "NewStore (Driver w) \<lparr>FactoryBackend = StateBackend (load_config w), FactoryDSN = MySQLDSN (load_config w)\<rparr>
      = (Inr (FromMySQL db d) :: ('a, body) FactoryResult res)"
    "prepare_db w (load_config w) db d = (None, d')" "ApiStore cfg = bytes_Store (mysql_Store db)"
  using assms
  by (auto simp: api_main_def api_config_def Let_def simp del: load_config_simps
      split: sum.splits FactoryResult.splits prod.splits option.splits)

section \<open>A worker with a store of its own\<close>

lemma claim_empty: "is_permuter p \<Longrightarrow> mem_ClaimRuns p n NewMemoryStore = (Inr [], NewMemoryStore)"
  by (simp add: mem_ClaimRuns_def NewMemoryStore_def Let_def)

lemma run_loop_empty:
  assumes "RunnerStore r = Some memory_Store" "\<And>q. Tick q \<in> set es \<Longrightarrow> is_permuter q"
  shows "run_loop r ctx es (NewMemoryStore, x) =
    (case first_done es of None \<Rightarrow> Waiting (NewMemoryStore, x) | Some err \<Rightarrow> Returned (Some err) (NewMemoryStore, x))"
  using assms(2)
proof (induction es)
  case (Cons e es)
  then show ?case by (cases e) (simp_all add: tick_def assms(1) claim_empty)
qed simp


lemma NewStore_MySQL:
  assumes "NewStore drv cfg = Inr (FromMySQL db d)"
  shows "db_Open drv (FactoryDSN cfg) = Inr (db, d)"
  using assms by (auto simp: NewStore_def Let_def bind_res_eq_Inr split: if_splits option.splits)

text \<open>The update of the bootstrap never makes tenant 1: when another tenant has the name, the default
  tenant stays unknown and its inserts go on failing.\<close>

lemma set_update_first: "set (update_first p f xs) \<subseteq> set xs \<union> f ` set xs"
  by (induction xs) auto

lemma bootstrap_name_taken:
  assumes "\<not> tenant_known T 1" "\<exists>r \<in> set (T ''tenants''). named_debug eng r" "sql_exec eng c_bootstrap_tenant [] T = Some T'"
  shows "\<not> tenant_known T' 1"
proof -
  have fits: "fits_chars 255 ''debug''" by (simp add: fits_chars_def valid_utf8_ascii runes_ascii)
  have stored: "store_row eng ''tenants'' [(''tenant_id'', SInt 1), (''name'', SStr ''debug'')] = Some debug_row"
    using fits by (simp add: store_col_def schema_def debug_row_def)
  have clash: "list_ex (same_key_row eng ''tenants'' debug_row) (T ''tenants'')"
    using assms(2) by (auto simp: list_ex_iff same_key_row_def unique_keys_def key_agrees_def named_debug_def debug_row_def col_def)
  have "T' ''tenants'' = update_first (clashing eng ''tenants'' debug_row (T ''tenants'')) (set_cols [(''name'', SStr ''debug'')]) (T ''tenants'')"
    using assms(3) stored clash by (auto simp: c_bootstrap_tenant_def debug_row_def col_def Let_def split: if_splits)
  then have "set (T' ''tenants'') \<subseteq> set (T ''tenants'') \<union> set_cols [(''name'', SStr ''debug'')] ` set (T ''tenants'')"
    using set_update_first by metis
  then show ?thesis using assms(1) by (auto simp: tenant_known_def list_ex_iff set_name dest!: subsetD)
qed

text \<open>The environment \<open>Dev\<close> is a development environment for the middleware, and still needs a key to
  start.\<close>

lemma Dev_needs_key:
  assumes "Getenv w ''ENV'' = ''Dev''" "Getenv w ''JWT_PUBLIC_KEY_PEM'' = ''''"
  shows "is_dev (CfgEnv (load_config w)) \<and> (\<exists>message. api_main w = Exited message)"
proof -
  have "is_dev ''Dev''" by (simp add: is_dev_def TrimSpace_id EqualFold_ascii fold_rune_def rune_to_lower_def)
  moreover have "load_key w (load_config w) = Inl (''JWT public key load failed: '' @ ''JWT_PUBLIC_KEY_PEM is not set'')"
    using assms by (simp add: load_key_def LoadRSAPublicKeyFromEnv_def getenv_def TrimSpace_id)
  then have "\<exists>message. api_main w = Exited message" by (simp add: api_main_def Let_def split: sum.split)
  ultimately show ?thesis using assms(1) by (simp add: getenv_def)
qed

section \<open>Sample processes\<close>

definition sample_driver :: "table_state driver" where
  "sample_driver =
     \<lparr>SqlOpen = (\<lambda>dsn. Inr (table_db plain_engine, empty_tables)), SetPool = (\<lambda>_ _ _ d. d), PingContext = (\<lambda>_. None)\<rparr>"

definition sample_world :: "(string \<times> string) list \<Rightarrow> (table_state, unit) world" where
  "sample_world vars =
     \<lparr>Getenv = (\<lambda>k. case map_of vars k of None \<Rightarrow> '''' | Some v \<Rightarrow> v), Driver = sample_driver, ParsePEM = (\<lambda>_. Inr ()),
      Files = sample_fs (Inr ''''), Script = note_script, HealthPing = (\<lambda>_. None),
      WorldGunzip = (\<lambda>b. Inl ''gzip: invalid header''), WorldJwt = Jwt sample_config, WorldMux = (\<lambda>r. write_status 404)\<rparr>"

section \<open>Properties\<close>

text \<open>(C13) A server that starts outside development authenticates: whatever the backend, a started API whose
  environment is not a development one has a public key, hands a request with a bearer token that the
  RS256 check accepts under that key to the routes, as the default tenant, and answers any other
  request, health checks included, with 401 and no effect; without a usable key it does not start.\<close>

theorem started_server_authenticates:
  assumes "\<not> is_dev (getenv (Getenv w) ''ENV'' ''dev'')"
  shows "(case api_main w of
      Exited message \<Rightarrow> True
    | ServingMemory addr cfg s0 \<Rightarrow>
        (\<forall>rt r s. if authorized w r then api_root cfg rt r s = api_mux cfg rt (with_tenant r DefaultTenantID) s
           else (\<exists>message. api_root cfg rt r s = (unauthorized message, s)))
    | ServingMySQL addr cfg d0 \<Rightarrow>
        (\<forall>rt r s. if authorized w r then api_root cfg rt r s = api_mux cfg rt (with_tenant r DefaultTenantID) s
           else (\<exists>message. api_root cfg rt r s = (unauthorized message, s)))) \<and>
    ((\<exists>err. LoadRSAPublicKeyFromEnv (ParsePEM w) (Getenv w) ''JWT_PUBLIC_KEY_PEM'' = Inl err) \<longrightarrow> (\<exists>message. api_main w = Exited message))"
proof (intro conjI impI)
  have nd: "\<not> is_dev (CfgEnv (load_config w))" using assms by simp
  from api_main_guarded [OF nd] show "case api_main w of
      Exited message \<Rightarrow> True
    | ServingMemory addr cfg s0 \<Rightarrow>
        (\<forall>rt r s. if authorized w r then api_root cfg rt r s = api_mux cfg rt (with_tenant r DefaultTenantID) s
           else (\<exists>message. api_root cfg rt r s = (unauthorized message, s)))
    | ServingMySQL addr cfg d0 \<Rightarrow>
        (\<forall>rt r s. if authorized w r then api_root cfg rt r s = api_mux cfg rt (with_tenant r DefaultTenantID) s
           else (\<exists>message. api_root cfg rt r s = (unauthorized message, s)))"
    unfolding guarded_def .
  assume "\<exists>err. LoadRSAPublicKeyFromEnv (ParsePEM w) (Getenv w) ''JWT_PUBLIC_KEY_PEM'' = Inl err"
  moreover have "CfgEnv (load_config w) \<noteq> ''dev''" using nd is_dev_dev by metis
  ultimately show "\<exists>message. api_main w = Exited message" using started_key [of w] by fastforce
qed

lemma sample_prod: "\<not> is_dev ''prod''"
  by (simp add: is_dev_def TrimSpace_id EqualFold_ascii fold_rune_def rune_to_lower_def)

theorem started_server_authenticates_witness:
  "\<exists>cfg message. api_main (sample_world [(''ENV'', ''prod''), (''JWT_PUBLIC_KEY_PEM'', ''pem'')]) = ServingMemory '':8080'' cfg NewMemoryStore \<and>
     api_root cfg (plain_runtime 5) (sample_request\<lparr>Header := []\<rparr>) NewMemoryStore = (unauthorized message, NewMemoryStore)"
proof -
  let ?w = "sample_world [(''ENV'', ''prod''), (''JWT_PUBLIC_KEY_PEM'', ''pem'')]"
  have env: "\<not> is_dev (getenv (Getenv ?w) ''ENV'' ''dev'')" using sample_prod by (simp add: sample_world_def getenv_def)
  obtain cfg where start: "api_main ?w = ServingMemory '':8080'' cfg NewMemoryStore"
    by (simp add: api_main_def NewStore_def load_key_def LoadRSAPublicKeyFromEnv_def sample_world_def getenv_def TrimSpace_id ToLower_ascii
        char_to_lower_def Let_def)
  have "\<not> authorized ?w (sample_request\<lparr>Header := []\<rparr>)"
    by (simp add: authorized_def token_accepted_def bearer_token_def HeaderGet_def HasPrefix_def TrimSpace_id split: sum.split)
  then show ?thesis using started_server_authenticates [OF env] start by auto
qed


text \<open>(C21) The debug tenant is bootstrapped: a development API that starts over MySQL, with or without
  migrations, serves a database in which the default tenant 1 exists, so that the foreign keys of its
  runs and cached responses hold, unless the name \<open>debug\<close> belongs to another tenant.\<close>

theorem dev_bootstrap_tenant:
  assumes "getenv (Getenv w) ''ENV'' ''dev'' = ''dev''" "api_main w = ServingMySQL addr cfg d'"
    "\<forall>dsn db d. db_Open (Driver w) dsn = Inr (db, d) \<longrightarrow> sql_server db eng tabs up open_tx view \<and> up d"
    "\<forall>s d. up d \<longrightarrow> up (snd (Script w s d))"
  shows "up d' \<and> (tenant_known (tabs d') 1 \<or>
    (\<exists>r \<in> set (tabs d' ''tenants''). col ''tenant_id'' r \<noteq> SInt 1 \<and> sql_eq eng (SStr ''debug'') (col ''name'' r)))"
proof -
  from assms(2) obtain db d where d: "NewStore (Driver w) \<lparr>FactoryBackend = StateBackend (load_config w), FactoryDSN = MySQLDSN (load_config w)\<rparr>
      = (Inr (FromMySQL db d) :: ('a, body) FactoryResult res)" "prepare_db w (load_config w) db d = (None, d')"
    by (rule api_main_MySQL)
  from NewStore_MySQL [OF d(1)] assms(3) have "sql_server db eng tabs up open_tx view" "up d" by blast+
  from sql_server.prepare_db_ready [OF this(1) assms(4) this(2) _ d(2)] assms(1) show ?thesis
    by (simp add: debug_tenant_ready_def named_debug_def)
qed

theorem dev_bootstrap_tenant_witness:
  "\<exists>cfg d'. api_main (sample_world [(''STATE_BACKEND'', ''mysql''), (''DB_DSN'', ''dsn'')]) = ServingMySQL '':8080'' cfg d' \<and>
     tenant_known (Committed d') 1"
proof -
  let ?w = "sample_world [(''STATE_BACKEND'', ''mysql''), (''DB_DSN'', ''dsn'')]"
  have fits: "fits_chars 255 ''debug''" by (simp add: fits_chars_def valid_utf8_ascii runes_ascii)
  have exec: "sql_exec plain_engine c_bootstrap_tenant [] (Committed empty_tables) = Some ((Committed empty_tables)(''tenants'' := [debug_row]))"
    using fits by (simp add: c_bootstrap_tenant_def store_col_def schema_def refers_def foreign_keys_def empty_tables_def debug_row_def)
  obtain cfg where start: "api_main ?w = ServingMySQL '':8080'' cfg (empty_tables\<lparr>Committed := (Committed empty_tables)(''tenants'' := [debug_row])\<rparr>)"
    using exec
    by (simp add: api_main_def NewStore_def db_Open_def load_key_def LoadRSAPublicKeyFromEnv_def prepare_db_def sample_world_def sample_driver_def
        table_db_def getenv_def TrimSpace_id ToLower_ascii char_to_lower_def Let_def)
  have "tenant_known (Committed d') 1 \<or> (\<exists>r \<in> set (Committed d' ''tenants''). col ''tenant_id'' r \<noteq> SInt 1 \<and> sql_eq plain_engine (SStr ''debug'') (col ''name'' r))"
    if "api_main ?w = ServingMySQL '':8080'' cfg d'" for d'
    using dev_bootstrap_tenant [OF _ that, of plain_engine Committed "\<lambda>_. True" "\<lambda>_. True" Working] plain_tables.sql_server_axioms
    by (simp add: sample_world_def sample_driver_def db_Open_def getenv_def)
  from this [OF start] start show ?thesis by (auto simp: debug_row_def col_def)
qed

text \<open>With the memory backend, which is the default, a worker has a store of its own that nobody else
  writes: it starts with the empty one, and however often it polls it never claims a run and never
  calls a hook; it only ends with its context.\<close>

theorem memory_worker_idle:
  assumes "ToLower (TrimSpace (getenv (Getenv w) ''STATE_BACKEND'' ''memory'')) = ''memory''" "is_permuter p"
    "\<forall>q. Tick q \<in> set es \<longrightarrow> is_permuter q"
  shows "\<exists>r. worker_main w rng = WorkingMemory r NewMemoryStore \<and>
    Run r ctx p es (NewMemoryStore, x) =
      (case first_done es of None \<Rightarrow> Waiting (NewMemoryStore, x) | Some err \<Rightarrow> Returned (Some err) (NewMemoryStore, x))"
proof -
  let ?r = "worker_main_runner memory_Store rng :: (string MemoryStore, 'c, string) Runner"
  have "worker_main w rng = WorkingMemory ?r NewMemoryStore"
    using assms(1) by (simp add: worker_main_def NewStore_def Let_def)
  moreover have "run_loop (with_defaults ?r) ctx (Tick p # es) (NewMemoryStore, x) =
      (case first_done es of None \<Rightarrow> Waiting (NewMemoryStore, x) | Some err \<Rightarrow> Returned (Some err) (NewMemoryStore, x))"
  proof -
    have "RunnerStore (with_defaults ?r) = Some memory_Store" by (simp add: worker_main_runner_def Let_def)
    from run_loop_empty [OF this, of "Tick p # es"] show ?thesis using assms(2,3) by (simp del: run_loop.simps) blast
  qed
  moreover have "RunnerStore ?r \<noteq> None" by (simp add: worker_main_runner_def Let_def)
  ultimately show ?thesis unfolding Run_def by auto
qed

theorem memory_worker_idle_witness:
  "\<exists>r. worker_main (sample_world []) rev = WorkingMemory r NewMemoryStore \<and>
    Run r Background rev [Tick rev, Done ''context canceled''] (NewMemoryStore, ()) = Returned (Some ''context canceled'') (NewMemoryStore, ())"
proof -
  have "ToLower (TrimSpace (getenv (Getenv (sample_world [])) ''STATE_BACKEND'' ''memory'')) = ''memory''"
    by (simp add: sample_world_def getenv_def TrimSpace_id ToLower_ascii char_to_lower_def)
  from memory_worker_idle [OF this permuter_rev, of "[Tick rev, Done ''context canceled'']" rev Background "()"]
  show ?thesis by (simp add: permuter_rev)
qed

text \<open>A signal ends such a worker without an error.\<close>

lemma memory_worker_shutdown:
  assumes "ToLower (TrimSpace (getenv (Getenv w) ''STATE_BACKEND'' ''memory'')) = ''memory''" "is_permuter p"
    "\<forall>q. Tick q \<in> set es \<longrightarrow> is_permuter q" "first_done es = Some Canceled"
  shows "\<exists>r. worker_main w rng = WorkingMemory r NewMemoryStore \<and> worker_stopped (Run r ctx p es (NewMemoryStore, x)) = None"
  using memory_worker_idle [OF assms(1-3), of rng ctx x] assms(4) by (auto simp: worker_stopped_def)

end
