(* ===== verification/Tokens.thy ===== *)
theory Tokens
  imports Startup
begin

text \<open>
  The key tools: \<open>cmd/gen-keys\<close>, \<open>cmd/mint-token\<close> and the signing helper of \<open>internal/api/auth\<close>. The
  packages \<open>encoding/pem\<close>, \<open>crypto/rsa\<close>, \<open>crypto/x509\<close> and the JWT library are a record of functions;
  what they document is stated as locales, interpreted on a small concrete library. Parsed flags, the
  generated key and the clock are arguments.
\<close>

section \<open>Paths\<close>

text \<open>\<open>filepath.Clean\<close> and \<open>filepath.Join\<close> with slashes as separators.\<close>

definition clean_step :: "bool \<Rightarrow> string \<Rightarrow> string list \<Rightarrow> string list" where
  "clean_step rooted seg segs =
     (if seg = '''' \<or> seg = ''.'' then segs
      else if seg = ''..'' then
        (if segs \<noteq> [] \<and> last segs \<noteq> ''..'' then butlast segs else if rooted then segs else segs @ [seg])
      else segs @ [seg])"

fun join_slash :: "string list \<Rightarrow> string" where
  "join_slash [] = ''''"
| "join_slash [seg] = seg"
| "join_slash (seg # segs) = seg @ ''/'' @ join_slash segs"

definition Clean :: "string \<Rightarrow> string" where
  "Clean path =
     (let rooted = HasPrefix path ''/'';
          s = (if rooted then ''/'' else '''') @ join_slash (fold (clean_step rooted) (split_slash path) [])
      in if s = '''' then ''.'' else s)"

definition filepath_Join :: "string \<Rightarrow> string \<Rightarrow> string" where
  "filepath_Join dir name =
     (if dir = '''' \<and> name = '''' then '''' else if dir = '''' then Clean name else if name = '''' then Clean dir
      else Clean (dir @ ''/'' @ name))"

section \<open>The libraries\<close>

record token_claims =
  TokTenant :: uint64
  TokIssuer :: string
  TokSubject :: string
  TokIssuedAt :: time
  TokExpiresAt :: time

record ('p, 'k) crypto =
  PemEncode :: "string \<Rightarrow> string \<Rightarrow> string"
  PemDecode :: "string \<Rightarrow> (string \<times> string) option"
  MarshalPKCS1PrivateKey :: "'p \<Rightarrow> string"
  ParsePKCS1PrivateKey :: "string \<Rightarrow> 'p res"
  ParsePKCS8PrivateKey :: "string \<Rightarrow> 'p option res"
  MarshalPKIXPublicKey :: "'k \<Rightarrow> string res"
  ParseRSAPublicKeyFromPEM :: "string \<Rightarrow> 'k res"
  PublicOf :: "'p \<Rightarrow> 'k"
  NewNumericDate :: "time \<Rightarrow> time"
  SignedString :: "string \<Rightarrow> token_claims \<Rightarrow> 'p \<Rightarrow> string res"
  ParseAt :: "time \<Rightarrow> 'k jwt_parser"

section \<open>Minting a token\<close>

text \<open>A PKCS#8 key that is not an RSA key is \<open>None\<close>.\<close>

definition loadRSAPrivateKeyFromEnv :: "('p, 'k) crypto \<Rightarrow> (string \<Rightarrow> string) \<Rightarrow> string \<Rightarrow> 'p res" where
  "loadRSAPrivateKeyFromEnv cr os envKey =
     (let raw = TrimSpace (os envKey) in
      if raw = '''' then Inl (envKey @ '' is not set'')
      else
        (case PemDecode cr (ReplaceAll raw (CHR 0x5C # ''n'') [CHR 0x0A]) of
           None \<Rightarrow> Inl ''pem decode failed''
         | Some (ty, der) \<Rightarrow>
             if ty = ''RSA PRIVATE KEY'' then
               (case ParsePKCS1PrivateKey cr der of Inl err \<Rightarrow> Inl (''parse pkcs1 private key failed: '' @ err) | Inr priv \<Rightarrow> Inr priv)
             else if ty = ''PRIVATE KEY'' then
               (case ParsePKCS8PrivateKey cr der of
                  Inl err \<Rightarrow> Inl (''parse pkcs8 private key failed: '' @ err)
                | Inr None \<Rightarrow> Inl ''pkcs8 key is not rsa''
                | Inr (Some priv) \<Rightarrow> Inr priv)
             else Inl (''unsupported pem type: '' @ ty)))"

record mint_flags =
  FlagTenant :: uint64
  FlagTTL :: int
  FlagIss :: string
  FlagSub :: string
  FlagEnv :: string

definition default_flags :: mint_flags where
  "default_flags =
     \<lparr>FlagTenant = 1, FlagTTL = 30 * 60 * second, FlagIss = ''conductor'', FlagSub = ''dev-client'', FlagEnv = ''JWT_PRIVATE_KEY_PEM''\<rparr>"

text \<open>What a tool prints on its standard output, or the error with which it exits.\<close>

datatype tool_outcome = Printed string | ToolExited string

definition mint_token :: "('p, 'k) crypto \<Rightarrow> (string \<Rightarrow> string) \<Rightarrow> mint_flags \<Rightarrow> time \<Rightarrow> tool_outcome" where
  "mint_token cr os flags now =
     (case loadRSAPrivateKeyFromEnv cr os (FlagEnv flags) of
        Inl err \<Rightarrow> ToolExited (''load private key failed: '' @ err)
      | Inr priv \<Rightarrow>
          (let claims = \<lparr>TokTenant = FlagTenant flags, TokIssuer = FlagIss flags, TokSubject = FlagSub flags,
             TokIssuedAt = NewNumericDate cr now, TokExpiresAt = NewNumericDate cr (now + FlagTTL flags)\<rparr> in
           case SignedString cr ''RS256'' claims priv of
             Inl err \<Rightarrow> ToolExited (''sign token failed: '' @ err)
           | Inr s \<Rightarrow> Printed (s @ [CHR 0x0A])))"

definition SignRS256ForTests :: "('p, 'k) crypto \<Rightarrow> time \<Rightarrow> 'p \<Rightarrow> uint64 \<Rightarrow> int \<Rightarrow> string res" where
  "SignRS256ForTests cr now priv tenantID ttl =
     SignedString cr ''RS256''
       \<lparr>TokTenant = tenantID, TokIssuer = ''conductor'', TokSubject = '''', TokIssuedAt = NewNumericDate cr now,
        TokExpiresAt = NewNumericDate cr (now + ttl)\<rparr> priv"

definition MustJSON :: "any \<Rightarrow> string" where
  "MustJSON v = (case marshal v of Inl _ \<Rightarrow> '''' | Inr b \<Rightarrow> b)"

section \<open>Generating keys\<close>

record 'f out_fs =
  MkdirAll :: "string \<Rightarrow> 'f \<Rightarrow> go_error option \<times> 'f"
  WriteFile :: "string \<Rightarrow> string \<Rightarrow> nat \<Rightarrow> 'f \<Rightarrow> go_error option \<times> 'f"

text \<open>\<open>os.Args\<close> without the name of the program; \<open>key\<close> is what \<open>rsa.GenerateKey\<close> gives. The permissions
  are 0600 and 0644.\<close>

definition gen_keys :: "('p, 'k) crypto \<Rightarrow> 'f out_fs \<Rightarrow> string list \<Rightarrow> 'p res \<Rightarrow> 'f \<Rightarrow> tool_outcome \<times> 'f" where
  "gen_keys cr io args key f =
     (let outDir = (case args of [] \<Rightarrow> ''./secrets'' | a # _ \<Rightarrow> a) in
      case MkdirAll io outDir f of
        (Some err, f) \<Rightarrow> (ToolExited (''mkdir failed: '' @ err), f)
      | (None, f) \<Rightarrow>
          (case key of
             Inl err \<Rightarrow> (ToolExited (''keygen failed: '' @ err), f)
           | Inr priv \<Rightarrow>
               (let privPEM = PemEncode cr ''RSA PRIVATE KEY'' (MarshalPKCS1PrivateKey cr priv) in
                case MarshalPKIXPublicKey cr (PublicOf cr priv) of
                  Inl err \<Rightarrow> (ToolExited (''marshal public key failed: '' @ err), f)
                | Inr pubDER \<Rightarrow>
                    (let pubPEM = PemEncode cr ''PUBLIC KEY'' pubDER;
                         privPath = filepath_Join outDir ''jwt_private.pem'';
                         pubPath = filepath_Join outDir ''jwt_public.pem''
                     in case WriteFile io privPath privPEM (6 * 64) f of
                          (Some err, f) \<Rightarrow> (ToolExited (''write private key failed: '' @ err), f)
                        | (None, f) \<Rightarrow>
                            (case WriteFile io pubPath pubPEM (6 * 64 + 4 * 8 + 4) f of
                               (Some err, f) \<Rightarrow> (ToolExited (''write public key failed: '' @ err), f)
                             | (None, f) \<Rightarrow>
                                 (Printed (''Wrote '' @ privPath @ [CHR 0x0A] @ ''Wrote '' @ pubPath @ [CHR 0x0A]), f))))))"

section \<open>Names of the key files\<close>

lemma split_slash_append: "split_slash (a @ CHR ''/'' # b) = split_slash a @ split_slash b"
proof (induction a)
  case (Cons c a)
  have "split_slash a \<noteq> []" by (induction a) (auto split: list.split)
  then show ?case using Cons by (auto split: list.split)
qed simp

lemma split_slash_name: "CHR ''/'' \<notin> set n \<Longrightarrow> split_slash n = [n]"
  by (induction n) auto

lemma join_slash_snoc: "join_slash (segs @ [n]) = (if segs = [] then n else join_slash segs @ ''/'' @ n)"
  by (induction segs rule: join_slash.induct) auto

lemma Clean_name:
  assumes "CHR ''/'' \<notin> set n" "n \<notin> {'''', ''.'', ''..''}" "dir \<noteq> ''''"
  shows "\<exists>pre. \<forall>n'. CHR ''/'' \<notin> set n' \<longrightarrow> n' \<notin> {'''', ''.'', ''..''} \<longrightarrow> filepath_Join dir n' = pre @ n'"
proof -
  let ?root = "HasPrefix dir ''/''"
  let ?segs = "fold (clean_step ?root) (split_slash dir) []"
  have root: "HasPrefix (dir @ ''/'' @ n') ''/'' \<longleftrightarrow> ?root" for n'
    using assms(3) by (cases dir) (auto simp: HasPrefix_def)
  have "filepath_Join dir n' = ((if ?root then ''/'' else '''') @ (if ?segs = [] then '''' else join_slash ?segs @ ''/'')) @ n'"
    if "CHR ''/'' \<notin> set n'" "n' \<notin> {'''', ''.'', ''..''}" for n'
  proof -
    have "fold (clean_step ?root) (split_slash (dir @ ''/'' @ n')) [] = ?segs @ [n']"
      using that by (simp add: split_slash_append split_slash_name clean_step_def)
    then show ?thesis
      using that assms(3) unfolding filepath_Join_def Clean_def Let_def root by (auto simp: join_slash_snoc)
  qed
  then show ?thesis by blast
qed

lemma key_paths_differ: "filepath_Join dir ''jwt_private.pem'' \<noteq> filepath_Join dir ''jwt_public.pem''"
proof (cases "dir = ''''")
  case True
  then show ?thesis by (simp add: filepath_Join_def Clean_def clean_step_def HasPrefix_def Let_def)
next
  case False
  obtain pre where "\<forall>n'. CHR ''/'' \<notin> set n' \<longrightarrow> n' \<notin> {'''', ''.'', ''..''} \<longrightarrow> filepath_Join dir n' = pre @ n'"
    using Clean_name [OF _ _ False, of "''jwt_private.pem''"] by auto
  then show ?thesis by simp
qed

section \<open>Key material in the environment\<close>

text \<open>A PEM text on a single line, with \<open>\n\<close> for every end of line.\<close>

definition single_line :: "string \<Rightarrow> string" where
  "single_line s = concat (map (\<lambda>c. if c = CHR 0x0A then CHR 0x5C # ''n'' else [c]) s)"

lemma replace_plain: "CHR 0x5C \<notin> set s \<Longrightarrow> ReplaceAll s (CHR 0x5C # ''n'') [CHR 0x0A] = s"
  unfolding ReplaceAll_def by (induction s) auto

lemma replace_single_line: "CHR 0x5C \<notin> set s \<Longrightarrow> ReplaceAll (single_line s) (CHR 0x5C # ''n'') [CHR 0x0A] = s"
  unfolding ReplaceAll_def single_line_def by (induction s) auto

text \<open>How a key may be put into a variable: as the file has it, without the final newline, or on one line.\<close>

definition env_forms :: "string \<Rightarrow> string set" where
  "env_forms pem = {pem, butlast pem, single_line pem, single_line (butlast pem)}"

definition pem_text :: "string \<Rightarrow> bool" where
  "pem_text s \<longleftrightarrow> (\<exists>m. s = ''-'' @ m @ ''-'' @ [CHR 0x0A] \<and> CHR 0x5C \<notin> set m)"

lemma newline_space: "e \<in> set spaces \<Longrightarrow> prefix (rev e) (CHR 0x0A # s) \<Longrightarrow> e = [CHR 0x0A]"
proof -
  have "\<forall>r \<in> set space_runes. rev (encode_rune r) \<noteq> [] \<and> (hd (rev (encode_rune r)) = CHR 0x0A \<longrightarrow> r = 10)"
    by (simp add: space_runes_def upt_rec encode_rune_def char_of_eq_iff)
  then show "e \<in> set spaces \<Longrightarrow> prefix (rev e) (CHR 0x0A # s) \<Longrightarrow> e = [CHR 0x0A]"
    unfolding spaces_def by (auto simp: prefix_Cons encode_rune_def)
qed

lemma strip_printable:
  assumes "s \<noteq> []" "32 < byte (hd s)" "byte (hd s) < 128"
  shows "strip spaces s = s" "strip (map rev spaces) s = s"
proof -
  obtain c cs where s: "s = c # cs" using assms(1) by (cases s) auto
  have "\<not> prefix e s" if "e \<in> set spaces" for e
    using space_first_byte [OF that] assms(2,3) s by auto
  moreover have "\<not> prefix (rev e) s" if "e \<in> set spaces" for e
    using space_last_byte [OF that] assms(2,3) s by auto
  ultimately show "strip spaces s = s" "strip (map rev spaces) s = s"
    unfolding strip_id_iff by auto
qed

lemma TrimSpace_newline:
  assumes "32 < byte (hd s)" "byte (hd s) < 128" "32 < byte (last s)" "byte (last s) < 128" "s \<noteq> []"
  shows "TrimSpace (s @ [CHR 0x0A]) = s"
proof -
  have "strip (map rev spaces) (CHR 0x0A # rev s) = strip (map rev spaces) (rev s)"
  proof -
    let ?p = "\<lambda>e. e \<noteq> [] \<and> prefix e (CHR 0x0A # rev s)"
    have "encode_rune 10 = [CHR 0x0A]" by (simp add: encode_rune_def char_of_eq_iff)
    then have "[CHR 0x0A] \<in> set (map rev spaces)" by (force simp: spaces_def space_runes_def)
    then have "find ?p (map rev spaces) \<noteq> None" by (auto simp: find_None_iff)
    moreover have "e = [CHR 0x0A]" if "find ?p (map rev spaces) = Some e" for e
    proof -
      have "e \<in> set (map rev spaces)" "prefix e (CHR 0x0A # rev s)" using that by (auto simp: find_Some_iff)
      then show ?thesis using newline_space [of "rev e"] by force
    qed
    ultimately have "find ?p (map rev spaces) = Some [CHR 0x0A]" by blast
    then show ?thesis by (subst strip.simps) simp
  qed
  then show ?thesis
    using assms strip_printable(1) [of "s @ [CHR 0x0A]"] strip_printable(2) [of "rev s"]
    by (simp add: TrimSpace_def TrimLeftSpace_def TrimRightSpace_def hd_rev)
qed

lemma env_form_read:
  assumes "pem_text pem" "v \<in> env_forms pem"
  shows "TrimSpace v \<noteq> '''' \<and> ReplaceAll (TrimSpace v) (CHR 0x5C # ''n'') [CHR 0x0A] \<in> {pem, butlast pem}"
proof -
  obtain m where m: "pem = ''-'' @ m @ ''-'' @ [CHR 0x0A]" "CHR 0x5C \<notin> set m" using assms(1) by (auto simp: pem_text_def)
  let ?b = "''-'' @ m @ ''-''"
  have b: "butlast pem = ?b" "pem = ?b @ [CHR 0x0A]" "CHR 0x5C \<notin> set ?b" "CHR 0x5C \<notin> set pem"
    using m by (simp_all add: butlast_append)
  have lines: "single_line ?b = ''-'' @ single_line m @ ''-''" "single_line pem = ''-'' @ single_line m @ ''-'' @ CHR 0x5C # ''n''"
    using m(1) by (simp_all add: single_line_def)
  have "TrimSpace pem = ?b" unfolding b(2) by (rule TrimSpace_newline) simp_all
  moreover have "TrimSpace ?b = ?b" "TrimSpace (single_line ?b) = single_line ?b" "TrimSpace (single_line pem) = single_line pem"
    unfolding lines by (rule TrimSpace_id; simp)+
  moreover have "v \<in> {pem, ?b, single_line pem, single_line ?b}" using assms(2) b(1) by (simp add: env_forms_def)
  ultimately show ?thesis
    using b replace_plain [OF b(3)] replace_single_line [OF b(3)] replace_single_line [OF b(4)] lines by auto
qed

section \<open>What the libraries promise\<close>

text \<open>Keys: a PEM block is read back, with or without its last newline, and so is the encoding of a key.\<close>

definition key_types :: "string set" where
  "key_types = {''RSA PRIVATE KEY'', ''PUBLIC KEY''}"

locale key_library =
  fixes cr :: "('p, 'k) crypto"
  assumes pem_shape: "ty \<in> key_types \<Longrightarrow> pem_text (PemEncode cr ty der)"
    and pem_decode: "ty \<in> key_types \<Longrightarrow> s \<in> {PemEncode cr ty der, butlast (PemEncode cr ty der)} \<Longrightarrow> PemDecode cr s = Some (ty, der)"
    and pkcs1_law: "ParsePKCS1PrivateKey cr (MarshalPKCS1PrivateKey cr p) = Inr p"
    and pkix_law: "MarshalPKIXPublicKey cr k = Inr der \<Longrightarrow> PemDecode cr s = Some (''PUBLIC KEY'', der) \<Longrightarrow>
      ParseRSAPublicKeyFromPEM cr s = Inr k"
begin

lemma load_private:
  assumes "os e \<in> env_forms (PemEncode cr ''RSA PRIVATE KEY'' (MarshalPKCS1PrivateKey cr p))"
  shows "loadRSAPrivateKeyFromEnv cr os e = Inr p"
proof -
  have ty: "''RSA PRIVATE KEY'' \<in> key_types" by (simp add: key_types_def)
  note read = env_form_read [OF pem_shape [OF ty] assms]
  from pem_decode [OF ty] read have "PemDecode cr (ReplaceAll (TrimSpace (os e)) (CHR 0x5C # ''n'') [CHR 0x0A]) =
      Some (''RSA PRIVATE KEY'', MarshalPKCS1PrivateKey cr p)" by blast
  then show ?thesis using read by (simp add: loadRSAPrivateKeyFromEnv_def Let_def pkcs1_law)
qed

lemma load_public:
  assumes "MarshalPKIXPublicKey cr k = Inr der" "os e \<in> env_forms (PemEncode cr ''PUBLIC KEY'' der)"
  shows "LoadRSAPublicKeyFromEnv (ParseRSAPublicKeyFromPEM cr) os e = Inr k"
proof -
  have ty: "''PUBLIC KEY'' \<in> key_types" by (simp add: key_types_def)
  note read = env_form_read [OF pem_shape [OF ty] assms(2)]
  from pem_decode [OF ty] read have "PemDecode cr (ReplaceAll (TrimSpace (os e)) (CHR 0x5C # ''n'') [CHR 0x0A]) = Some (''PUBLIC KEY'', der)"
    by blast
  from pkix_law [OF assms(1) this] show ?thesis using read by (simp add: LoadRSAPublicKeyFromEnv_def Let_def)
qed

end

text \<open>Tokens: dates are cut to the second, a token is printable, and it is accepted under the public key of
  its signer, for an allowed algorithm, until it expires, leeway included.\<close>

locale jwt_library =
  fixes cr :: "('p, 'k) crypto"
  assumes date_law: "t - second < NewNumericDate cr t \<and> NewNumericDate cr t \<le> t"
    and token_law: "SignedString cr alg c p = Inr tok \<Longrightarrow> tok \<noteq> '''' \<and> list_all (\<lambda>b. 32 < byte b \<and> byte b < 127) tok"
    and fresh_law: "SignedString cr alg c p = Inr tok \<Longrightarrow> alg \<in> set algs \<Longrightarrow> keyfn alg = Inr (PublicOf cr p) \<Longrightarrow>
      0 < TokExpiresAt c \<Longrightarrow> TokExpiresAt c < 2 ^ 63 \<Longrightarrow> now < TokExpiresAt c + leeway \<Longrightarrow>
      ParseAt cr now algs leeway tok keyfn = Inr (\<lparr>ClaimsTenantID = TokTenant c\<rparr>, True)"
    and expired_law: "SignedString cr alg c p = Inr tok \<Longrightarrow> 0 < TokExpiresAt c \<Longrightarrow> TokExpiresAt c < 2 ^ 63 \<Longrightarrow>
      TokExpiresAt c + leeway \<le> now \<Longrightarrow> \<exists>err. ParseAt cr now algs leeway tok keyfn = Inl err"
begin

lemma validate_signed:
  assumes "SignedString cr ''RS256'' c p = Inr tok" "0 < TokExpiresAt c" "TokExpiresAt c < 2 ^ 63"
  shows "(\<exists>claims. ParseAndValidateRS256 (ParseAt cr now) tok (Some (PublicOf cr p)) = Inr claims) \<longleftrightarrow>
    TokTenant c \<noteq> 0 \<and> now < TokExpiresAt c + 30 * second"
proof (cases "now < TokExpiresAt c + 30 * second")
  case True
  have "ParseAt cr now [''RS256''] (30 * 1000000000) tok (\<lambda>alg. if alg \<noteq> ''RS256'' then Inl (''unexpected alg: '' @ alg) else Inr (PublicOf cr p)) =
      Inr (\<lparr>ClaimsTenantID = TokTenant c\<rparr>, True)"
    using True assms(2,3) by (intro fresh_law [OF assms(1)]) (simp_all add: second_def)
  with True show ?thesis by (simp add: ParseAndValidateRS256_def)
next
  case False
  obtain err where "ParseAt cr now [''RS256''] (30 * 1000000000) tok
      (\<lambda>alg. if alg \<noteq> ''RS256'' then Inl (''unexpected alg: '' @ alg) else Inr (PublicOf cr p)) = Inl err"
    using expired_law [OF assms] False by (force simp: second_def)
  with False show ?thesis by (simp add: ParseAndValidateRS256_def)
qed

lemma bearer_signed:
  assumes "SignedString cr alg c p = Inr tok" "HeaderGet r ''Authorization'' = ''Bearer '' @ tok"
  shows "bearer_token r = tok"
proof -
  have tok: "tok \<noteq> []" "list_all (\<lambda>b. 32 < byte b \<and> byte b < 127) tok" using token_law [OF assms(1)] by simp_all
  then have "32 < byte (hd tok)" "byte (hd tok) < 127" "32 < byte (last tok)" "byte (last tok) < 127"
    by (auto simp: list_all_iff)
  then have "TrimSpace tok = tok" "TrimSpace (''Bearer '' @ tok) = ''Bearer '' @ tok"
    using tok(1) by (simp_all add: TrimSpace_id)
  then show ?thesis using assms(2) by (simp add: bearer_token_def Let_def HasPrefix_def TrimPrefix_def)
qed

end

text \<open>Files: writing a file sets its content and leaves the others alone.\<close>

locale file_writer =
  fixes io :: "'f out_fs" and content :: "'f \<Rightarrow> string \<Rightarrow> string option"
  assumes write_law: "WriteFile io path s mode f = (None, f') \<Longrightarrow> content f' = (content f)(path \<mapsto> s)"
begin

lemma gen_keys_writes:
  assumes "gen_keys cr io args key f = (Printed out, f')"
  shows "\<exists>priv der. key = Inr priv \<and> MarshalPKIXPublicKey cr (PublicOf cr priv) = Inr der \<and>
    content f' (filepath_Join (case args of [] \<Rightarrow> ''./secrets'' | a # _ \<Rightarrow> a) ''jwt_private.pem'') =
      Some (PemEncode cr ''RSA PRIVATE KEY'' (MarshalPKCS1PrivateKey cr priv)) \<and>
    content f' (filepath_Join (case args of [] \<Rightarrow> ''./secrets'' | a # _ \<Rightarrow> a) ''jwt_public.pem'') = Some (PemEncode cr ''PUBLIC KEY'' der)"
  using assms
  by (auto simp: gen_keys_def Let_def key_paths_differ dest!: write_law split: sum.splits prod.splits option.splits)

end

section \<open>A concrete library\<close>

text \<open>Keys are their bytes, a PEM body is written in hexadecimal, and a token spells its tenant and its
  expiry.\<close>

fun unhex :: "string \<Rightarrow> string" where
  "unhex (a # b # s) = char_of (16 * hex_val a + hex_val b) # unhex s"
| "unhex s = []"

lemma unhex_EncodeToString: "unhex (EncodeToString s) = s"
proof (induction s)
  case (Cons c s)
  have "byte c div 16 < 16" using byte_less [of c] by (simp add: less_mult_imp_div_less)
  then show ?case using Cons by (simp add: EncodeToString_def hex_digit_val)
qed (simp add: EncodeToString_def)

definition sample_pem :: "string \<Rightarrow> string \<Rightarrow> string" where
  "sample_pem ty der = ''-----BEGIN '' @ ty @ ''-----'' @ [CHR 0x0A] @ EncodeToString der @ [CHR 0x0A] @ ''-----END-----'' @ [CHR 0x0A]"

definition sample_body :: "string \<Rightarrow> string \<Rightarrow> (string \<times> string) option" where
  "sample_body ty s =
     (let h = ''-----BEGIN '' @ ty @ ''-----'' @ [CHR 0x0A] in
      if HasPrefix s h then Some (ty, unhex (takeWhile is_hex (drop (length h) s))) else None)"

definition sample_token :: "token_claims \<Rightarrow> string" where
  "sample_token c = ''t'' @ nat_to_digits (unat (TokTenant c)) @ ''e'' @ nat_to_digits (nat (TokExpiresAt c))"

definition sample_parse :: "time \<Rightarrow> string jwt_parser" where
  "sample_parse now algs leeway tok keyfn =
     (let tenant = takeWhile is_digit (tl tok); expiry = drop (length tenant + 2) tok in
      if int (digits_val expiry) + leeway \<le> now then Inl ''token is expired''
      else if ''RS256'' \<in> set algs then
        bind_res (keyfn ''RS256'') (\<lambda>_. Inr (\<lparr>ClaimsTenantID = word_of_nat (digits_val tenant)\<rparr>, True))
      else Inl ''signing method RS256 is invalid'')"

definition sample_crypto :: "(string, string) crypto" where
  "sample_crypto =
     \<lparr>PemEncode = sample_pem,
      PemDecode = (\<lambda>s. case sample_body ''RSA PRIVATE KEY'' s of Some b \<Rightarrow> Some b | None \<Rightarrow> sample_body ''PUBLIC KEY'' s),
      MarshalPKCS1PrivateKey = (\<lambda>p. p), ParsePKCS1PrivateKey = Inr, ParsePKCS8PrivateKey = (\<lambda>_. Inl ''asn1: structure error''),
      MarshalPKIXPublicKey = Inr,
      ParseRSAPublicKeyFromPEM = (\<lambda>s. case sample_body ''PUBLIC KEY'' s of Some (_, der) \<Rightarrow> Inr der | None \<Rightarrow> Inl ''invalid key''),
      PublicOf = (\<lambda>p. p), NewNumericDate = (\<lambda>t. t div second * second),
      SignedString = (\<lambda>alg c p. if alg = ''RS256'' then Inr (sample_token c) else Inl ''unknown method''),
      ParseAt = sample_parse\<rparr>"


lemma sample_body_pem:
  assumes "ty \<in> key_types" "s \<in> {sample_pem ty der, butlast (sample_pem ty der)}"
  shows "sample_body ty s = Some (ty, der)" "ty = ''PUBLIC KEY'' \<Longrightarrow> sample_body ''RSA PRIVATE KEY'' s = None"
proof -
  let ?h = "''-----BEGIN '' @ ty @ ''-----'' @ [CHR 0x0A]"
  obtain rest where s: "s = ?h @ EncodeToString der @ CHR 0x0A # rest"
    using assms(2) by (auto simp: sample_pem_def butlast_append)
  have "list_all is_hex (EncodeToString der)"
    unfolding EncodeToString_def list_all_iff using hex_digit_val byte_less by (auto simp: less_mult_imp_div_less)
  then have "takeWhile is_hex (EncodeToString der @ CHR 0x0A # rest) = EncodeToString der"
    by (subst takeWhile_append2) (auto simp: list_all_iff is_hex_def is_digit_def)
  then show "sample_body ty s = Some (ty, der)"
    unfolding s sample_body_def Let_def by (simp add: HasPrefix_def unhex_EncodeToString)
  show "sample_body ''RSA PRIVATE KEY'' s = None" if "ty = ''PUBLIC KEY''"
    unfolding s that sample_body_def Let_def by (simp add: HasPrefix_def)
qed

lemma sample_pem_text: "ty \<in> key_types \<Longrightarrow> pem_text (sample_pem ty der)"
proof -
  assume ty: "ty \<in> key_types"
  have "CHR 0x5C \<notin> set (EncodeToString der)"
    using set_EncodeToString [of der] by (auto dest!: subsetD)
  then have "sample_pem ty der = ''-'' @ (''----BEGIN '' @ ty @ ''-----'' @ [CHR 0x0A] @ EncodeToString der @ [CHR 0x0A] @ ''-----END----'') @ ''-'' @ [CHR 0x0A]"
    "CHR 0x5C \<notin> set (''----BEGIN '' @ ty @ ''-----'' @ [CHR 0x0A] @ EncodeToString der @ [CHR 0x0A] @ ''-----END----'')"
    using ty by (auto simp: sample_pem_def key_types_def)
  then show "pem_text (sample_pem ty der)" unfolding pem_text_def by blast
qed

interpretation sample_keys: key_library sample_crypto
proof unfold_locales
  show "pem_text (PemEncode sample_crypto ty der)" if "ty \<in> key_types" for ty der
    using sample_pem_text [OF that] by (simp add: sample_crypto_def)
  show "PemDecode sample_crypto s = Some (ty, der)"
    if "ty \<in> key_types" "s \<in> {PemEncode sample_crypto ty der, butlast (PemEncode sample_crypto ty der)}" for ty s der
  proof -
    have s: "s \<in> {sample_pem ty der, butlast (sample_pem ty der)}" using that(2) by (simp add: sample_crypto_def)
    then show ?thesis using sample_body_pem [OF that(1) s] that(1) by (auto simp: sample_crypto_def key_types_def)
  qed
  show "ParseRSAPublicKeyFromPEM sample_crypto s = Inr k"
    if "MarshalPKIXPublicKey sample_crypto k = Inr der" "PemDecode sample_crypto s = Some (''PUBLIC KEY'', der)" for k der s
    using that by (auto simp: sample_crypto_def sample_body_def Let_def split: option.splits if_splits)
qed (simp add: sample_crypto_def)

lemma sample_parse_token:
  assumes "0 < TokExpiresAt c"
  shows "sample_parse now algs leeway (sample_token c) keyfn =
    (if TokExpiresAt c + leeway \<le> now then Inl ''token is expired''
     else if ''RS256'' \<in> set algs then bind_res (keyfn ''RS256'') (\<lambda>_. Inr (\<lparr>ClaimsTenantID = TokTenant c\<rparr>, True))
     else Inl ''signing method RS256 is invalid'')"
proof -
  let ?t = "nat_to_digits (unat (TokTenant c))" and ?e = "nat_to_digits (nat (TokExpiresAt c))"
  have "takeWhile is_digit (?t @ ''e'' @ ?e) = ?t"
    using nat_to_digits_props [of "unat (TokTenant c)"]
    by (subst takeWhile_append2) (auto simp: list_all_iff is_digit_def)
  then show ?thesis
    using nat_to_digits_props [of "unat (TokTenant c)"] nat_to_digits_props [of "nat (TokExpiresAt c)"] assms
    by (simp add: sample_parse_def sample_token_def Let_def)
qed

lemma digits_printable: "list_all (\<lambda>b. 32 < byte b \<and> byte b < 127) (nat_to_digits n)"
proof (unfold list_all_iff, intro ballI)
  fix b
  assume "b \<in> set (nat_to_digits n)"
  then have "is_digit b" using nat_to_digits_props [of n] by (simp add: list_all_iff)
  then show "32 < byte b \<and> byte b < 127" by (simp add: is_digit_def)
qed

interpretation sample_jwt: jwt_library sample_crypto
proof unfold_locales
  show "t - second < NewNumericDate sample_crypto t \<and> NewNumericDate sample_crypto t \<le> t" for t
    by (simp add: sample_crypto_def second_def) presburger
  show "tok \<noteq> '''' \<and> list_all (\<lambda>b. 32 < byte b \<and> byte b < 127) tok" if "SignedString sample_crypto alg c p = Inr tok" for alg c p tok
    using that digits_printable by (auto simp: sample_crypto_def sample_token_def split: if_splits)
qed (auto simp: sample_crypto_def sample_parse_token split: if_splits)


definition sample_io :: "(string \<Rightarrow> string option) out_fs" where
  "sample_io = \<lparr>MkdirAll = (\<lambda>_ f. (None, f)), WriteFile = (\<lambda>path s _ f. (None, f(path \<mapsto> s)))\<rparr>"

interpretation sample_writer: file_writer sample_io "\<lambda>f. f"
  by unfold_locales (auto simp: sample_io_def)

section \<open>Properties\<close>

text \<open>(C38) Generated keys work: when gen-keys succeeds, the private key file it wrote, put into a variable as
  it is, without its last newline, or on a single line with escaped line ends, is read by mint-token as
  the generated key, and the public key file is read by the API as its public key.\<close>

theorem generated_keys_load:
  assumes "key_library cr" "file_writer io content" "gen_keys cr io args key f = (Printed out, f')"
  shows "\<exists>priv a b. key = Inr priv \<and>
    content f' (filepath_Join (case args of [] \<Rightarrow> ''./secrets'' | dir # _ \<Rightarrow> dir) ''jwt_private.pem'') = Some a \<and>
    content f' (filepath_Join (case args of [] \<Rightarrow> ''./secrets'' | dir # _ \<Rightarrow> dir) ''jwt_public.pem'') = Some b \<and>
    (\<forall>os e. os e \<in> env_forms a \<longrightarrow> loadRSAPrivateKeyFromEnv cr os e = Inr priv) \<and>
    (\<forall>os e. os e \<in> env_forms b \<longrightarrow> LoadRSAPublicKeyFromEnv (ParseRSAPublicKeyFromPEM cr) os e = Inr (PublicOf cr priv))"
  using file_writer.gen_keys_writes [OF assms(2,3)] key_library.load_private [OF assms(1)] key_library.load_public [OF assms(1)]
  by blast

theorem generated_keys_load_witness:
  "\<exists>out f'. gen_keys sample_crypto sample_io [] (Inr ''k'') Map.empty = (Printed out, f') \<and>
    (\<exists>a. f' ''secrets/jwt_private.pem'' = Some a \<and> loadRSAPrivateKeyFromEnv sample_crypto (\<lambda>_. single_line a) ''KEY'' = Inr ''k'')"
proof -
  obtain out f' where run: "gen_keys sample_crypto sample_io [] (Inr ''k'') Map.empty = (Printed out, f')"
    by (simp add: gen_keys_def sample_io_def sample_crypto_def Let_def)
  have path: "filepath_Join ''./secrets'' ''jwt_private.pem'' = ''secrets/jwt_private.pem''"
    by (simp add: filepath_Join_def Clean_def clean_step_def HasPrefix_def Let_def)
  have "\<exists>a. f' ''secrets/jwt_private.pem'' = Some a \<and> loadRSAPrivateKeyFromEnv sample_crypto (\<lambda>_. single_line a) ''KEY'' = Inr ''k''"
    using generated_keys_load [OF sample_keys.key_library_axioms sample_writer.file_writer_axioms run]
    by (auto simp: path env_forms_def)
  with run show ?thesis by blast
qed

text \<open>(C14) Minted tokens open the API: a token that mint-token printed at time \<open>now\<close>, sent as a bearer token to an
  API with the matching public key, authorizes the request while no more than the time to live and 29
  seconds have passed, and never later than the time to live and the leeway of 30 seconds; a token for
  tenant 0 never does.\<close>

theorem minted_token_authorizes:
  assumes "jwt_library cr" "mint_token cr os flags now = Printed out" "loadRSAPrivateKeyFromEnv cr os (FlagEnv flags) = Inr priv"
    "ParsePEM w = ParseRSAPublicKeyFromPEM cr" "WorldJwt w = ParseAt cr now'"
    "LoadRSAPublicKeyFromEnv (ParseRSAPublicKeyFromPEM cr) (Getenv w) ''JWT_PUBLIC_KEY_PEM'' = Inr (PublicOf cr priv)"
    "second \<le> now + FlagTTL flags" "now + FlagTTL flags < 2 ^ 63" "HeaderGet r ''Authorization'' @ [CHR 0x0A] = ''Bearer '' @ out"
  shows "(FlagTenant flags \<noteq> 0 \<and> now' \<le> now + FlagTTL flags + 29 * second \<longrightarrow> authorized w r) \<and>
    (authorized w r \<longrightarrow> FlagTenant flags \<noteq> 0 \<and> now' < now + FlagTTL flags + 30 * second)"
proof -
  define c where "c = \<lparr>TokTenant = FlagTenant flags, TokIssuer = FlagIss flags, TokSubject = FlagSub flags,
    TokIssuedAt = NewNumericDate cr now, TokExpiresAt = NewNumericDate cr (now + FlagTTL flags)\<rparr>"
  obtain tok where tok: "SignedString cr ''RS256'' c priv = Inr tok" "out = tok @ [CHR 0x0A]"
    using assms(2,3) by (auto simp: mint_token_def c_def Let_def split: sum.splits)
  have h: "HeaderGet r ''Authorization'' = ''Bearer '' @ tok" using assms(9) tok(2) by (simp flip: append_assoc)
  have date: "now + FlagTTL flags - second < TokExpiresAt c" "TokExpiresAt c \<le> now + FlagTTL flags"
    using jwt_library.date_law [OF assms(1), of "now + FlagTTL flags"] by (simp_all add: c_def)
  have exp: "0 < TokExpiresAt c" "TokExpiresAt c < 2 ^ 63" using date assms(7,8) by simp_all
  have "tok \<noteq> ''''" using jwt_library.token_law [OF assms(1) tok(1)] by simp
  then have "authorized w r \<longleftrightarrow> (\<exists>claims. ParseAndValidateRS256 (ParseAt cr now') tok (Some (PublicOf cr priv)) = Inr claims)"
    using assms(4-6) jwt_library.bearer_signed [OF assms(1) tok(1) h]
    by (auto simp: authorized_def token_accepted_def split: sum.splits)
  also have "\<dots> \<longleftrightarrow> TokTenant c \<noteq> 0 \<and> now' < TokExpiresAt c + 30 * second"
    by (rule jwt_library.validate_signed [OF assms(1) tok(1) exp])
  finally show ?thesis using date by (auto simp: c_def)
qed

text \<open>A process whose public key is on one line of its environment, at a time.\<close>

definition token_world :: "time \<Rightarrow> (table_state, string) world" where
  "token_world now =
     \<lparr>Getenv = (\<lambda>_. single_line (sample_pem ''PUBLIC KEY'' ''k'')), Driver = sample_driver,
      ParsePEM = ParseRSAPublicKeyFromPEM sample_crypto, Files = sample_fs (Inr ''''), Script = note_script, HealthPing = (\<lambda>_. None),
      WorldGunzip = (\<lambda>b. Inl ''gzip: invalid header''), WorldJwt = ParseAt sample_crypto now, WorldMux = (\<lambda>r. write_status 404)\<rparr>"

theorem minted_token_authorizes_witness:
  "\<exists>tok. mint_token sample_crypto (\<lambda>_. sample_pem ''RSA PRIVATE KEY'' ''k'') default_flags 0 = Printed (tok @ [CHR 0x0A]) \<and>
    authorized (token_world (60 * second)) (sample_request\<lparr>Header := [(''Authorization'', ''Bearer '' @ tok)]\<rparr>)"
proof -
  let ?os = "\<lambda>_. sample_pem ''RSA PRIVATE KEY'' ''k''" and ?w = "token_world (60 * second)"
  have priv: "loadRSAPrivateKeyFromEnv sample_crypto ?os (FlagEnv default_flags) = Inr ''k''"
    by (rule sample_keys.load_private) (simp add: env_forms_def sample_crypto_def)
  have pub: "LoadRSAPublicKeyFromEnv (ParseRSAPublicKeyFromPEM sample_crypto) (Getenv ?w) ''JWT_PUBLIC_KEY_PEM'' = Inr (PublicOf sample_crypto ''k'')"
    by (rule sample_keys.load_public [where der = "''k''"]) (simp_all add: env_forms_def sample_crypto_def token_world_def)
  obtain tok where mint: "mint_token sample_crypto ?os default_flags 0 = Printed (tok @ [CHR 0x0A])"
    using priv by (simp add: mint_token_def Let_def) (simp add: sample_crypto_def)
  let ?r = "sample_request\<lparr>Header := [(''Authorization'', ''Bearer '' @ tok)]\<rparr>"
  have "CanonicalHeaderKey ''Authorization'' = ''Authorization''"
    by (simp add: CanonicalHeaderKey_def char_to_upper_def char_to_lower_def)
  then have h: "HeaderGet ?r ''Authorization'' @ [CHR 0x0A] = ''Bearer '' @ tok @ [CHR 0x0A]" by (simp add: HeaderGet_def)
  have w: "ParsePEM ?w = ParseRSAPublicKeyFromPEM sample_crypto" "WorldJwt ?w = ParseAt sample_crypto (60 * second)"
    by (simp_all add: token_world_def)
  have "authorized ?w ?r"
    using minted_token_authorizes [OF sample_jwt.jwt_library_axioms mint priv w pub _ _ h] by (simp add: default_flags_def second_def)
  with mint show ?thesis by blast
qed

end
