(* ===== verification/Spec2Isabelle.thy ===== *)
theory Spec2Isabelle
  imports Pipeline Legacy_Ingest Tokens
begin

text \<open>
  \<^bold>\<open>Conductor: a verification of the feed ingestion service\<close>

  Conductor receives product feeds over HTTP, validates every product, compares a digest of its
  normal form with the digest stored before, records a run with one result per product, and lets a
  worker push the changed products of each run exactly once. Its parts, and the theories that model
  them:

  \<^item> \<^bold>\<open>Go as the program uses it.\<close> \<open>Prelude\<close>: results, maps as association lists, permuters (the order
    in which the runtime yields a map, or breaks the ties of a sort), the collections of lemmas.
    \<open>Go_Text\<close>, \<open>Go_Unicode\<close>: UTF-8, \<open>strings\<close>, \<open>strconv\<close>, \<open>hex\<close>. \<open>Sha256\<close>: \<open>crypto/sha256\<close>. \<open>Go_Float\<close>,
    \<open>Go_Json\<close>, \<open>Json_Render\<close>: \<open>encoding/json\<close> as reader and writer, with a proof that the reader is total
    (its fuel, twice the input length, is always enough) and takes back what the writer wrote.
  \<^item> \<^bold>\<open>Products\<close> (\<open>internal/domain\<close>, \<open>internal/ingest\<close>). \<open>Domain\<close>: the records. \<open>Parse_Products\<close>: from bytes to
    products and unknown keys. \<open>Validate\<close>: base and channel validation, each characterised by an
    equivalence. \<open>Hash\<close>: the normal form, equal as a Go value exactly for equal content with maps
    unordered at every depth, and its digest, which depends on the content only. \<open>Processor\<close>:
    the delta decision and the batch loop with the invariant of its summary.
  \<^item> \<^bold>\<open>State\<close> (\<open>internal/state\<close>). \<open>Store\<close>: the \<open>Store\<close> interface as a record of operations, and its contracts
    as locales: \<open>product_hashes\<close>, \<open>idempotency_cache\<close>, \<open>run_queue\<close>. \<open>Memory_Store\<close>: the store in memory
    with its representation invariant, and the interpretations of the contracts.
  \<^item> \<^bold>\<open>MySQL\<close> (\<open>internal/state/mysql_*.go\<close>, \<open>internal/migrate\<close>). \<open>Sql\<close>: the interface of \<open>database/sql\<close>, the
    statements as syntax, their meaning over tables, and the locales \<open>tx_server\<close> and \<open>sql_server\<close> of what a
    server promises. \<open>Mysql_Store\<close>: every operation of the store as the statements it sends. \<open>Mysql_Contract\<close>:
    over a server that tells strings apart by their bytes, the store keeps the contracts of the queue
    and of the digests. \<open>Mysql_Tables\<close>, \<open>Mysql_Service\<close>: run products, cached responses, and the endpoints and
    the worker over MySQL. \<open>Migrate\<close>: scripts are applied in order and once, and resumed after a failure.
  \<^item> \<^bold>\<open>Worker\<close> (\<open>internal/worker\<close>, \<open>internal/execute\<close>). \<open>Run_Lifecycle\<close>: all interleavings of API and workers as
    a step relation; no run is claimed twice. \<open>Tenant_Ctx\<close>, \<open>Executor\<close>, \<open>Worker\<close>: loading a run, one tick,
    the loop over the ticker, draining the queue.
  \<^item> \<^bold>\<open>API\<close> (\<open>internal/api\<close>, \<open>cmd/api\<close>). \<open>Http\<close>: requests, responses, line scanning. \<open>Response_Json\<close>: the bytes of
    the responses. \<open>Handlers\<close>, \<open>Upsert\<close>, \<open>Bulk\<close>: the endpoints; the streaming endpoint agrees with the array
    endpoint. \<open>Middleware\<close>: tenant, authentication, idempotency. \<open>Server\<close>: routes and the chain of
    middleware. \<open>Pipeline\<close>: an upsert followed by a tick, and the service as a state machine: after any
    sequence of requests and worker passes the recorded runs agree with their products and digests.
  \<^item> \<^bold>\<open>Processes and tools\<close> (\<open>internal/config\<close>, \<open>internal/state/factory.go\<close>, \<open>internal/db\<close>, \<open>cmd\<close>). \<open>Startup\<close>: how the
    API and the worker start from their environment, with every exit; outside development a started API
    serves authorized requests only. \<open>Tokens\<close>: gen-keys and mint-token, and that the API reads the keys and
    accepts the tokens they make.
  \<^item> \<^bold>\<open>First generation\<close> (\<open>internal/ingest/http_*.go\<close>, \<open>idempotency_*.go\<close>, \<open>memory_store.go\<close>). \<open>Legacy_Ingest\<close>:
    the older handlers, equivalent to the newer ones for one tenant, and their cache, whose two methods are
    also given as code with locks that two goroutines run under any schedule.

  Stateful code passes its state explicitly; a mutex-protected method is one step, and where the
  code releases its lock in between, its instructions are steps. Errors are values of \<open>'a res\<close>. The clock, random bytes, map
  orders and ties of sorts are arguments that the theorems quantify over. Code outside the
  repository is a parameter: the JWT library, gzip, the hook that pushes products, the database. A
  nil pointer that the code checks is \<open>None\<close>; one it dereferences unchecked is present. \<open>int\<close> counters
  are naturals: they count elements of slices in memory.

  Of the MySQL server the theorems assume the locale \<open>sql_server\<close>: the statements have their documented
  meaning over the schema of \<open>migrations/0001_init.sql\<close>, a failed statement changes nothing, transactions
  do not overlap, a \<open>TIMESTAMP\<close> keeps whole seconds, and a JSON column returns an equal document in the
  server's spelling. The collation is left open and assumed to be binary only where a theorem says so.
  These laws, and those of the JWT and key libraries, are shown satisfiable by interpretations on
  concrete servers and libraries, which the witnesses use.

  Bounds: the JSON reader has fuel twice the input length, which is proved to be enough; all other
  recursions are on lists, and an unbounded loop (the worker's) is a function of the events it receives.

  Not modelled: log output, the listener, HTTP timeouts and the shutdown of \<open>cmd/api\<close> and \<open>cmd/worker\<close> on a
  signal, flag parsing of \<open>cmd/mint-token\<close>, deadlines of contexts passed to the database, and \<open>db.Ping\<close>,
  which has no caller: these are input and output around the modelled code.
\<close>

end
